(* ===== verification/JsPrelude.thy ===== *)
theory JsPrelude
  imports Main "HOL-Library.Sublist"
begin

text \<open>
  The part of the JavaScript language every component uses: strings, property-ordered objects,
  insertion-ordered maps and sets, thrown errors.

  A string is the list of its UTF-16 code units, each a natural number, so that lengths and
  comparisons count what the program counts; \<open>js ''abc''\<close> is an ASCII literal.  An object with
  computed keys (a \<open>Record\<close>) is the list of its own enumerable entries in the order
  \<open>Object.entries\<close> returns them: array-index keys ascending, then the other keys in insertion
  order.  A \<open>Map\<close> is the list of its entries in insertion order, a \<open>Set\<close> the list of its elements.
  A \<open>throw\<close> is the left summand of \<open>error + 'a\<close>.

  The interface locale \<open>keyed_store\<close> states what a client relies on in an object or a map
  (reading back what was written, leaving other keys alone); it is interpreted on both.
\<close>

named_theorems js_str "facts that evaluate string operations on literals"
named_theorems store_simps "what reads return after writes to objects, maps and sets"

subsection \<open>Strings\<close>

type_synonym jstr = "nat list"

definition js :: "string \<Rightarrow> jstr" where
  "js s = map of_char s"

lemma inj_of_char_nat: "inj (of_char :: char \<Rightarrow> nat)"
  by (rule injI) (metis char_of_char)

lemma js_eq_iff [simp]: "js a = js b \<longleftrightarrow> a = b"
  by (simp add: js_def inj_of_char_nat inj_map_eq_map)

lemma js_Nil [simp]: "js [] = []"
  by (simp add: js_def)

lemma js_eq_Nil [simp]: "js s = [] \<longleftrightarrow> s = []" "[] = js s \<longleftrightarrow> s = []"
  by (simp_all add: js_def)

lemma js_append: "js (a @ b) = js a @ js b"
  by (simp add: js_def)

lemma js_Cons: "js (c # s) = of_char c # js s"
  by (simp add: js_def)

lemma of_char_eq_iff [simp]: "(of_char c :: nat) = of_char d \<longleftrightarrow> c = d"
  using inj_of_char_nat by (simp add: inj_eq)

definition starts_with :: "jstr \<Rightarrow> jstr \<Rightarrow> bool" where
  "starts_with s p = prefix p s"

definition ends_with :: "jstr \<Rightarrow> jstr \<Rightarrow> bool" where
  "ends_with s p = suffix p s"

definition includes_str :: "jstr \<Rightarrow> jstr \<Rightarrow> bool" where
  "includes_str s p = sublist p s"

lemma starts_with_js [js_str]: "starts_with (js s) (js p) \<longleftrightarrow> prefix p s"
  unfolding starts_with_def js_def
proof
  assume "prefix (map of_char p) (map of_char s :: nat list)"
  then have "map char_of (map (of_char :: char \<Rightarrow> nat) s)
      = map char_of (map (of_char :: char \<Rightarrow> nat) p)
        @ map char_of (drop (length p) (map (of_char :: char \<Rightarrow> nat) s))"
    by (metis append_eq_conv_conj length_map map_append prefix_def)
  then have "s = p @ map char_of (drop (length p) (map (of_char :: char \<Rightarrow> nat) s))"
    by (simp add: comp_def)
  then show "prefix p s" unfolding prefix_def by blast
qed (rule map_mono_prefix)

text \<open>\<open>String.prototype.trim\<close> removes ECMAScript white space and line terminators.\<close>

definition js_space :: "nat \<Rightarrow> bool" where
  "js_space c \<longleftrightarrow> (9 \<le> c \<and> c \<le> 13) \<or> c = 32 \<or> c = 160 \<or> c = 5760 \<or> (8192 \<le> c \<and> c \<le> 8202)
     \<or> c = 8232 \<or> c = 8233 \<or> c = 8239 \<or> c = 8287 \<or> c = 12288 \<or> c = 65279"

text \<open>Evaluation compares as integers, whose numerals are binary.\<close>

lemma js_space_code [code]:
  "js_space c \<longleftrightarrow> (let i = int c in (9 \<le> i \<and> i \<le> 13) \<or> i = 32 \<or> i = 160 \<or> i = 5760
     \<or> (8192 \<le> i \<and> i \<le> 8202) \<or> i = 8232 \<or> i = 8233 \<or> i = 8239 \<or> i = 8287 \<or> i = 12288 \<or> i = 65279)"
  by (simp add: js_space_def Let_def)

definition js_trim :: "jstr \<Rightarrow> jstr" where
  "js_trim s = rev (dropWhile js_space (rev (dropWhile js_space s)))"

lemma js_trim_no_space_hd: "js_trim s \<noteq> [] \<Longrightarrow> \<not> js_space (hd (js_trim s))"
proof -
  assume ne: "js_trim s \<noteq> []"
  let ?u = "dropWhile js_space s"
  have pre: "prefix (js_trim s) ?u"
    unfolding js_trim_def
    by (metis rev_rev_ident suffix_dropWhile suffix_to_prefix)
  with ne have "?u \<noteq> []" by (metis prefix_Nil)
  moreover have "hd (js_trim s) = hd ?u"
    using pre ne by (metis hd_append2 prefix_def)
  ultimately show ?thesis using hd_dropWhile by metis
qed

lemma js_trim_no_space_last: "js_trim s \<noteq> [] \<Longrightarrow> \<not> js_space (last (js_trim s))"
  unfolding js_trim_def by (metis Nil_is_rev_conv hd_dropWhile last_rev)

lemma js_trim_id: "s = [] \<or> (\<not> js_space (hd s) \<and> \<not> js_space (last s)) \<Longrightarrow> js_trim s = s"
proof (cases s rule: rev_cases)
  case (snoc t c)
  moreover assume "s = [] \<or> (\<not> js_space (hd s) \<and> \<not> js_space (last s))"
  moreover from calculation have "dropWhile js_space s = s"
    by (metis dropWhile_eq_self_iff)
  ultimately show ?thesis by (simp add: js_trim_def)
qed (simp add: js_trim_def)

lemma js_trim_idem [simp]: "js_trim (js_trim s) = js_trim s"
  using js_trim_id [of "js_trim s"] js_trim_no_space_hd js_trim_no_space_last by blast

lemma set_js_trim: "set (js_trim s) \<subseteq> set s"
  unfolding js_trim_def by (auto dest!: set_dropWhileD)

text \<open>\<open>Array.prototype.join\<close>.\<close>

fun js_join :: "jstr \<Rightarrow> jstr list \<Rightarrow> jstr" where
  "js_join sep [] = []"
| "js_join sep [s] = s"
| "js_join sep (s # t # ts) = s @ sep @ js_join sep (t # ts)"

subsection \<open>Thrown errors\<close>

datatype error = Error jstr | TypeError | RangeError | URIError

type_synonym 'a result = "error + 'a"

abbreviation throw :: "string \<Rightarrow> 'a result" where
  "throw msg \<equiv> Inl (Error (js msg))"

definition and_then :: "'a result \<Rightarrow> ('a \<Rightarrow> 'b result) \<Rightarrow> 'b result" where
  "and_then r f = (case r of Inl e \<Rightarrow> Inl e | Inr a \<Rightarrow> f a)"

lemma and_then_simps [simp]:
  "and_then (Inl e) f = Inl e"
  "and_then (Inr a) f = f a"
  by (simp_all add: and_then_def)

lemma and_then_Inr_iff: "and_then r f = Inr b \<longleftrightarrow> (\<exists>a. r = Inr a \<and> f a = Inr b)"
  by (cases r) auto

lemma and_then_Inl_iff: "and_then r f = Inl e \<longleftrightarrow> r = Inl e \<or> (\<exists>a. r = Inr a \<and> f a = Inl e)"
  by (cases r) auto

text \<open>\<open>requires ok msg\<close> is the guard \<open>if (!ok) throw new Error(msg)\<close>.\<close>

definition requires :: "bool \<Rightarrow> string \<Rightarrow> unit result" where
  "requires ok msg = (if ok then Inr () else throw msg)"

lemma requires_Inr_iff [simp]: "requires ok msg = Inr u \<longleftrightarrow> ok"
  by (simp add: requires_def)

lemma requires_simps [simp]:
  "requires True msg = Inr ()"
  "requires False msg = throw msg"
  by (simp_all add: requires_def)

text \<open>\<open>xs.map(f)\<close> where \<open>f\<close> may throw: the first error ends it.\<close>

fun map_result :: "('a \<Rightarrow> 'b result) \<Rightarrow> 'a list \<Rightarrow> 'b list result" where
  "map_result f [] = Inr []"
| "map_result f (x # xs) = and_then (f x) (\<lambda>y. and_then (map_result f xs) (\<lambda>ys. Inr (y # ys)))"

lemma map_result_Inr_iff: "map_result f xs = Inr ys \<longleftrightarrow> list_all2 (\<lambda>x y. f x = Inr y) xs ys"
  by (induction xs arbitrary: ys) (auto simp: and_then_Inr_iff list_all2_Cons1)

lemma map_result_Inl_iff:
  "(\<exists>e. map_result f xs = Inl e) \<longleftrightarrow> list_ex (\<lambda>x. \<exists>e. f x = Inl e) xs"
proof (induction xs)
  case (Cons x xs)
  then show ?case by (cases "f x"; cases "map_result f xs") auto
qed simp

text \<open>
  A method that may throw after changing its object returns the object beside the result;
  \<open>attempt s r f\<close> evaluates \<open>r\<close>, leaves with state \<open>s\<close> when it throws and continues with \<open>f\<close> otherwise.
\<close>

definition attempt :: "'s \<Rightarrow> 'a result \<Rightarrow> ('a \<Rightarrow> 's \<times> 'b result) \<Rightarrow> 's \<times> 'b result" where
  "attempt s r f = (case r of Inl e \<Rightarrow> (s, Inl e) | Inr a \<Rightarrow> f a)"

lemma attempt_simps [simp]:
  "attempt s (Inl e) f = (s, Inl e)"
  "attempt s (Inr a) f = f a"
  by (simp_all add: attempt_def)

subsection \<open>Decimal digits\<close>

fun int_digits :: "int \<Rightarrow> nat list" where
  "int_digits n = (if n < 10 then [nat n] else int_digits (n div 10) @ [nat (n mod 10)])"

declare int_digits.simps [simp del]

definition digit_char :: "nat \<Rightarrow> nat" where
  "digit_char d = d + 48"

definition is_digit :: "nat \<Rightarrow> bool" where
  "is_digit c \<longleftrightarrow> 48 \<le> c \<and> c \<le> 57"

definition int_str :: "int \<Rightarrow> jstr" where
  "int_str i = (if i < 0 then 45 # map digit_char (int_digits (- i)) else map digit_char (int_digits i))"

definition digits_val :: "jstr \<Rightarrow> int" where
  "digits_val s = foldl (\<lambda>a c. 10 * a + (int c - 48)) 0 s"

lemma digits_val_snoc: "digits_val (s @ [c]) = 10 * digits_val s + (int c - 48)"
  by (simp add: digits_val_def)

lemma digits_val_Nil [simp]: "digits_val [] = 0"
  by (simp add: digits_val_def)

lemma int_digits_bound: "d \<in> set (int_digits n) \<Longrightarrow> d < 10"
proof (induction n rule: int_digits.induct)
  case (1 n)
  then show ?case by (cases "n < 10") (auto simp: int_digits.simps [of n])
qed

lemma int_digits_not_Nil [simp]: "int_digits n \<noteq> []"
  by (subst int_digits.simps) simp

lemma digits_val_int_digits: "0 \<le> n \<Longrightarrow> digits_val (map digit_char (int_digits n)) = n"
proof (induction n rule: int_digits.induct)
  case (1 n)
  show ?case
  proof (cases "n < 10")
    case True
    with "1.prems" show ?thesis
      by (simp add: int_digits.simps [of n] digits_val_def digit_char_def)
  next
    case False
    with "1.IH" "1.prems" have "digits_val (map digit_char (int_digits (n div 10))) = n div 10" by simp
    with False show ?thesis
      by (simp add: int_digits.simps [of n] digits_val_snoc) (simp add: digit_char_def)
  qed
qed

lemma digits_val_int_str [simp]: "0 \<le> n \<Longrightarrow> digits_val (int_str n) = n"
  by (simp add: int_str_def digits_val_int_digits)

lemma digits_are_digits: "list_all is_digit (map digit_char (int_digits n))"
  using int_digits_bound by (fastforce simp: list_all_iff is_digit_def digit_char_def)

lemma int_str_digits: "0 \<le> n \<Longrightarrow> list_all is_digit (int_str n)"
  using digits_are_digits [of n] by (simp add: int_str_def)

lemma int_str_not_Nil [simp]: "int_str n \<noteq> []"
  by (simp add: int_str_def)

lemma hd_int_str: "hd (int_str n) = 45 \<longleftrightarrow> n < 0"
proof (cases "n < 0")
  case False
  then have "is_digit (hd (int_str n))"
    using int_str_digits [of n] int_str_not_Nil [of n] by (metis list.pred_set list.set_sel(1) not_less)
  with False show ?thesis by (auto simp: is_digit_def)
qed (simp add: int_str_def)

lemma int_str_inj [simp]: "int_str m = int_str n \<longleftrightarrow> m = n"
proof
  assume e: "int_str m = int_str n"
  then have s: "m < 0 \<longleftrightarrow> n < 0" by (metis hd_int_str)
  show "m = n"
  proof (cases "m < 0")
    case True
    with s e have "map digit_char (int_digits (- m)) = map digit_char (int_digits (- n))"
      by (simp add: int_str_def)
    then have "digits_val (map digit_char (int_digits (- m))) = digits_val (map digit_char (int_digits (- n)))"
      by (rule arg_cong)
    moreover have "0 \<le> - m" "0 \<le> - n" using True s by linarith+
    ultimately have "- m = - n" by (simp only: digits_val_int_digits)
    then show ?thesis by simp
  next
    case False
    with s e show ?thesis by (metis digits_val_int_str linorder_not_le)
  qed
qed simp

subsection \<open>Character classes\<close>

definition alnum :: "nat \<Rightarrow> bool" where
  "alnum c \<longleftrightarrow> is_digit c \<or> (65 \<le> c \<and> c \<le> 90) \<or> (97 \<le> c \<and> c \<le> 122)"

text \<open>\<open>/^[class]{1,n}$/\<close>.\<close>

definition token :: "(nat \<Rightarrow> bool) \<Rightarrow> nat \<Rightarrow> jstr \<Rightarrow> bool" where
  "token cls n s \<longleftrightarrow> s \<noteq> [] \<and> length s \<le> n \<and> list_all cls s"

text \<open>\<open>toLowerCase\<close> on ASCII text, and the case folding of an expression with flag \<open>i\<close> on ASCII letters.\<close>

definition to_lower :: "jstr \<Rightarrow> jstr" where
  "to_lower = map (\<lambda>c. if 65 \<le> c \<and> c \<le> 90 then c + 32 else c)"

subsection \<open>Objects with computed keys\<close>

type_synonym 'v jobj = "(jstr \<times> 'v) list"

text \<open>Array-index keys come first, in ascending order.\<close>

definition array_index :: "jstr \<Rightarrow> int option" where
  "array_index k =
     (if k \<noteq> [] \<and> list_all is_digit k \<and> (k = js ''0'' \<or> hd k \<noteq> 48) \<and> digits_val k < 4294967295
      then Some (digits_val k) else None)"

fun insert_index :: "int \<Rightarrow> jstr \<Rightarrow> 'v \<Rightarrow> 'v jobj \<Rightarrow> 'v jobj" where
  "insert_index i k v [] = [(k, v)]"
| "insert_index i k v ((k', v') # r) =
     (case array_index k' of
        Some j \<Rightarrow> if j < i then (k', v') # insert_index i k v r else (k, v) # (k', v') # r
      | None \<Rightarrow> (k, v) # (k', v') # r)"

fun replace_entry :: "'k \<Rightarrow> 'v \<Rightarrow> ('k \<times> 'v) list \<Rightarrow> ('k \<times> 'v) list" where
  "replace_entry k v [] = []"
| "replace_entry k v ((k', v') # r) = (if k' = k then (k, v) # r else (k', v') # replace_entry k v r)"

text \<open>Defining an own property: an existing one keeps its place.\<close>

definition obj_put :: "'v jobj \<Rightarrow> jstr \<Rightarrow> 'v \<Rightarrow> 'v jobj" where
  "obj_put ob k v =
     (if k \<in> fst ` set ob then replace_entry k v ob
      else case array_index k of Some i \<Rightarrow> insert_index i k v ob | None \<Rightarrow> ob @ [(k, v)])"

definition obj_get :: "'v jobj \<Rightarrow> jstr \<Rightarrow> 'v option" where
  "obj_get ob k = map_of ob k"

text \<open>\<open>Object.fromEntries\<close> and the spread \<open>{...a, ...b}\<close>.\<close>

definition from_entries :: "(jstr \<times> 'v) list \<Rightarrow> 'v jobj" where
  "from_entries es = foldl (\<lambda>ob (k, v). obj_put ob k v) [] es"

definition obj_spread :: "'v jobj \<Rightarrow> 'v jobj \<Rightarrow> 'v jobj" where
  "obj_spread a b = foldl (\<lambda>ob (k, v). obj_put ob k v) a b"

text \<open>
  The names a property read finds on \<open>Object.prototype\<close> when the object has no own property of
  that name: such a read yields a truthy value.
\<close>

definition object_prototype_names :: "jstr list" where
  "object_prototype_names = map js
     [''constructor'', ''__defineGetter__'', ''__defineSetter__'', ''hasOwnProperty'',
      ''__lookupGetter__'', ''__lookupSetter__'', ''isPrototypeOf'', ''propertyIsEnumerable'',
      ''toString'', ''valueOf'', ''__proto__'', ''toLocaleString'']"

text \<open>
  Reading \<open>ob[k]\<close> of an object made by the program: an own entry, or what the prototype holds
  under that name, or \<open>undefined\<close>.
\<close>

datatype 'v member = Own 'v | Inherited

definition obj_member :: "'v jobj \<Rightarrow> jstr \<Rightarrow> 'v member option" where
  "obj_member ob k = (case obj_get ob k of Some v \<Rightarrow> Some (Own v)
     | None \<Rightarrow> if k \<in> set object_prototype_names then Some Inherited else None)"

lemma obj_member_simps [store_simps]:
  "obj_get ob k = Some v \<Longrightarrow> obj_member ob k = Some (Own v)"
  "obj_get ob k = None \<Longrightarrow> k \<notin> set object_prototype_names \<Longrightarrow> obj_member ob k = None"
  by (simp_all add: obj_member_def)

subsection \<open>Maps and sets\<close>

definition map_set :: "('k \<times> 'v) list \<Rightarrow> 'k \<Rightarrow> 'v \<Rightarrow> ('k \<times> 'v) list" where
  "map_set m k v = (if k \<in> fst ` set m then replace_entry k v m else m @ [(k, v)])"

definition map_get :: "('k \<times> 'v) list \<Rightarrow> 'k \<Rightarrow> 'v option" where
  "map_get m k = map_of m k"

definition map_remove :: "('k \<times> 'v) list \<Rightarrow> 'k \<Rightarrow> ('k \<times> 'v) list" where
  "map_remove m k = filter (\<lambda>e. fst e \<noteq> k) m"

definition set_add :: "'a list \<Rightarrow> 'a \<Rightarrow> 'a list" where
  "set_add s x = (if x \<in> set s then s else s @ [x])"

definition set_of_list :: "'a list \<Rightarrow> 'a list" where
  "set_of_list xs = foldl set_add [] xs"

lemma map_of_replace_entry:
  "k \<in> fst ` set m \<Longrightarrow> map_of (replace_entry k v m) k' = (if k' = k then Some v else map_of m k')"
  by (induction m) force+

lemma keys_replace_entry [simp]: "map fst (replace_entry k v m) = map fst m"
  by (induction m) auto

lemma map_of_append_fresh:
  "k \<notin> fst ` set m \<Longrightarrow> map_of (m @ [(k, v)]) k' = (if k' = k then Some v else map_of m k')"
  by (induction m) auto

lemma map_of_insert_index:
  "k \<notin> fst ` set m \<Longrightarrow> map_of (insert_index i k v m) k' = (if k' = k then Some v else map_of m k')"
  by (induction m) (auto split: option.splits)

lemma set_insert_index: "set (insert_index i k v m) = insert (k, v) (set m)"
  by (induction m) (auto split: option.splits if_splits)

lemma distinct_insert_index:
  "k \<notin> fst ` set m \<Longrightarrow> distinct (map fst m) \<Longrightarrow> distinct (map fst (insert_index i k v m))"
  by (induction m) (auto simp: set_insert_index split: option.splits)

lemma obj_get_put [store_simps]: "obj_get (obj_put ob k v) k' = (if k' = k then Some v else obj_get ob k')"
  by (simp add: obj_get_def obj_put_def map_of_replace_entry map_of_append_fresh map_of_insert_index
      del: map_of_append split: option.split)

lemma obj_get_Nil [store_simps]: "obj_get [] k = None"
  by (simp add: obj_get_def)

lemma map_get_set [store_simps]: "map_get (map_set m k v) k' = (if k' = k then Some v else map_get m k')"
  by (simp add: map_get_def map_set_def map_of_replace_entry map_of_append_fresh
      del: map_of_append)

lemma map_get_Nil [store_simps]: "map_get [] k = None"
  by (simp add: map_get_def)

lemma map_get_remove [store_simps]: "map_get (map_remove m k) k' = (if k' = k then None else map_get m k')"
  unfolding map_get_def map_remove_def by (induction m) auto

lemma distinct_obj_put: "distinct (map fst ob) \<Longrightarrow> distinct (map fst (obj_put ob k v))"
  by (auto simp: obj_put_def distinct_insert_index split: option.split)

lemma distinct_map_set: "distinct (map fst m) \<Longrightarrow> distinct (map fst (map_set m k v))"
  by (auto simp: map_set_def)

lemma distinct_map_remove: "distinct (map fst m) \<Longrightarrow> distinct (map fst (map_remove m k))"
  unfolding map_remove_def by (induction m) auto

lemma keys_obj_put [store_simps]: "fst ` set (obj_put ob k v) = insert k (fst ` set ob)"
proof -
  have "fst ` set (replace_entry k v ob) = fst ` set ob"
    by (metis keys_replace_entry list.set_map)
  then show ?thesis
    by (auto simp: obj_put_def set_insert_index image_iff split: option.split)
qed

lemma set_set_add [store_simps]: "set (set_add s x) = insert x (set s)"
  by (auto simp: set_add_def)

lemma distinct_set_add: "distinct s \<Longrightarrow> distinct (set_add s x)"
  by (simp add: set_add_def)

lemma set_set_of_list [store_simps]: "set (set_of_list xs) = set xs"
proof -
  have "set (foldl set_add s xs) = set s \<union> set xs" for s
    by (induction xs arbitrary: s) (auto simp: store_simps)
  then show ?thesis by (simp add: set_of_list_def)
qed

lemma distinct_set_of_list: "distinct (set_of_list xs)"
proof -
  have "distinct s \<Longrightarrow> distinct (foldl set_add s xs)" for s
    by (induction xs arbitrary: s) (auto intro: distinct_set_add)
  then show ?thesis by (simp add: set_of_list_def)
qed

lemma fold_invariant: "P s \<Longrightarrow> (\<And>x s. x \<in> set xs \<Longrightarrow> P s \<Longrightarrow> P (f x s)) \<Longrightarrow> P (fold f xs s)"
  by (induction xs arbitrary: s) auto

lemma find_SomeD: "find P xs = Some x \<Longrightarrow> x \<in> set xs \<and> P x"
  by (induction xs) (auto split: if_splits)

lemma find_snoc:
  "find P (xs @ [x]) = (case find P xs of Some y \<Rightarrow> Some y | None \<Rightarrow> if P x then Some x else None)"
  by (induction xs) auto

lemma set_replace_entry: "set (replace_entry k v m) \<subseteq> insert (k, v) (set m)"
  by (induction m) (auto split: if_splits)

lemma set_obj_put: "set (obj_put ob k v) \<subseteq> insert (k, v) (set ob)"
  using set_replace_entry [of k v ob]
  by (auto simp: obj_put_def set_insert_index split: option.splits if_splits)

lemma distinct_obj_spread: "distinct (map fst a) \<Longrightarrow> distinct (map fst (obj_spread a b))"
proof (induction b arbitrary: a)
  case (Cons e b)
  then show ?case by (cases e) (simp add: obj_spread_def distinct_obj_put)
qed (simp add: obj_spread_def)

subsection \<open>The keyed-store interface\<close>

text \<open>
  What the components rely on when they index data by a key: a write is read back, other keys
  keep their value.  Building a store from a list of entries then keeps the last entry of each key.
\<close>

locale keyed_store =
  fixes get :: "'s \<Rightarrow> 'k \<Rightarrow> 'v option"
    and put :: "'s \<Rightarrow> 'k \<Rightarrow> 'v \<Rightarrow> 's"
    and empty :: 's
  assumes get_empty: "get empty k = None"
    and get_put: "get (put s k v) k' = (if k' = k then Some v else get s k')"
begin

lemma get_foldl_put:
  "get (foldl (\<lambda>s (k, v). put s k v) s es) k
     = (case map_of (rev es) k of Some v \<Rightarrow> Some v | None \<Rightarrow> get s k)"
proof (induction es arbitrary: s)
  case Nil
  then show ?case by simp
next
  case (Cons e es)
  obtain k' v' where e: "e = (k', v')" by (cases e)
  have "map_of (rev es @ [(k', v')]) k = (case map_of (rev es) k of Some v \<Rightarrow> Some v
      | None \<Rightarrow> if k = k' then Some v' else None)"
    by (auto simp: map_add_def map_of_append split: option.split)
  with Cons.IH [of "put s k' v'"] show ?case
    by (simp add: e get_put split: option.splits)
qed

lemma get_build: "get (foldl (\<lambda>s (k, v). put s k v) empty es) k = map_of (rev es) k"
  by (simp add: get_foldl_put get_empty split: option.split)

lemma get_build_None: "get (foldl (\<lambda>s (k, v). put s k v) empty es) k = None \<longleftrightarrow> k \<notin> fst ` set es"
  by (simp add: get_build map_of_eq_None_iff)

lemma get_build_SomeD:
  "get (foldl (\<lambda>s (k, v). put s k v) empty es) k = Some v \<Longrightarrow> (k, v) \<in> set es"
  using get_build map_of_SomeD by fastforce

lemma get_build_distinct:
  "distinct (map fst es) \<Longrightarrow> (k, v) \<in> set es
    \<Longrightarrow> get (foldl (\<lambda>s (k, v). put s k v) empty es) k = Some v"
proof -
  assume d: "distinct (map fst es)" and kv: "(k, v) \<in> set es"
  from d have "distinct (map fst (rev es))" by (simp add: rev_map [symmetric])
  with kv show ?thesis by (simp add: get_build map_of_eq_Some_iff)
qed

end

interpretation object_store: keyed_store obj_get obj_put "[]"
  by unfold_locales (simp_all add: store_simps)

interpretation map_store: keyed_store map_get map_set "[]"
  by unfold_locales (simp_all add: store_simps)

lemma obj_get_from_entries: "obj_get (from_entries es) k = map_of (rev es) k"
  by (simp add: from_entries_def object_store.get_build)

lemma obj_get_spread:
  "obj_get (obj_spread a b) k = (case map_of (rev b) k of Some v \<Rightarrow> Some v | None \<Rightarrow> obj_get a k)"
  by (simp add: obj_spread_def object_store.get_foldl_put)

lemma distinct_from_entries: "distinct (map fst (from_entries es))"
proof -
  have "distinct (map fst ob) \<Longrightarrow> distinct (map fst (foldl (\<lambda>ob (k, v). obj_put ob k v) ob es))"
    for ob :: "'a jobj"
    by (induction es arbitrary: ob) (auto intro: distinct_obj_put)
  then show ?thesis by (simp add: from_entries_def)
qed

subsection \<open>Sorting\<close>

text \<open>Strings compare by code units.\<close>

definition str_less :: "jstr \<Rightarrow> jstr \<Rightarrow> bool" where
  "str_less s t = ord_class.lexordp s t"

text \<open>
  \<open>Array.prototype.sort\<close> with a comparator, positive on \<open>(x, y)\<close> when \<open>gt x y\<close>: the stable order.  For a
  comparator that is no consistent order the standard leaves the result open; this is one of them.
\<close>

fun sort_insert :: "('a \<Rightarrow> 'a \<Rightarrow> bool) \<Rightarrow> 'a \<Rightarrow> 'a list \<Rightarrow> 'a list" where
  "sort_insert gt x [] = [x]"
| "sort_insert gt x (y # ys) = (if gt x y then y # sort_insert gt x ys else x # y # ys)"

definition js_sort :: "('a \<Rightarrow> 'a \<Rightarrow> bool) \<Rightarrow> 'a list \<Rightarrow> 'a list" where
  "js_sort gt xs = foldr (sort_insert gt) xs []"

lemma set_sort_insert [simp]: "set (sort_insert gt x ys) = insert x (set ys)"
  by (induction ys) auto

lemma set_js_sort [simp]: "set (js_sort gt xs) = set xs"
  unfolding js_sort_def by (induction xs) auto

lemma length_sort_insert: "length (sort_insert gt x ys) = Suc (length ys)"
  by (induction ys) auto

lemma length_js_sort [simp]: "length (js_sort gt xs) = length xs"
  unfolding js_sort_def by (induction xs) (auto simp: length_sort_insert)

lemma js_sort_simps: "js_sort gt [] = []" "js_sort gt (x # xs) = sort_insert gt x (js_sort gt xs)"
  by (simp_all add: js_sort_def)

lemma sort_insert_key:
  "(\<And>y. y \<in> set ys \<Longrightarrow> gt x y \<longleftrightarrow> key y < key x) \<Longrightarrow> sort_insert gt x ys = insort_key (key :: 'a \<Rightarrow> 'b::linorder) x ys"
  by (induction ys) auto

lemma js_sort_key:
  "(\<And>x y. x \<in> set xs \<Longrightarrow> y \<in> set xs \<Longrightarrow> gt x y \<longleftrightarrow> key y < key x) \<Longrightarrow> js_sort gt xs = sort_key (key :: 'a \<Rightarrow> 'b::linorder) xs"
proof (induction xs)
  case (Cons x xs)
  then have "js_sort gt xs = sort_key key xs" by simp
  moreover have "sort_insert gt x (sort_key key xs) = insort_key key x (sort_key key xs)"
    by (rule sort_insert_key) (use Cons.prems in auto)
  ultimately show ?case by (simp add: js_sort_simps)
qed (simp add: js_sort_simps)

end
