(* ===== verification/JsNumber.thy ===== *)
theory JsNumber
  imports JsPrelude Complex_Main "HOL-Library.Log_Nat"
begin

text \<open>
  JavaScript numbers.  A finite double is the rational number it denotes; \<open>fl\<close> rounds an exact
  result to the nearest double, ties to even, with subnormals and overflow, so the arithmetic
  operators compute what IEEE 754 binary64 computes.  Negative zero is not distinguished from zero:
  the modelled code never divides by a zero and never tests the sign of one.
  \<open>num_str\<close> is \<open>Number.prototype.toString\<close>: the shortest decimal that rounds back to the number.

  The lemmas show when rounding is exact: every product of an integer below \<open>2^53\<close> and a power of
  two in range, hence every safe integer, so timestamps in milliseconds and slot numbers add and
  subtract without error.
\<close>

datatype jnum = Fin rat | PosInf | NegInf | NaN

definition is_finite :: "jnum \<Rightarrow> bool" where
  "is_finite x = (case x of Fin _ \<Rightarrow> True | _ \<Rightarrow> False)"

lemma is_finite_simps [simp]:
  "is_finite (Fin q)" "\<not> is_finite PosInf" "\<not> is_finite NegInf" "\<not> is_finite NaN"
  by (simp_all add: is_finite_def)

lemma is_finite_iff: "is_finite x \<longleftrightarrow> (\<exists>q. x = Fin q)"
  by (cases x) auto

subsection \<open>Rounding to a double\<close>

definition pow2 :: "int \<Rightarrow> rat" where
  "pow2 e = (if 0 \<le> e then 2 ^ nat e else 1 / 2 ^ nat (- e))"

definition ilog2 :: "rat \<Rightarrow> int" where
  "ilog2 x = (let (a, b) = quotient_of x; e = bitlen a - bitlen b
              in if pow2 e \<le> x then e else e - 1)"

definition round_even :: "rat \<Rightarrow> int" where
  "round_even x =
     (let n = \<lfloor>x\<rfloor>; r = x - of_int n
      in if r < 1 / 2 then n else if 1 / 2 < r then n + 1 else if even n then n else n + 1)"

definition round_pos :: "rat \<Rightarrow> rat" where
  "round_pos x = (let e = max (ilog2 x - 52) (- 1074) in of_int (round_even (x / pow2 e)) * pow2 e)"

definition fl :: "rat \<Rightarrow> jnum" where
  "fl x =
     (if x = 0 then Fin 0
      else let y = round_pos \<bar>x\<bar>
           in if pow2 1024 \<le> y then (if 0 < x then PosInf else NegInf) else Fin (sgn x * y))"

lemma pow2_pos [simp]: "0 < pow2 e"
  by (simp add: pow2_def)

lemma pow2_nonzero [simp]: "pow2 e \<noteq> 0"
  using pow2_pos [of e] by linarith

lemma pow2_powi: "pow2 e = 2 powi e"
  by (simp add: pow2_def power_int_def inverse_eq_divide power_divide)

lemma pow2_add: "pow2 (a + b) = pow2 a * pow2 b"
  by (simp add: pow2_powi power_int_add)

lemma pow2_mono: "a < b \<Longrightarrow> pow2 a < pow2 b"
proof -
  assume "a < b"
  then have "1 < pow2 (b - a)" by (simp add: pow2_def)
  then have "pow2 a * 1 < pow2 a * pow2 (b - a)" by (intro mult_strict_left_mono) auto
  then show ?thesis by (simp flip: pow2_add)
qed

lemma pow2_less_iff [simp]: "pow2 a < pow2 b \<longleftrightarrow> a < b"
  using pow2_mono [of a b] pow2_mono [of b a] by (cases a b rule: linorder_cases) auto

lemma pow2_le_iff [simp]: "pow2 a \<le> pow2 b \<longleftrightarrow> a \<le> b"
  using pow2_less_iff [of b a] by (auto simp flip: not_less)

lemma pow2_nonneg_int: "0 \<le> e \<Longrightarrow> pow2 e = of_int (2 ^ nat e)"
  by (simp add: pow2_def)

lemma bitlen_pow2: "0 < a \<Longrightarrow> pow2 (bitlen a - 1) \<le> of_int a \<and> of_int a < pow2 (bitlen a)"
proof -
  assume a: "0 < a"
  from bitlen_bounds [OF a] have b: "2 ^ nat (bitlen a - 1) \<le> a" "a < 2 ^ nat (bitlen a)" by auto
  have g: "0 < bitlen a" using a by (metis bitlen_nonneg bitlen_eq_zero_iff less_le not_le)
  have "pow2 (bitlen a - 1) = of_int (2 ^ nat (bitlen a - 1))" "pow2 (bitlen a) = of_int (2 ^ nat (bitlen a))"
    using g by (simp_all add: pow2_def)
  with b show ?thesis by (simp only: of_int_le_iff of_int_less_iff)
qed

lemma pow2_ilog2_le:
  assumes "0 < x"
  shows "pow2 (ilog2 x) \<le> x"
proof -
  obtain a b where q: "quotient_of x = (a, b)" by fastforce
  then have x: "x = of_int a / of_int b" and b: "0 < b"
    by (auto simp: quotient_of_div quotient_of_denom_pos)
  with assms have a: "0 < a" by (simp add: zero_less_divide_iff)
  let ?e = "bitlen a - bitlen b"
  have "pow2 (?e - 1) \<le> x"
  proof -
    have "pow2 (?e - 1) * of_int b \<le> pow2 (?e - 1) * pow2 (bitlen b)"
      using bitlen_pow2 [OF b] by (intro mult_left_mono) (auto intro: less_imp_le)
    also have "\<dots> = pow2 (bitlen a - 1)" by (simp add: pow2_add [symmetric])
    also have "\<dots> \<le> of_int a" using bitlen_pow2 [OF a] by simp
    finally show ?thesis using b by (simp add: x pos_le_divide_eq)
  qed
  then show ?thesis by (simp add: ilog2_def q Let_def)
qed

lemma ilog2_less: "0 < x \<Longrightarrow> x < pow2 k \<Longrightarrow> ilog2 x < k"
  using pow2_ilog2_le [of x] by (metis order_le_less_trans pow2_less_iff)

lemma round_even_int [simp]: "round_even (of_int n) = n"
  by (simp add: round_even_def)

text \<open>Numbers with a significand below \<open>2^53\<close> are doubles: rounding leaves them alone.\<close>

lemma round_pos_representable:
  assumes "0 < m" "m < 2 ^ 53" "- 1074 \<le> k"
  shows "round_pos (of_int m * pow2 k) = of_int m * pow2 k"
proof -
  let ?x = "of_int m * pow2 k" and ?e = "max (ilog2 (of_int m * pow2 k) - 52) (- 1074)"
  have "(of_int m :: rat) < of_int (2 ^ 53)" using assms(2) by (simp only: of_int_less_iff)
  then have m: "(of_int m :: rat) < pow2 53" by (simp add: pow2_def)
  have pos: "0 < ?x" using assms(1) by simp
  have "?x < pow2 (53 + k)"
    using m by (simp only: pow2_add) simp
  then have "ilog2 ?x < 53 + k" by (rule ilog2_less [OF pos])
  with assms(3) have e: "?e \<le> k" by simp
  then have "pow2 k = pow2 (k - ?e) * pow2 ?e" by (metis diff_add_cancel pow2_add)
  moreover have "pow2 (k - ?e) = of_int (2 ^ nat (k - ?e))" using e by (intro pow2_nonneg_int) simp
  ultimately have "?x = of_int (m * 2 ^ nat (k - ?e)) * pow2 ?e"
    by (metis mult.assoc of_int_mult)
  then have q: "?x / pow2 ?e = of_int (m * 2 ^ nat (k - ?e))"
    by (metis nonzero_mult_div_cancel_right pow2_nonzero)
  have "round_pos ?x = of_int (round_even (?x / pow2 ?e)) * pow2 ?e"
    by (simp add: round_pos_def Let_def)
  also have "\<dots> = (?x / pow2 ?e) * pow2 ?e" by (simp only: q round_even_int)
  finally show ?thesis by simp
qed

lemma fl_representable:
  assumes "\<bar>m\<bar> < 2 ^ 53" "- 1074 \<le> k" "\<bar>of_int m * pow2 k\<bar> < pow2 1024"
  shows "fl (of_int m * pow2 k) = Fin (of_int m * pow2 k)"
proof (cases "m = 0")
  case True
  then show ?thesis by (simp add: fl_def)
next
  case False
  have a: "\<bar>of_int m * pow2 k\<bar> = of_int \<bar>m\<bar> * pow2 k"
    using less_imp_le [OF pow2_pos, of k] by (simp add: abs_mult)
  have "round_pos (of_int \<bar>m\<bar> * pow2 k) = of_int \<bar>m\<bar> * pow2 k"
    using assms False by (intro round_pos_representable) auto
  moreover have "sgn (of_int m * pow2 k) = of_int (sgn m)"
    using pow2_pos [of k] by (simp add: sgn_mult) (simp add: sgn_if)
  moreover have "of_int (sgn m) * (\<bar>of_int m\<bar> * pow2 k) = (of_int m * pow2 k :: rat)"
    by (simp flip: mult.assoc add: sgn_if)
  ultimately show ?thesis using a assms(3) False by (simp add: fl_def Let_def)
qed

lemma fl_int:
  assumes "\<bar>n\<bar> < 2 ^ 53"
  shows "fl (of_int n) = Fin (of_int n)"
proof -
  have "\<bar>of_int n :: rat\<bar> < of_int (2 ^ 53)" using assms by (metis of_int_abs of_int_less_iff)
  also have "\<dots> < pow2 1024"
  proof -
    have "of_int (2 ^ 53) = pow2 53" by (simp add: pow2_def)
    then show ?thesis by (simp only: pow2_less_iff)
  qed
  finally show ?thesis using fl_representable [of n 0] assms by (simp add: pow2_def)
qed

lemma fl_numerals:
  "fl 0 = Fin 0" "fl 1 = Fin 1" "fl (- 1) = Fin (- 1)"
  "(numeral n :: int) < 2 ^ 53 \<Longrightarrow> fl (numeral n) = Fin (numeral n)"
  "(numeral n :: int) < 2 ^ 53 \<Longrightarrow> fl (- numeral n) = Fin (- numeral n)"
  using fl_int [of 0] fl_int [of 1] fl_int [of "- 1"] fl_int [of "numeral n"] fl_int [of "- numeral n"]
  by simp_all

text \<open>Evaluation leaves integers as they are instead of searching for their exponent.\<close>

definition fl_round :: "rat \<Rightarrow> jnum" where
  "fl_round x = fl x"

lemmas fl_round_code [code] = fl_def [folded fl_round_def]

lemma fl_code [code]:
  "fl x = (case quotient_of x of (n, d) \<Rightarrow>
     if d = 1 \<and> - 9007199254740992 < n \<and> n < 9007199254740992 then Fin x else fl_round x)"
proof -
  obtain n d where q: "quotient_of x = (n, d)" by force
  have "fl x = Fin x" if "d = 1" "\<bar>n\<bar> < 2 ^ 53"
    using fl_int [OF that(2)] quotient_of_div [OF q] that(1) by simp
  then show ?thesis by (auto simp: q fl_round_def abs_less_iff)
qed

lemma round_even_bounds: "\<lfloor>x\<rfloor> \<le> round_even x" "round_even x \<le> \<lfloor>x\<rfloor> + 1"
  by (simp_all add: round_even_def Let_def)

lemma round_pos_pos:
  assumes "1 \<le> x"
  shows "0 < round_pos x" "round_pos x \<le> 2 * x"
proof -
  let ?e = "max (ilog2 x - 52) (- 1074)"
  have "pow2 (ilog2 x - 52) \<le> pow2 (ilog2 x)" by simp
  also have "\<dots> \<le> x" by (rule pow2_ilog2_le) (use assms in simp)
  finally have 1: "pow2 (ilog2 x - 52) \<le> x" .
  have "pow2 (- 1074) \<le> pow2 0" by (simp only: pow2_le_iff)
  then have "pow2 (- 1074) \<le> x" using assms by (simp add: pow2_def)
  with 1 have e: "pow2 ?e \<le> x" by (simp add: max_def)
  then have q: "1 \<le> x / pow2 ?e" by (simp add: le_divide_eq)
  then have "1 \<le> \<lfloor>x / pow2 ?e\<rfloor>" by simp
  then have "1 \<le> round_even (x / pow2 ?e)" using round_even_bounds(1) [of "x / pow2 ?e"] by linarith
  then have "(1 :: rat) \<le> of_int (round_even (x / pow2 ?e))" by simp
  then have "0 < of_int (round_even (x / pow2 ?e)) * pow2 ?e" by (intro mult_pos_pos) auto
  then show "0 < round_pos x" by (simp add: round_pos_def Let_def)
  have "(of_int (round_even (x / pow2 ?e)) :: rat) \<le> of_int (\<lfloor>x / pow2 ?e\<rfloor> + 1)"
    using round_even_bounds(2) [of "x / pow2 ?e"] by (simp only: of_int_le_iff)
  also have "\<dots> \<le> x / pow2 ?e + 1" by simp
  finally have "of_int (round_even (x / pow2 ?e)) * pow2 ?e \<le> (x / pow2 ?e + 1) * pow2 ?e"
    using less_imp_le [OF pow2_pos] by (intro mult_right_mono)
  also have "\<dots> = x + pow2 ?e" by (simp add: algebra_simps)
  also have "\<dots> \<le> 2 * x" using e by simp
  finally show "round_pos x \<le> 2 * x" by (simp add: round_pos_def Let_def)
qed

text \<open>The rounding error is at most half of the last place.\<close>

lemma round_even_error: "\<bar>of_int (round_even x) - x\<bar> \<le> 1 / 2"
proof -
  have "of_int \<lfloor>x\<rfloor> \<le> x" "x < of_int \<lfloor>x\<rfloor> + 1" by linarith+
  then show ?thesis by (auto simp: round_even_def Let_def abs_le_iff)
qed

lemma round_pos_error:
  assumes "0 < x" "x < pow2 k" "- 1020 \<le> k"
  shows "\<bar>round_pos x - x\<bar> \<le> pow2 (k - 54)"
proof -
  let ?e = "max (ilog2 x - 52) (- 1074)"
  have e: "?e \<le> k - 53" using ilog2_less [OF assms(1,2)] assms(3) by simp
  have "round_pos x - x = (of_int (round_even (x / pow2 ?e)) - x / pow2 ?e) * pow2 ?e"
    by (simp add: round_pos_def Let_def left_diff_distrib)
  then have "\<bar>round_pos x - x\<bar> = \<bar>of_int (round_even (x / pow2 ?e)) - x / pow2 ?e\<bar> * pow2 ?e"
    by (simp only: abs_mult abs_of_pos [OF pow2_pos])
  also have "\<dots> \<le> 1 / 2 * pow2 ?e"
    using round_even_error less_imp_le [OF pow2_pos] by (rule mult_right_mono)
  also have "\<dots> \<le> 1 / 2 * pow2 (k - 53)" using e by simp
  also have "\<dots> = pow2 (- 1) * pow2 (k - 53)" by (simp add: pow2_def)
  also have "\<dots> = pow2 (k - 54)" by (simp flip: pow2_add)
  finally show ?thesis .
qed

lemma fl_error:
  assumes "x \<noteq> 0" "\<bar>x\<bar> < pow2 k" "- 1020 \<le> k" "k \<le> 1000"
  shows "\<exists>y. fl x = Fin y \<and> \<bar>y - x\<bar> \<le> pow2 (k - 54)"
proof -
  let ?r = "round_pos \<bar>x\<bar>"
  have r: "\<bar>?r - \<bar>x\<bar>\<bar> \<le> pow2 (k - 54)" using assms by (intro round_pos_error) simp_all
  have "?r \<le> \<bar>x\<bar> + pow2 (k - 54)" using r by linarith
  also have "\<dots> < pow2 k + pow2 k"
    using assms(2) by (intro add_strict_mono) simp_all
  also have "\<dots> = pow2 1 * pow2 k" by (simp add: pow2_def)
  also have "\<dots> = pow2 (k + 1)" by (simp flip: pow2_add add: add.commute)
  also have "\<dots> < pow2 1024" using assms(4) by simp
  finally have "fl x = Fin (sgn x * ?r)" using assms(1) by (simp add: fl_def Let_def)
  moreover have "\<bar>sgn x * ?r - x\<bar> = \<bar>?r - \<bar>x\<bar>\<bar>" using assms(1) by (cases "0 < x") auto
  ultimately show ?thesis using r by simp
qed

subsection \<open>Operators\<close>

fun jneg :: "jnum \<Rightarrow> jnum" where
  "jneg (Fin a) = Fin (- a)"
| "jneg PosInf = NegInf"
| "jneg NegInf = PosInf"
| "jneg NaN = NaN"

fun jadd :: "jnum \<Rightarrow> jnum \<Rightarrow> jnum" where
  "jadd (Fin a) (Fin b) = fl (a + b)"
| "jadd NaN _ = NaN"
| "jadd _ NaN = NaN"
| "jadd PosInf NegInf = NaN"
| "jadd NegInf PosInf = NaN"
| "jadd PosInf _ = PosInf"
| "jadd NegInf _ = NegInf"
| "jadd _ b = b"

definition jsub :: "jnum \<Rightarrow> jnum \<Rightarrow> jnum" where
  "jsub a b = jadd a (jneg b)"

definition jinf :: "bool \<Rightarrow> jnum" where
  "jinf positive = (if positive then PosInf else NegInf)"

fun jmul :: "jnum \<Rightarrow> jnum \<Rightarrow> jnum" where
  "jmul (Fin a) (Fin b) = fl (a * b)"
| "jmul NaN _ = NaN"
| "jmul _ NaN = NaN"
| "jmul (Fin a) b = (if a = 0 then NaN else jinf ((0 < a) = (b = PosInf)))"
| "jmul a (Fin b) = (if b = 0 then NaN else jinf ((0 < b) = (a = PosInf)))"
| "jmul a b = jinf (a = b)"

fun jdiv :: "jnum \<Rightarrow> jnum \<Rightarrow> jnum" where
  "jdiv (Fin a) (Fin b) = (if b = 0 then if a = 0 then NaN else jinf (0 < a) else fl (a / b))"
| "jdiv NaN _ = NaN"
| "jdiv _ NaN = NaN"
| "jdiv (Fin a) _ = Fin 0"
| "jdiv a (Fin b) = jinf ((0 \<le> b) = (a = PosInf))"
| "jdiv _ _ = NaN"

fun jless :: "jnum \<Rightarrow> jnum \<Rightarrow> bool" where
  "jless (Fin a) (Fin b) = (a < b)"
| "jless NaN _ = False"
| "jless _ NaN = False"
| "jless NegInf b = (b \<noteq> NegInf)"
| "jless a NegInf = False"
| "jless PosInf _ = False"
| "jless a PosInf = True"

definition jeq :: "jnum \<Rightarrow> jnum \<Rightarrow> bool" where
  "jeq a b \<longleftrightarrow> a = b \<and> a \<noteq> NaN"

definition jle :: "jnum \<Rightarrow> jnum \<Rightarrow> bool" where
  "jle a b \<longleftrightarrow> jless a b \<or> jeq a b"

lemma jle_Fin [simp]: "jle (Fin a) (Fin b) \<longleftrightarrow> a \<le> b"
  by (auto simp: jle_def jeq_def)

lemma jeq_Fin [simp]: "jeq (Fin a) (Fin b) \<longleftrightarrow> a = b"
  by (simp add: jeq_def)

lemma jle_NaN [simp]: "\<not> jle NaN b" "\<not> jle a NaN"
  by (cases a; simp add: jle_def jeq_def)+

lemma jless_irrefl [simp]: "\<not> jless a a"
  by (cases a) auto

text \<open>\<open>Math.min\<close>, \<open>Math.max\<close>, \<open>Math.floor\<close>, \<open>Math.round\<close>, \<open>Number.isInteger\<close>.\<close>

definition jmin :: "jnum \<Rightarrow> jnum \<Rightarrow> jnum" where
  "jmin a b = (if a = NaN \<or> b = NaN then NaN else if jless b a then b else a)"

definition jmax :: "jnum \<Rightarrow> jnum \<Rightarrow> jnum" where
  "jmax a b = (if a = NaN \<or> b = NaN then NaN else if jless a b then b else a)"

definition jfloor :: "jnum \<Rightarrow> jnum" where
  "jfloor a = (case a of Fin q \<Rightarrow> Fin (of_int \<lfloor>q\<rfloor>) | _ \<Rightarrow> a)"

definition jround :: "jnum \<Rightarrow> jnum" where
  "jround a = (case a of Fin q \<Rightarrow> Fin (of_int \<lfloor>q + 1 / 2\<rfloor>) | _ \<Rightarrow> a)"

definition is_integer :: "jnum \<Rightarrow> bool" where
  "is_integer a = (case a of Fin q \<Rightarrow> of_int \<lfloor>q\<rfloor> = q | _ \<Rightarrow> False)"

definition safe_int :: "int \<Rightarrow> bool" where
  "safe_int n \<longleftrightarrow> \<bar>n\<bar> < 2 ^ 53"

lemma jadd_int: "safe_int (a + b) \<Longrightarrow> jadd (Fin (of_int a)) (Fin (of_int b)) = Fin (of_int (a + b))"
  using fl_int [of "a + b"] by (simp add: safe_int_def)

lemma jsub_int: "safe_int (a - b) \<Longrightarrow> jsub (Fin (of_int a)) (Fin (of_int b)) = Fin (of_int (a - b))"
  using fl_int [of "a - b"] by (simp add: safe_int_def jsub_def)

text \<open>Rounding keeps the sign.\<close>

lemma fl_sign:
  assumes "1 \<le> x" "x \<le> 2 ^ 60"
  shows "jless (Fin 0) (fl x)" "\<not> jless (Fin 0) (fl (- x))"
proof -
  have "round_pos x \<le> pow2 61" using round_pos_pos(2) [OF assms(1)] assms(2) by (simp add: pow2_def)
  also have "\<dots> < pow2 1024" by (simp only: pow2_less_iff)
  finally have b: "\<not> pow2 1024 \<le> round_pos x" by simp
  have x: "\<bar>x\<bar> = x" "x \<noteq> 0" "0 < x" "\<bar>- x\<bar> = x" "\<not> 0 < - x" "- x \<noteq> 0" using assms(1) by simp_all
  show "jless (Fin 0) (fl x)" using b x round_pos_pos(1) [OF assms(1)] by (simp add: fl_def Let_def)
  show "\<not> jless (Fin 0) (fl (- x))" using b x round_pos_pos(1) [OF assms(1)] by (simp add: fl_def Let_def sgn_minus)
qed

subsection \<open>Decimal rendering\<close>

definition pow10 :: "int \<Rightarrow> rat" where
  "pow10 e = (if 0 \<le> e then 10 ^ nat e else 1 / 10 ^ nat (- e))"

definition decimal_exponent :: "rat \<Rightarrow> int" where
  "decimal_exponent x =
     (let (a, b) = quotient_of x;
          e = int (length (int_digits a)) - int (length (int_digits b))
      in if pow10 e \<le> x then e + 1 else e)"

text \<open>The shortest digits \<open>s\<close> (there are \<open>k\<close>) and exponent \<open>n\<close> with \<open>s * 10^(n-k)\<close> rounding to \<open>x\<close>.\<close>

definition rounds_to :: "int \<Rightarrow> int \<Rightarrow> rat \<Rightarrow> bool" where
  "rounds_to s e x \<longleftrightarrow> 0 < s \<and> fl (of_int s * pow10 e) = Fin x"

definition decimal_of :: "int \<Rightarrow> int \<Rightarrow> int \<Rightarrow> int \<times> int \<times> int" where
  "decimal_of n k s = (if s = 10 ^ nat k then (n + 1, k, 10 ^ nat (k - 1)) else (n, k, s))"

definition decimal_candidate :: "rat \<Rightarrow> int \<Rightarrow> int \<Rightarrow> rat \<Rightarrow> (int \<times> int \<times> int) option" where
  "decimal_candidate x n k c =
     (if rounds_to \<lfloor>c\<rfloor> (n - k) x
         \<and> (c - of_int \<lfloor>c\<rfloor> \<le> 1 / 2 \<or> \<not> rounds_to (\<lfloor>c\<rfloor> + 1) (n - k) x)
      then Some (decimal_of n k \<lfloor>c\<rfloor>)
      else if rounds_to (\<lfloor>c\<rfloor> + 1) (n - k) x then Some (decimal_of n k (\<lfloor>c\<rfloor> + 1)) else None)"

text \<open>Seventeen digits always suffice for a double; the search stops there.\<close>

fun search_decimal :: "int list \<Rightarrow> rat \<Rightarrow> int \<Rightarrow> int \<times> int \<times> int" where
  "search_decimal [] x n = decimal_of n 17 \<lfloor>x / pow10 (n - 17)\<rfloor>"
| "search_decimal (k # ks) x n =
     (if decimal_candidate x n k (x / pow10 (n - k)) = None then search_decimal ks x n
      else the (decimal_candidate x n k (x / pow10 (n - k))))"

definition shortest_decimal :: "rat \<Rightarrow> int \<times> int \<times> int" where
  "shortest_decimal x = search_decimal [1..16] x (decimal_exponent x)"

definition zeros :: "nat \<Rightarrow> jstr" where
  "zeros n = replicate n 48"

definition positive_str :: "rat \<Rightarrow> jstr" where
  "positive_str x =
     (let (n, k, s) = shortest_decimal x; d = int_str s
      in if k \<le> n \<and> n \<le> 21 then d @ zeros (nat (n - k))
         else if 0 < n \<and> n \<le> 21 then take (nat n) d @ js ''.'' @ drop (nat n) d
         else if - 6 < n \<and> n \<le> 0 then js ''0.'' @ zeros (nat (- n)) @ d
         else (let e = n - 1; m = (if 0 \<le> e then js ''e+'' else js ''e-'') @ int_str \<bar>e\<bar>
               in if k = 1 then d @ m else take 1 d @ js ''.'' @ drop 1 d @ m))"

text \<open>An integer below \<open>2^53\<close> prints its own digits.\<close>

definition num_str :: "jnum \<Rightarrow> jstr" where
  "num_str x =
     (case x of Fin q \<Rightarrow> if of_int \<lfloor>q\<rfloor> = q \<and> \<bar>\<lfloor>q\<rfloor>\<bar> < 9007199254740992 then int_str \<lfloor>q\<rfloor> else if q < 0 then js ''-'' @ positive_str (- q) else positive_str q
      | PosInf \<Rightarrow> js ''Infinity'' | NegInf \<Rightarrow> js ''-Infinity'' | NaN \<Rightarrow> js ''NaN'')"

end
