(* ===== verification/Automation.thy ===== *)
theory Automation
  imports JsPrelude JsNumber
begin

text \<open>
  The automation core, \<open>libs/automation-core/src/lib/automation-core.ts\<close>: intents, action plans,
  the policy that decides which proposed actions may run, the check that no device is claimed by
  two adapters, reconciliation of a plan with observed state, and the context handed to a language
  model.  Clock, random identifiers and the SHA-256 digest of the serialised plan are arguments.
  A string-literal union of the source is a datatype; where the code has a default branch for other
  strings the datatype carries them (\<open>OtherAction\<close>).

  The lemmas give the policy's decision in closed form: which indexes are denied, when the plan is
  allowed, what an allowed plan guarantees, and what plan merging and reconciliation compute.
\<close>

subsection \<open>Data\<close>

record scope =
  sc_tenantId :: jstr
  sc_siteId :: jstr
  sc_assetId :: "jstr option"

datatype principal_type = Human | Llm | Schedule | Rule | Service

datatype permission = IntentCreate | PlanExecute | LightWrite | ThermostatWrite | SwitchWrite
  | LockWrite | PumpWrite | ChargerWrite | EngineWrite | StateRead | AuditRead

record principal =
  pr_id :: jstr
  pr_type :: principal_type
  pr_tenantId :: jstr
  pr_siteIds :: "jstr list"
  pr_permissions :: "permission list"

datatype asset_kind = HomeAsset | Building | Vehicle | Boat | BatterySite | IndustrialSite | OtherAsset

record managed_asset =
  ma_assetId :: jstr
  ma_tenantId :: jstr
  ma_siteId :: jstr
  ma_kind :: asset_kind
  ma_displayName :: jstr

datatype capability_kind = CapLight | CapThermostat | CapSwitch | CapSensor | CapLock | CapPump
  | CapCharger | CapEngine

datatype capability_action = DoTurnOn | DoTurnOff | DoSetTarget | DoLock | DoUnlock | DoSetPowerLimit
  | DoStart | DoStop | DoRead

fun kind_str :: "capability_kind \<Rightarrow> jstr" where
  "kind_str CapLight = js ''light''"
| "kind_str CapThermostat = js ''thermostat''"
| "kind_str CapSwitch = js ''switch''"
| "kind_str CapSensor = js ''sensor''"
| "kind_str CapLock = js ''lock''"
| "kind_str CapPump = js ''pump''"
| "kind_str CapCharger = js ''charger''"
| "kind_str CapEngine = js ''engine''"

fun capability_action_str :: "capability_action \<Rightarrow> jstr" where
  "capability_action_str DoTurnOn = js ''turn_on''"
| "capability_action_str DoTurnOff = js ''turn_off''"
| "capability_action_str DoSetTarget = js ''set_target_temperature''"
| "capability_action_str DoLock = js ''lock''"
| "capability_action_str DoUnlock = js ''unlock''"
| "capability_action_str DoSetPowerLimit = js ''set_power_limit''"
| "capability_action_str DoStart = js ''start''"
| "capability_action_str DoStop = js ''stop''"
| "capability_action_str DoRead = js ''read''"

record device_capability =
  cap_kind :: capability_kind
  cap_actions :: "capability_action list"
  cap_minValue :: "jnum option"
  cap_maxValue :: "jnum option"
  cap_unit :: "jstr option"

record device_binding =
  db_deviceId :: jstr
  db_tenantId :: jstr
  db_siteId :: jstr
  db_assetId :: "jstr option"
  db_zoneId :: "jstr option"
  db_adapterId :: jstr
  db_displayName :: jstr
  db_capabilities :: "device_capability list"

datatype intent_kind = VoiceCommand | ScheduledRule | ExternalSignal | ManualUi
datatype intent_source = FromVoice | FromUi | FromApi | FromSystem

record intent =
  in_id :: jstr
  in_scope :: scope
  in_principal :: principal
  in_kind :: intent_kind
  in_utterance :: "jstr option"
  in_goal :: jstr
  in_createdAt :: jstr
  in_source :: intent_source

datatype action_type = LightTurnOn | LightTurnOff | ThermostatSetTarget | SwitchTurnOn | SwitchTurnOff
  | LockLock | LockUnlock | PumpStart | PumpStop | ChargerSetPowerLimit | EngineStart | EngineStop
  | OtherAction jstr

fun action_type_str :: "action_type \<Rightarrow> jstr" where
  "action_type_str LightTurnOn = js ''light.turn_on''"
| "action_type_str LightTurnOff = js ''light.turn_off''"
| "action_type_str ThermostatSetTarget = js ''thermostat.set_target''"
| "action_type_str SwitchTurnOn = js ''switch.turn_on''"
| "action_type_str SwitchTurnOff = js ''switch.turn_off''"
| "action_type_str LockLock = js ''lock.lock''"
| "action_type_str LockUnlock = js ''lock.unlock''"
| "action_type_str PumpStart = js ''pump.start''"
| "action_type_str PumpStop = js ''pump.stop''"
| "action_type_str ChargerSetPowerLimit = js ''charger.set_power_limit''"
| "action_type_str EngineStart = js ''engine.start''"
| "action_type_str EngineStop = js ''engine.stop''"
| "action_type_str (OtherAction s) = s"

datatype action_value = NumValue jnum | StrValue jstr | BoolValue bool

text \<open>
  A value of type \<open>unknown\<close>: objects compare by identity, so they are references; a read that falls
  through to \<open>Object.prototype\<close> gives a built-in.
\<close>

datatype state_value = SVUndefined | SVNull | SVBool bool | SVNum jnum | SVStr jstr | SVRef nat
  | SVBuiltin jstr

definition strict_eq :: "state_value \<Rightarrow> state_value \<Rightarrow> bool" where
  "strict_eq a b = (case (a, b) of (SVNum x, SVNum y) \<Rightarrow> jeq x y | _ \<Rightarrow> a = b)"

record action =
  act_type :: action_type
  act_deviceId :: jstr
  act_value :: "action_value option"
  act_reason :: jstr
  act_delta :: "state_value jobj"

datatype plan_status = Proposed | Approved | Rejected

record action_plan =
  pl_id :: jstr
  pl_version :: nat
  pl_scope :: scope
  pl_intentId :: jstr
  pl_principalId :: jstr
  pl_actions :: "action list"
  pl_delta :: "state_value jobj jobj"
  pl_idempotencyKey :: jstr
  pl_createdAt :: jstr
  pl_status :: plan_status

record decision =
  allowed :: bool
  reasons :: "jstr list"
  denied :: "nat list"

record guardrails =
  thermostatMinC :: jnum
  thermostatMaxC :: jnum
  chargerMaxPowerKw :: jnum
  maxActionsPerPlan :: jnum
  disallowEngineStart :: bool

record guardrails_input =
  gi_thermostatMinC :: "jnum option"
  gi_thermostatMaxC :: "jnum option"
  gi_chargerMaxPowerKw :: "jnum option"
  gi_maxActionsPerPlan :: "jnum option"
  gi_disallowEngineStart :: "bool option"

record pending_plan =
  pp_planId :: jstr
  pp_scope :: scope
  pp_deviceIds :: "jstr list"

record snapshot =
  sn_scope :: scope
  sn_deviceId :: jstr
  sn_values :: "state_value jobj"
  sn_observedAt :: jstr

record drift =
  dr_deviceId :: jstr
  dr_key :: jstr
  dr_expected :: state_value
  dr_actual :: state_value

record reconciliation =
  rc_planId :: jstr
  rc_driftDetected :: bool
  rc_drifts :: "drift list"

datatype audit_type = IntentCreated | PolicyEvaluated | PlanCreated | ExecutionCompleted
  | StateReconciled | ServerError

record audit_event =
  ev_id :: jstr
  ev_type :: audit_type
  ev_scope :: scope
  ev_principalId :: "jstr option"
  ev_occurredAt :: jstr
  ev_payload :: "state_value jobj"

record server_error =
  se_service :: jstr
  se_operation :: jstr
  se_message :: jstr
  se_code :: "jstr option"
  se_occurredAt :: jstr

record llm_context =
  lc_scope :: scope
  lc_principal :: principal
  lc_visibleDevices :: "device_binding list"
  lc_state :: "snapshot list"
  lc_recentAuditEvents :: "audit_event list"
  lc_serverErrors :: "server_error list"
  lc_activePlan :: "action_plan option"
  lc_policyDecision :: "decision option"
  lc_instruction :: jstr

subsection \<open>Intents and plans\<close>

definition default_guardrails :: guardrails where
  "default_guardrails =
     \<lparr>thermostatMinC = Fin 5, thermostatMaxC = Fin 30, chargerMaxPowerKw = Fin 11,
      maxActionsPerPlan = Fin 20, disallowEngineStart = True\<rparr>"

text \<open>\<open>input.id || randomUUID()\<close>: a missing or empty text takes the fallback.\<close>

definition or_else :: "jstr option \<Rightarrow> jstr \<Rightarrow> jstr" where
  "or_else given fallback = (case given of Some s \<Rightarrow> if s = [] then fallback else s | None \<Rightarrow> fallback)"

definition createAutomationIntent ::
  "intent \<Rightarrow> jstr option \<Rightarrow> jstr option \<Rightarrow> jstr \<Rightarrow> jstr \<Rightarrow> intent" where
  "createAutomationIntent input given_id given_createdAt uuid now =
     input\<lparr>in_id := or_else given_id uuid, in_createdAt := or_else given_createdAt now\<rparr>"

text \<open>
  \<open>acc[id] = {...(acc[id] || {}), ...delta}\<close>.  Assigning to \<open>__proto__\<close> sets the prototype of \<open>acc\<close> and
  makes no own property; what later reads find on that prototype is not modelled, so the values predicted
  by a plan are claimed only when no action targets \<open>__proto__\<close>.
\<close>

definition merge_delta :: "state_value jobj jobj \<Rightarrow> action \<Rightarrow> state_value jobj jobj" where
  "merge_delta acc a =
     (if act_deviceId a = js ''__proto__'' then acc
      else obj_put acc (act_deviceId a)
        (obj_spread (case obj_get acc (act_deviceId a) of Some d \<Rightarrow> d | None \<Rightarrow> []) (act_delta a)))"

definition predicted_delta :: "action list \<Rightarrow> state_value jobj jobj" where
  "predicted_delta as = foldl merge_delta [] as"

type_synonym plan_digest = "scope \<Rightarrow> jstr \<Rightarrow> jstr \<Rightarrow> action list \<Rightarrow> jstr"

definition createIdempotencyKey :: "plan_digest \<Rightarrow> scope \<Rightarrow> jstr \<Rightarrow> jstr \<Rightarrow> action list \<Rightarrow> jstr" where
  "createIdempotencyKey digest sc intentId principalId as = digest sc intentId principalId as"

definition createActionPlan ::
  "plan_digest \<Rightarrow> intent \<Rightarrow> action list \<Rightarrow> jstr option \<Rightarrow> jstr \<Rightarrow> jstr \<Rightarrow> action_plan" where
  "createActionPlan digest i as given_createdAt uuid now =
     \<lparr>pl_id = uuid, pl_version = 1, pl_scope = in_scope i, pl_intentId = in_id i,
      pl_principalId = pr_id (in_principal i), pl_actions = as, pl_delta = predicted_delta as,
      pl_idempotencyKey =
        createIdempotencyKey digest (in_scope i) (in_id i) (pr_id (in_principal i)) as,
      pl_createdAt = or_else given_createdAt now, pl_status = Proposed\<rparr>"

subsection \<open>Scope, permissions, capabilities\<close>

definition principalCanAccessScope :: "principal \<Rightarrow> scope \<Rightarrow> bool" where
  "principalCanAccessScope p sc \<longleftrightarrow>
     pr_tenantId p = sc_tenantId sc \<and> sc_siteId sc \<in> set (pr_siteIds p)"

definition sameScope :: "scope \<Rightarrow> scope \<Rightarrow> bool" where
  "sameScope l r =
     (if sc_tenantId l \<noteq> sc_tenantId r \<or> sc_siteId l \<noteq> sc_siteId r then False
      else if sc_assetId r \<noteq> None then sc_assetId l = sc_assetId r
      else True)"

definition device_scope :: "device_binding \<Rightarrow> scope" where
  "device_scope d =
     \<lparr>sc_tenantId = db_tenantId d, sc_siteId = db_siteId d, sc_assetId = db_assetId d\<rparr>"

definition principalCanWriteAction :: "principal \<Rightarrow> action_type \<Rightarrow> bool" where
  "principalCanWriteAction p t =
     (let s = action_type_str t; has = (\<lambda>x. x \<in> set (pr_permissions p))
      in if starts_with s (js ''light.'') then has LightWrite
         else if starts_with s (js ''switch.'') then has SwitchWrite
         else if starts_with s (js ''thermostat.'') then has ThermostatWrite
         else if starts_with s (js ''lock.'') then has LockWrite
         else if starts_with s (js ''pump.'') then has PumpWrite
         else if starts_with s (js ''charger.'') then has ChargerWrite
         else if starts_with s (js ''engine.'') then has EngineWrite
         else False)"

fun requiredCapability :: "action_type \<Rightarrow> (capability_kind \<times> capability_action) option" where
  "requiredCapability LightTurnOn = Some (CapLight, DoTurnOn)"
| "requiredCapability LightTurnOff = Some (CapLight, DoTurnOff)"
| "requiredCapability SwitchTurnOn = Some (CapSwitch, DoTurnOn)"
| "requiredCapability SwitchTurnOff = Some (CapSwitch, DoTurnOff)"
| "requiredCapability ThermostatSetTarget = Some (CapThermostat, DoSetTarget)"
| "requiredCapability LockLock = Some (CapLock, DoLock)"
| "requiredCapability LockUnlock = Some (CapLock, DoUnlock)"
| "requiredCapability PumpStart = Some (CapPump, DoStart)"
| "requiredCapability PumpStop = Some (CapPump, DoStop)"
| "requiredCapability ChargerSetPowerLimit = Some (CapCharger, DoSetPowerLimit)"
| "requiredCapability EngineStart = Some (CapEngine, DoStart)"
| "requiredCapability EngineStop = Some (CapEngine, DoStop)"
| "requiredCapability (OtherAction _) = None"

text \<open>The result is the reason of the failure, \<open>None\<close> when the capability is there.\<close>

definition validateActionCapability :: "action \<Rightarrow> device_binding \<Rightarrow> jstr option" where
  "validateActionCapability a d =
     (case requiredCapability (act_type a) of
        None \<Rightarrow> Some (js ''action '' @ action_type_str (act_type a) @ js '' is not supported'')
      | Some (kind, act) \<Rightarrow>
          (case find (\<lambda>c. cap_kind c = kind) (db_capabilities d) of
             None \<Rightarrow> Some (js ''device '' @ db_deviceId d @ js '' does not expose '' @ kind_str kind)
           | Some c \<Rightarrow>
               if act \<notin> set (cap_actions c)
               then Some (js ''device '' @ db_deviceId d @ js '' cannot '' @ capability_action_str act)
               else None))"

text \<open>The map remembers the last adapter seen for each device; an empty adapter id is falsy.\<close>

definition binding_step ::
  "(jstr \<times> jstr) list \<times> jstr list \<Rightarrow> device_binding \<Rightarrow> (jstr \<times> jstr) list \<times> jstr list" where
  "binding_step st d =
     (let (seen, errors) = st;
          errors' = (case map_get seen (db_deviceId d) of
             None \<Rightarrow> errors
           | Some a \<Rightarrow>
               if a \<noteq> [] \<and> a \<noteq> db_adapterId d
               then errors @ [js ''device '' @ db_deviceId d @ js '' is claimed by multiple adapters: ''
                              @ a @ js '', '' @ db_adapterId d]
               else errors)
      in (map_set seen (db_deviceId d) (db_adapterId d), errors'))"

definition validateDeviceBindings :: "device_binding list \<Rightarrow> bool \<times> jstr list" where
  "validateDeviceBindings ds =
     (let errors = snd (foldl binding_step ([], []) ds) in (errors = [], errors))"

subsection \<open>The policy\<close>

type_synonym verdict = "jstr list \<times> nat list"

definition deny :: "nat \<Rightarrow> jstr \<Rightarrow> verdict \<Rightarrow> verdict" where
  "deny i reason v = (fst v @ [reason], set_add (snd v) i)"

definition deny_if :: "bool \<Rightarrow> nat \<Rightarrow> jstr \<Rightarrow> verdict \<Rightarrow> verdict" where
  "deny_if c i reason v = (if c then deny i reason v else v)"

definition deny_all_if :: "bool \<Rightarrow> nat \<Rightarrow> jstr list \<Rightarrow> verdict \<Rightarrow> verdict" where
  "deny_all_if c n rs v = (if c then (fst v @ rs, foldl set_add (snd v) [0..<n]) else v)"

text \<open>
  \<open>{ ...defaultGuardrails, ...input.guardrails }\<close>: a field that is not given has its default.  A field given
  as an explicit \<open>undefined\<close>, which the type of the input only tolerates, is not told apart from one not given.
\<close>

definition with_defaults :: "guardrails_input \<Rightarrow> guardrails" where
  "with_defaults g =
     (let d = default_guardrails; pick = (\<lambda>given fallback. case given of Some x \<Rightarrow> x | None \<Rightarrow> fallback)
      in \<lparr>thermostatMinC = pick (gi_thermostatMinC g) (thermostatMinC d),
          thermostatMaxC = pick (gi_thermostatMaxC g) (thermostatMaxC d),
          chargerMaxPowerKw = pick (gi_chargerMaxPowerKw g) (chargerMaxPowerKw d),
          maxActionsPerPlan = pick (gi_maxActionsPerPlan g) (maxActionsPerPlan d),
          disallowEngineStart =
            (case gi_disallowEngineStart g of Some b \<Rightarrow> b | None \<Rightarrow> disallowEngineStart d)\<rparr>)"

definition outside_thermostat :: "guardrails \<Rightarrow> action \<Rightarrow> bool" where
  "outside_thermostat g a \<longleftrightarrow> act_type a = ThermostatSetTarget
     \<and> (case act_value a of Some (NumValue v) \<Rightarrow> jless v (thermostatMinC g) \<or> jless (thermostatMaxC g) v
        | _ \<Rightarrow> False)"

definition above_charger_limit :: "guardrails \<Rightarrow> action \<Rightarrow> bool" where
  "above_charger_limit g a \<longleftrightarrow> act_type a = ChargerSetPowerLimit
     \<and> (case act_value a of Some (NumValue v) \<Rightarrow> jless (chargerMaxPowerKw g) v | _ \<Rightarrow> False)"

definition value_str :: "action \<Rightarrow> jstr" where
  "value_str a = (case act_value a of Some (NumValue v) \<Rightarrow> num_str v | _ \<Rightarrow> [])"

definition check_known_device ::
  "guardrails \<Rightarrow> intent \<Rightarrow> nat \<Rightarrow> action \<Rightarrow> device_binding \<Rightarrow> verdict \<Rightarrow> verdict" where
  "check_known_device g i n a d v0 =
     (let dev = js ''device '' @ act_deviceId a;
          v1 = deny_if (\<not> sameScope (device_scope d) (in_scope i)) n
                 (dev @ js '' is outside intent scope'') v0;
          v2 = deny_if (\<not> principalCanWriteAction (in_principal i) (act_type a)) n
                 (js ''principal lacks permission for '' @ action_type_str (act_type a)) v1;
          v3 = (case validateActionCapability a d of Some r \<Rightarrow> deny n r v2 | None \<Rightarrow> v2);
          v4 = deny_if (outside_thermostat g a) n
                 (js ''thermostat target '' @ value_str a @ js ''C is outside physical guardrails'') v3;
          v5 = deny_if (above_charger_limit g a) n
                 (js ''charger power '' @ value_str a @ js ''kW exceeds guardrail ''
                  @ num_str (chargerMaxPowerKw g) @ js ''kW'') v4;
          v6 = deny_if (act_type a = EngineStart \<and> disallowEngineStart g) n
                 (js ''engine start requires a dedicated safety workflow'') v5
      in deny_if (act_type a = EngineStop) n
           (js ''engine stop requires a dedicated safety workflow'') v6)"

definition check_action ::
  "guardrails \<Rightarrow> intent \<Rightarrow> device_binding list \<Rightarrow> verdict \<Rightarrow> nat \<times> action \<Rightarrow> verdict" where
  "check_action g i ds v na =
     (let (n, a) = na
      in case find (\<lambda>d. db_deviceId d = act_deviceId a) ds of
           None \<Rightarrow> deny n (js ''device '' @ act_deviceId a @ js '' is not known'') v
         | Some d \<Rightarrow> check_known_device g i n a d v)"

definition check_pending_action :: "pending_plan \<Rightarrow> verdict \<Rightarrow> nat \<times> action \<Rightarrow> verdict" where
  "check_pending_action p v na =
     (let (n, a) = na
      in deny_if (act_deviceId a \<in> set (pp_deviceIds p)) n
           (js ''device '' @ act_deviceId a @ js '' already has pending plan '' @ pp_planId p) v)"

definition check_pending :: "intent \<Rightarrow> (nat \<times> action) list \<Rightarrow> verdict \<Rightarrow> pending_plan \<Rightarrow> verdict" where
  "check_pending i nas v p =
     (if \<not> sameScope (pp_scope p) (in_scope i) then v else foldl (check_pending_action p) v nas)"

definition evaluatePolicy ::
  "intent \<Rightarrow> action list \<Rightarrow> device_binding list \<Rightarrow> pending_plan list \<Rightarrow> guardrails_input \<Rightarrow> decision" where
  "evaluatePolicy i as ds pending gi =
     (let g = with_defaults gi; n = length as; nas = List.enumerate 0 as;
          v1 = deny_all_if (\<not> principalCanAccessScope (in_principal i) (in_scope i)) n
                 [js ''principal is not allowed to access this tenant/site scope''] ([], []);
          v2 = deny_all_if (IntentCreate \<notin> set (pr_permissions (in_principal i))) n
                 [js ''principal cannot create automation intents''] v1;
          v3 = deny_all_if (jless (maxActionsPerPlan g) (Fin (of_nat n))) n
                 [js ''plan exceeds max action count '' @ num_str (maxActionsPerPlan g)] v2;
          v4 = deny_all_if (\<not> fst (validateDeviceBindings ds)) n (snd (validateDeviceBindings ds)) v3;
          v5 = foldl (check_action g i ds) v4 nas;
          v6 = foldl (check_pending i nas) v5 pending
      in \<lparr>allowed = (snd v6 = []), reasons = fst v6, denied = sort (snd v6)\<rparr>)"

subsection \<open>Reconciliation, audit events, context\<close>

text \<open>\<open>observed?.values[key]\<close>.\<close>

definition read_observed :: "snapshot option \<Rightarrow> jstr \<Rightarrow> state_value" where
  "read_observed sn k =
     (case sn of None \<Rightarrow> SVUndefined
      | Some s \<Rightarrow> (case obj_get (sn_values s) k of Some v \<Rightarrow> v
                   | None \<Rightarrow> if k \<in> set object_prototype_names then SVBuiltin k else SVUndefined))"

definition device_drifts :: "scope \<Rightarrow> snapshot list \<Rightarrow> jstr \<times> state_value jobj \<Rightarrow> drift list" where
  "device_drifts sc sns e =
     (let (dev, delta) = e;
          sn = find (\<lambda>s. sn_deviceId s = dev \<and> sameScope (sn_scope s) sc) sns
      in concat (map (\<lambda>(k, expected).
           let actual = read_observed sn k
           in if \<not> strict_eq actual expected
              then [\<lparr>dr_deviceId = dev, dr_key = k, dr_expected = expected, dr_actual = actual\<rparr>]
              else []) delta))"

definition reconcilePlan :: "action_plan \<Rightarrow> snapshot list \<Rightarrow> reconciliation" where
  "reconcilePlan p sns =
     (let drifts = concat (map (device_drifts (pl_scope p) sns) (pl_delta p))
      in \<lparr>rc_planId = pl_id p, rc_driftDetected = (drifts \<noteq> []), rc_drifts = drifts\<rparr>)"

definition createAuditEvent ::
  "audit_event \<Rightarrow> jstr option \<Rightarrow> jstr option \<Rightarrow> jstr \<Rightarrow> jstr \<Rightarrow> audit_event" where
  "createAuditEvent e given_id given_at uuid now =
     e\<lparr>ev_id := or_else given_id uuid, ev_occurredAt := or_else given_at now\<rparr>"

definition llm_instruction :: jstr where
  "llm_instruction = js ''Use this context to explain, diagnose, or propose automation intents. Do not execute hardware actions directly; every proposed action must pass policy evaluation and audited execution.''"

definition buildLlmAutomationContext ::
  "scope \<Rightarrow> principal \<Rightarrow> device_binding list \<Rightarrow> snapshot list \<Rightarrow> audit_event list option
    \<Rightarrow> server_error list option \<Rightarrow> action_plan option \<Rightarrow> decision option \<Rightarrow> llm_context" where
  "buildLlmAutomationContext sc p ds sns events errs plan dec =
     \<lparr>lc_scope = sc, lc_principal = p,
      lc_visibleDevices = filter (\<lambda>d. sameScope (device_scope d) sc) ds,
      lc_state = filter (\<lambda>s. sameScope (sn_scope s) sc) sns,
      lc_recentAuditEvents =
        filter (\<lambda>e. sameScope (ev_scope e) sc) (case events of Some es \<Rightarrow> es | None \<Rightarrow> []),
      lc_serverErrors = (case errs of Some es \<Rightarrow> es | None \<Rightarrow> []),
      lc_activePlan = plan, lc_policyDecision = dec, lc_instruction = llm_instruction\<rparr>"

subsection \<open>What a policy check marks\<close>

text \<open>
  Every check of the policy walks the numbered actions and only ever adds the index of an action it
  finds bad.  The locale states that contract once for the two checks of the code.
\<close>

locale index_marker =
  fixes step :: "verdict \<Rightarrow> nat \<times> action \<Rightarrow> verdict"
    and bad :: "action \<Rightarrow> bool"
  assumes marks: "set (snd (step v (n, a))) = set (snd v) \<union> (if bad a then {n} else {})"
    and keeps_distinct: "distinct (snd v) \<Longrightarrow> distinct (snd (step v (n, a)))"
begin

lemma foldl_marks:
  "set (snd (foldl step v nas)) = set (snd v) \<union> {n. \<exists>a. (n, a) \<in> set nas \<and> bad a}"
proof (induction nas arbitrary: v)
  case (Cons na nas)
  obtain n a where "na = (n, a)" by (cases na)
  with Cons show ?case by (auto simp: marks)
qed simp

lemma foldl_distinct: "distinct (snd v) \<Longrightarrow> distinct (snd (foldl step v nas))"
proof (induction nas arbitrary: v)
  case (Cons na nas)
  then show ?case by (cases na) (simp add: keeps_distinct)
qed simp

end

definition device_permits :: "guardrails \<Rightarrow> intent \<Rightarrow> action \<Rightarrow> device_binding \<Rightarrow> bool" where
  "device_permits g i a d \<longleftrightarrow> sameScope (device_scope d) (in_scope i)
     \<and> principalCanWriteAction (in_principal i) (act_type a)
     \<and> validateActionCapability a d = None
     \<and> \<not> outside_thermostat g a \<and> \<not> above_charger_limit g a
     \<and> \<not> (act_type a = EngineStart \<and> disallowEngineStart g) \<and> act_type a \<noteq> EngineStop"

definition known_and_permitted :: "guardrails \<Rightarrow> intent \<Rightarrow> device_binding list \<Rightarrow> action \<Rightarrow> bool" where
  "known_and_permitted g i ds a =
     (case find (\<lambda>d. db_deviceId d = act_deviceId a) ds of
        None \<Rightarrow> False | Some d \<Rightarrow> device_permits g i a d)"

definition no_pending_conflict :: "intent \<Rightarrow> pending_plan list \<Rightarrow> action \<Rightarrow> bool" where
  "no_pending_conflict i pending a =
     list_all (\<lambda>p. sameScope (pp_scope p) (in_scope i) \<longrightarrow> act_deviceId a \<notin> set (pp_deviceIds p)) pending"

definition request_admitted :: "guardrails \<Rightarrow> intent \<Rightarrow> nat \<Rightarrow> device_binding list \<Rightarrow> bool" where
  "request_admitted g i n ds \<longleftrightarrow> principalCanAccessScope (in_principal i) (in_scope i)
     \<and> IntentCreate \<in> set (pr_permissions (in_principal i))
     \<and> \<not> jless (maxActionsPerPlan g) (Fin (of_nat n))
     \<and> fst (validateDeviceBindings ds)"

definition action_permitted ::
  "guardrails \<Rightarrow> intent \<Rightarrow> device_binding list \<Rightarrow> pending_plan list \<Rightarrow> action \<Rightarrow> bool" where
  "action_permitted g i ds pending a \<longleftrightarrow> known_and_permitted g i ds a \<and> no_pending_conflict i pending a"

lemma deny_if_marks: "set (snd (deny_if c n r v)) = set (snd v) \<union> (if c then {n} else {})"
  by (auto simp: deny_if_def deny_def store_simps)

lemma deny_if_distinct: "distinct (snd v) \<Longrightarrow> distinct (snd (deny_if c n r v))"
  by (simp add: deny_if_def deny_def distinct_set_add)

lemma deny_as_deny_if: "deny n r v = deny_if True n r v"
  by (simp add: deny_if_def)

lemmas deny_facts = deny_if_marks deny_if_distinct deny_as_deny_if

lemma check_known_device_marks:
  "set (snd (check_known_device g i n a d v))
     = set (snd v) \<union> (if device_permits g i a d then {} else {n})"
  by (cases "validateActionCapability a d")
    (auto simp: check_known_device_def Let_def deny_facts device_permits_def split: if_splits)

lemma check_known_device_distinct:
  "distinct (snd v) \<Longrightarrow> distinct (snd (check_known_device g i n a d v))"
  by (cases "validateActionCapability a d") (simp_all add: check_known_device_def Let_def deny_facts)

interpretation device_check: index_marker "check_action g i ds" "\<lambda>a. \<not> known_and_permitted g i ds a"
proof
  show "set (snd (check_action g i ds v (n, a)))
      = set (snd v) \<union> (if \<not> known_and_permitted g i ds a then {n} else {})" for v n a
    by (simp add: check_action_def known_and_permitted_def deny_facts check_known_device_marks
        split: option.split)
  show "distinct (snd v) \<Longrightarrow> distinct (snd (check_action g i ds v (n, a)))" for v n a
    by (simp add: check_action_def deny_facts check_known_device_distinct split: option.split)
qed

interpretation pending_check: index_marker "check_pending_action p" "\<lambda>a. act_deviceId a \<in> set (pp_deviceIds p)"
  by unfold_locales (simp_all add: check_pending_action_def deny_facts)

lemma check_pending_marks:
  "set (snd (foldl (check_pending i nas) v pending))
     = set (snd v) \<union> {n. \<exists>a. (n, a) \<in> set nas \<and> \<not> no_pending_conflict i pending a}"
proof (induction pending arbitrary: v)
  case (Cons p pending)
  have "set (snd (check_pending i nas v p)) = set (snd v) \<union>
      {n. \<exists>a. (n, a) \<in> set nas \<and> sameScope (pp_scope p) (in_scope i) \<and> act_deviceId a \<in> set (pp_deviceIds p)}"
    by (auto simp: check_pending_def pending_check.foldl_marks)
  with Cons.IH show ?case by (auto simp: no_pending_conflict_def)
qed (simp add: no_pending_conflict_def)

lemma check_pending_distinct:
  "distinct (snd v) \<Longrightarrow> distinct (snd (foldl (check_pending i nas) v pending))"
  by (induction pending arbitrary: v) (simp_all add: check_pending_def pending_check.foldl_distinct)

lemma deny_all_marks: "set (snd (deny_all_if c n rs v)) = set (snd v) \<union> (if c then {..<n} else {})"
proof -
  have "set (foldl set_add s xs) = set s \<union> set xs" for s xs :: "nat list"
    by (induction xs arbitrary: s) (auto simp: store_simps)
  then show ?thesis by (auto simp: deny_all_if_def)
qed

lemma deny_all_distinct: "distinct (snd v) \<Longrightarrow> distinct (snd (deny_all_if c n rs v))"
proof -
  have "distinct s \<Longrightarrow> distinct (foldl set_add s xs)" for s xs :: "nat list"
    by (induction xs arbitrary: s) (auto intro: distinct_set_add)
  then show "distinct (snd v) \<Longrightarrow> distinct (snd (deny_all_if c n rs v))" by (simp add: deny_all_if_def)
qed

lemma in_enumerate_iff: "(n, a) \<in> set (List.enumerate 0 as) \<longleftrightarrow> n < length as \<and> as ! n = a"
  by (auto simp: in_set_enumerate_eq)

lemma evaluatePolicy_marks:
  "set (denied (evaluatePolicy i as ds pending gi))
     = {n. n < length as \<and> \<not> (request_admitted (with_defaults gi) i (length as) ds
                              \<and> action_permitted (with_defaults gi) i ds pending (as ! n))}"
proof -
  let ?g = "with_defaults gi" and ?N = "{..<length as}"
  have pick: "{n. \<exists>a. (n, a) \<in> set (List.enumerate 0 as) \<and> Q a} = {n. n < length as \<and> Q (as ! n)}" for Q
    by (auto simp: in_enumerate_iff)
  have "set (denied (evaluatePolicy i as ds pending gi)) =
      (if \<not> principalCanAccessScope (in_principal i) (in_scope i) then ?N else {})
      \<union> (if IntentCreate \<notin> set (pr_permissions (in_principal i)) then ?N else {})
      \<union> (if jless (maxActionsPerPlan ?g) (Fin (of_nat (length as))) then ?N else {})
      \<union> (if \<not> fst (validateDeviceBindings ds) then ?N else {})
      \<union> {n. n < length as \<and> \<not> known_and_permitted ?g i ds (as ! n)}
      \<union> {n. n < length as \<and> \<not> no_pending_conflict i pending (as ! n)}"
    by (simp only: evaluatePolicy_def Let_def decision.simps set_sort check_pending_marks
        device_check.foldl_marks deny_all_marks pick fst_conv snd_conv list.set Un_empty_left)
  also have "\<dots> = {n. n < length as \<and> \<not> (request_admitted ?g i (length as) ds
      \<and> action_permitted ?g i ds pending (as ! n))}"
    unfolding request_admitted_def action_permitted_def by (auto split: if_split_asm)
  finally show ?thesis .
qed

lemma evaluatePolicy_distinct: "distinct (denied (evaluatePolicy i as ds pending gi))"
  by (simp add: evaluatePolicy_def Let_def check_pending_distinct device_check.foldl_distinct deny_all_distinct)

lemma sort_Nil_iff: "sort xs = [] \<longleftrightarrow> xs = []"
  by (metis length_0_conv length_sort)

lemma evaluatePolicy_allowed: "allowed (evaluatePolicy i as ds pending gi) \<longleftrightarrow> denied (evaluatePolicy i as ds pending gi) = []"
  by (simp add: evaluatePolicy_def Let_def sort_Nil_iff)

text \<open>
  C1.  The policy denies exactly the right actions: the denied indexes are, in ascending order and
  each once, those of the actions that some rule forbids (an inadmissible request denies every
  index), and a plan is allowed exactly when none of its actions is forbidden.
\<close>

theorem policy_denies_exactly:
  "denied (evaluatePolicy i as ds pending gi)
     = filter (\<lambda>n. \<not> (request_admitted (with_defaults gi) i (length as) ds
                      \<and> action_permitted (with_defaults gi) i ds pending (as ! n))) [0..<length as]
   \<and> (allowed (evaluatePolicy i as ds pending gi) \<longleftrightarrow>
       list_all (\<lambda>a. request_admitted (with_defaults gi) i (length as) ds
                     \<and> action_permitted (with_defaults gi) i ds pending a) as)"
  (is "?D = filter ?bad _ \<and> _")
proof
  have "sorted ?D" by (simp add: evaluatePolicy_def Let_def)
  moreover have "set ?D = set (filter ?bad [0..<length as])" by (auto simp: evaluatePolicy_marks)
  ultimately show D: "?D = filter ?bad [0..<length as]"
    by (intro sorted_distinct_set_unique evaluatePolicy_distinct) (simp_all add: sorted_wrt_filter)
  show "allowed (evaluatePolicy i as ds pending gi) \<longleftrightarrow>
      list_all (\<lambda>a. request_admitted (with_defaults gi) i (length as) ds
                     \<and> action_permitted (with_defaults gi) i ds pending a) as"
    unfolding evaluatePolicy_allowed D by (auto simp: filter_empty_conv list_all_length)
qed

text \<open>The bindings of a device agree on its adapter.\<close>

definition adapters_agree :: "device_binding list \<Rightarrow> bool" where
  "adapters_agree ds = list_all (\<lambda>d. list_all (\<lambda>e.
     db_deviceId d = db_deviceId e \<longrightarrow> db_adapterId d = db_adapterId e) ds) ds"

definition last_adapter :: "device_binding list \<Rightarrow> jstr \<Rightarrow> jstr option" where
  "last_adapter ds k = map_of (rev (map (\<lambda>d. (db_deviceId d, db_adapterId d)) ds)) k"

lemma binding_seen: "map_get (fst (foldl binding_step ([], []) ds)) k = last_adapter ds k"
  unfolding last_adapter_def
  by (induction ds rule: rev_induct) (auto simp: binding_step_def Let_def store_simps split: prod.splits)

lemma last_adapter_SomeD:
  "last_adapter ds k = Some a \<Longrightarrow> \<exists>d \<in> set ds. db_deviceId d = k \<and> db_adapterId d = a"
  unfolding last_adapter_def by (drule map_of_SomeD) auto

lemma last_adapter_None_iff: "last_adapter ds k = None \<longleftrightarrow> k \<notin> db_deviceId ` set ds"
  unfolding last_adapter_def by (simp add: map_of_eq_None_iff image_image)

lemma adapters_agree_iff: "adapters_agree ds \<longleftrightarrow>
    (\<forall>d \<in> set ds. \<forall>e \<in> set ds. db_deviceId d = db_deviceId e \<longrightarrow> db_adapterId d = db_adapterId e)"
  by (simp add: adapters_agree_def list_all_iff)

lemma adapters_agree_snoc:
  "adapters_agree (ds @ [d]) \<longleftrightarrow> adapters_agree ds
     \<and> (\<forall>a. last_adapter ds (db_deviceId d) = Some a \<longrightarrow> a = db_adapterId d)"
proof -
  have 1: "adapters_agree (ds @ [d]) \<longleftrightarrow> adapters_agree ds
      \<and> (\<forall>e \<in> set ds. db_deviceId e = db_deviceId d \<longrightarrow> db_adapterId e = db_adapterId d)"
    unfolding adapters_agree_iff by auto
  have 2: "(\<forall>e \<in> set ds. db_deviceId e = db_deviceId d \<longrightarrow> db_adapterId e = db_adapterId d)
      \<longleftrightarrow> (\<forall>a. last_adapter ds (db_deviceId d) = Some a \<longrightarrow> a = db_adapterId d)"
    if ag: "adapters_agree ds"
  proof (cases "last_adapter ds (db_deviceId d)")
    case None
    then have "db_deviceId d \<notin> db_deviceId ` set ds" using last_adapter_None_iff by blast
    then have "\<forall>e \<in> set ds. db_deviceId e \<noteq> db_deviceId d" by (metis imageI)
    with None show ?thesis by simp
  next
    case (Some a)
    then obtain e where e: "e \<in> set ds" "db_deviceId e = db_deviceId d" "db_adapterId e = a"
      using last_adapter_SomeD by blast
    with ag Some show ?thesis unfolding adapters_agree_iff by (metis option.inject)
  qed
  show ?thesis using 1 2 by blast
qed

lemma binding_step_errors:
  assumes "\<And>a. map_get (fst st) (db_deviceId d) = Some a \<Longrightarrow> a \<noteq> []"
  shows "snd (binding_step st d) = [] \<longleftrightarrow> snd st = []
     \<and> (\<forall>a. map_get (fst st) (db_deviceId d) = Some a \<longrightarrow> a = db_adapterId d)"
  using assms by (cases st) (simp add: binding_step_def Let_def split: option.split)

lemma binding_errors:
  "list_all (\<lambda>d. db_adapterId d \<noteq> []) ds
     \<Longrightarrow> snd (foldl binding_step ([], []) ds) = [] \<longleftrightarrow> adapters_agree ds"
proof (induction ds rule: rev_induct)
  case Nil
  then show ?case by (simp add: adapters_agree_def)
next
  case (snoc d ds)
  have "a \<noteq> []" if "last_adapter ds (db_deviceId d) = Some a" for a
    using snoc.prems last_adapter_SomeD [OF that] by (auto simp: list_all_iff)
  then have "snd (binding_step (foldl binding_step ([], []) ds) d) = [] \<longleftrightarrow> adapters_agree ds
      \<and> (\<forall>a. last_adapter ds (db_deviceId d) = Some a \<longrightarrow> a = db_adapterId d)"
    using snoc by (subst binding_step_errors) (auto simp: binding_seen)
  then show ?case by (simp add: adapters_agree_snoc)
qed

lemma validateActionCapability_None:
  assumes "validateActionCapability a d = None"
  obtains kind act c where "requiredCapability (act_type a) = Some (kind, act)"
    "c \<in> set (db_capabilities d)" "cap_kind c = kind" "act \<in> set (cap_actions c)"
  using assms by (auto simp: validateActionCapability_def dest: find_SomeD split: option.splits prod.splits if_splits)

text \<open>
  C2.  What an allowed plan guarantees for each of its actions: the target is a registered device of
  the intent's tenant and site (and of its asset, when it names one), the principal belongs to that
  tenant and site and holds the write permission of the action's family, the device exposes the
  capability with the requested operation, the action is no engine stop, an engine start only with
  the guardrail lifted, and a numeric thermostat target lies within the guardrails.
\<close>

theorem allowed_plan_is_safe:
  assumes "allowed (evaluatePolicy i as ds pending gi)" and "a \<in> set as"
  shows "(\<exists>d \<in> set ds. db_deviceId d = act_deviceId a
      \<and> db_tenantId d = sc_tenantId (in_scope i) \<and> db_siteId d = sc_siteId (in_scope i)
      \<and> (sc_assetId (in_scope i) = None \<or> db_assetId d = sc_assetId (in_scope i))
      \<and> (\<exists>kind act c. requiredCapability (act_type a) = Some (kind, act)
           \<and> c \<in> set (db_capabilities d) \<and> cap_kind c = kind \<and> act \<in> set (cap_actions c)))
    \<and> pr_tenantId (in_principal i) = sc_tenantId (in_scope i)
    \<and> sc_siteId (in_scope i) \<in> set (pr_siteIds (in_principal i))
    \<and> principalCanWriteAction (in_principal i) (act_type a)
    \<and> act_type a \<noteq> EngineStop
    \<and> (act_type a = EngineStart \<longrightarrow> \<not> disallowEngineStart (with_defaults gi))
    \<and> (\<forall>v. act_type a = ThermostatSetTarget \<and> act_value a = Some (NumValue v) \<longrightarrow>
         \<not> jless v (thermostatMinC (with_defaults gi)) \<and> \<not> jless (thermostatMaxC (with_defaults gi)) v)"
proof -
  let ?g = "with_defaults gi"
  have ok: "request_admitted ?g i (length as) ds" "action_permitted ?g i ds pending a"
    using assms evaluatePolicy_allowed [of i as ds pending gi] evaluatePolicy_marks [of i as ds pending gi]
    by (auto simp: in_set_conv_nth)
  then obtain d where f: "find (\<lambda>d. db_deviceId d = act_deviceId a) ds = Some d" and p: "device_permits ?g i a d"
    by (auto simp: action_permitted_def known_and_permitted_def split: option.splits)
  from p have "validateActionCapability a d = None" by (simp add: device_permits_def)
  then obtain kind act c where "requiredCapability (act_type a) = Some (kind, act)"
    "c \<in> set (db_capabilities d)" "cap_kind c = kind" "act \<in> set (cap_actions c)"
    by (rule validateActionCapability_None)
  then show ?thesis
    using find_SomeD [OF f] ok(1) p
    by (auto simp: device_permits_def request_admitted_def principalCanAccessScope_def sameScope_def
        device_scope_def outside_thermostat_def split: if_splits)
qed

text \<open>
  With non-empty adapter ids, a list of bindings is valid exactly when no device id is bound to
  two different adapters.
\<close>

lemma bindings_valid_iff_adapters_agree:
  assumes "list_all (\<lambda>d. db_adapterId d \<noteq> []) ds"
  shows "fst (validateDeviceBindings ds) \<longleftrightarrow>
    (\<forall>d \<in> set ds. \<forall>e \<in> set ds. db_deviceId d = db_deviceId e \<longrightarrow> db_adapterId d = db_adapterId e)"
  using binding_errors [OF assms]
  by (simp add: validateDeviceBindings_def Let_def adapters_agree_def list_all_iff)

subsection \<open>The predicted state of a plan\<close>

definition deltas_for :: "jstr \<Rightarrow> action list \<Rightarrow> (jstr \<times> state_value) list" where
  "deltas_for dev as = concat (map act_delta (filter (\<lambda>a. act_deviceId a = dev) as))"

lemma deltas_for_snoc:
  "deltas_for dev (as @ [a]) = deltas_for dev as @ (if act_deviceId a = dev then act_delta a else [])"
  by (simp add: deltas_for_def)

lemma predicted_delta_snoc: "predicted_delta (as @ [a]) = merge_delta (predicted_delta as) a"
  by (simp add: predicted_delta_def)

lemma predicted_delta_get:
  assumes "js ''__proto__'' \<notin> act_deviceId ` set as"
  shows "case obj_get (predicted_delta as) dev of
      None \<Rightarrow> dev \<notin> act_deviceId ` set as
    | Some d \<Rightarrow> dev \<in> act_deviceId ` set as \<and> (\<forall>k. obj_get d k = map_of (rev (deltas_for dev as)) k)"
  using assms
proof (induction as rule: rev_induct)
  case Nil
  then show ?case by (simp add: predicted_delta_def store_simps)
next
  case (snoc a as)
  then have IH: "case obj_get (predicted_delta as) dev of
      None \<Rightarrow> dev \<notin> act_deviceId ` set as
    | Some d \<Rightarrow> dev \<in> act_deviceId ` set as \<and> (\<forall>k. obj_get d k = map_of (rev (deltas_for dev as)) k)"
    by simp
  have none: "dev \<notin> act_deviceId ` set as \<Longrightarrow> deltas_for dev as = []"
    by (induction as) (auto simp: deltas_for_def)
  have ne: "act_deviceId a \<noteq> js ''__proto__''" using snoc.prems by auto
  show ?case
    using IH none ne
    by (auto simp: predicted_delta_snoc merge_delta_def store_simps deltas_for_snoc obj_get_spread
        map_add_def split: option.splits)
qed

lemma predicted_delta_wf:
  "distinct (map fst (predicted_delta as)) \<and> (\<forall>e \<in> set (predicted_delta as). distinct (map fst (snd e)))"
proof (induction as rule: rev_induct)
  case Nil
  then show ?case by (simp add: predicted_delta_def)
next
  case (snoc a as)
  let ?old = "case obj_get (predicted_delta as) (act_deviceId a) of Some d \<Rightarrow> d | None \<Rightarrow> []"
  have "distinct (map fst ?old)"
    using snoc by (auto simp: obj_get_def dest!: map_of_SomeD split: option.split)
  then have "distinct (map fst (obj_spread ?old (act_delta a)))" by (rule distinct_obj_spread)
  with snoc set_obj_put [of "predicted_delta as" "act_deviceId a" "obj_spread ?old (act_delta a)"]
  show ?case by (auto simp: predicted_delta_snoc merge_delta_def distinct_obj_put)
qed

lemma predicted_delta_entry:
  "obj_get (predicted_delta as) dev \<noteq> None \<longleftrightarrow> dev \<noteq> js ''__proto__'' \<and> dev \<in> act_deviceId ` set as"
proof (induction as rule: rev_induct)
  case Nil
  then show ?case by (simp add: predicted_delta_def store_simps)
next
  case (snoc a as)
  then show ?case by (auto simp: predicted_delta_snoc merge_delta_def store_simps)
qed

text \<open>
  C3.  The predicted state of a plan: a device other than \<open>__proto__\<close> has an entry exactly when some action
  targets it; a device of the id \<open>__proto__\<close> has none, even when it is targeted (no delta having an own
  property of that name); and when no action targets \<open>__proto__\<close>, each predicted value is the one written by
  the last action on that device that sets the key.
\<close>

theorem plan_prediction_last_write_wins:
  shows "(dev \<noteq> js ''__proto__'' \<longrightarrow>
        (obj_get (pl_delta (createActionPlan digest i as given uuid now)) dev \<noteq> None
          \<longleftrightarrow> dev \<in> act_deviceId ` set as))
    \<and> ((\<forall>a\<in>set as. obj_get (act_delta a) (js ''__proto__'') = None) \<longrightarrow>
        obj_get (pl_delta (createActionPlan digest i as given uuid now)) (js ''__proto__'') = None)
    \<and> (js ''__proto__'' \<notin> act_deviceId ` set as \<longrightarrow>
        (\<forall>d k. obj_get (pl_delta (createActionPlan digest i as given uuid now)) dev = Some d \<longrightarrow>
           obj_get d k = map_of (rev (concat (map act_delta (filter (\<lambda>a. act_deviceId a = dev) as)))) k))"
proof -
  have "pl_delta (createActionPlan digest i as given uuid now) = predicted_delta as"
    by (simp add: createActionPlan_def)
  moreover have "obj_get d k = map_of (rev (concat (map act_delta (filter (\<lambda>a. act_deviceId a = dev) as)))) k"
    if "js ''__proto__'' \<notin> act_deviceId ` set as" "obj_get (predicted_delta as) dev = Some d" for d k
    using predicted_delta_get [OF that(1), of dev] that(2) by (simp add: deltas_for_def)
  moreover have "obj_get (predicted_delta as) (js ''__proto__'') = None"
    using predicted_delta_entry [of as "js ''__proto__''"] by simp
  ultimately show ?thesis using predicted_delta_entry [of as dev] by simp
qed

definition predicted_snapshots :: "action_plan \<Rightarrow> jstr \<Rightarrow> snapshot list" where
  "predicted_snapshots p obsAt =
     map (\<lambda>(dev, delta). \<lparr>sn_scope = pl_scope p, sn_deviceId = dev, sn_values = delta, sn_observedAt = obsAt\<rparr>) (pl_delta p)"

lemma sameScope_refl [simp]: "sameScope sc sc"
  by (simp add: sameScope_def)

lemma find_predicted:
  assumes "distinct (map fst ob)" "(dev, delta) \<in> set ob"
  shows "find (\<lambda>s. sn_deviceId s = dev \<and> sameScope (sn_scope s) sc)
      (map (\<lambda>(dev, delta). \<lparr>sn_scope = sc, sn_deviceId = dev, sn_values = delta, sn_observedAt = obsAt\<rparr>) ob)
    = Some \<lparr>sn_scope = sc, sn_deviceId = dev, sn_values = delta, sn_observedAt = obsAt\<rparr>"
  using assms by (induction ob) (auto, force)

lemma strict_eq_refl_iff: "strict_eq v v \<longleftrightarrow> v \<noteq> SVNum NaN"
  by (cases v) (auto simp: strict_eq_def jeq_def)

lemma no_drift_iff:
  "\<not> rc_driftDetected (reconcilePlan p sns) \<longleftrightarrow>
     (\<forall>e \<in> set (pl_delta p). device_drifts (pl_scope p) sns e = [])"
  by (simp add: reconcilePlan_def Let_def)

lemma concat_if_Nil:
  "concat (map (\<lambda>(k, v). if \<not> P k v then [f k v] else []) xs) = [] \<longleftrightarrow> (\<forall>(k, v) \<in> set xs. P k v)"
  by (induction xs) (auto split: if_splits)

text \<open>
  A new plan reconciled with exactly the state it predicts reports no drift, unless it predicts
  a \<open>NaN\<close>, which never equals an observation.
\<close>

lemma reconcile_predicted_state:
  "\<not> rc_driftDetected (reconcilePlan (createActionPlan digest i as given uuid now)
       (predicted_snapshots (createActionPlan digest i as given uuid now) obsAt))
   \<longleftrightarrow> list_all (\<lambda>e. SVNum NaN \<notin> snd ` set (snd e)) (predicted_delta as)"
proof -
  let ?p = "createActionPlan digest i as given uuid now"
  have p: "pl_delta ?p = predicted_delta as" by (simp add: createActionPlan_def)
  have "device_drifts (pl_scope ?p) (predicted_snapshots ?p obsAt) e = [] \<longleftrightarrow> SVNum NaN \<notin> snd ` set (snd e)"
    if e: "e \<in> set (predicted_delta as)" for e
  proof -
    obtain dev delta where ed: "e = (dev, delta)" by (cases e)
    have d: "distinct (map fst delta)" and f: "distinct (map fst (predicted_delta as))"
      using predicted_delta_wf [of as] e ed by auto
    let ?s = "\<lparr>sn_scope = pl_scope ?p, sn_deviceId = dev, sn_values = delta, sn_observedAt = obsAt\<rparr>"
    have sn: "find (\<lambda>s. sn_deviceId s = dev \<and> sameScope (sn_scope s) (pl_scope ?p)) (predicted_snapshots ?p obsAt) = Some ?s"
      using find_predicted [OF f e [unfolded ed], of "pl_scope ?p" obsAt] by (simp add: predicted_snapshots_def p)
    have "read_observed (Some ?s) k = v" if "(k, v) \<in> set delta" for k v
      using d that by (simp add: read_observed_def obj_get_def)
    then have "strict_eq (read_observed (Some ?s) k) v \<longleftrightarrow> v \<noteq> SVNum NaN" if "(k, v) \<in> set delta" for k v
      using that by (simp add: strict_eq_refl_iff)
    then show ?thesis
      unfolding device_drifts_def ed prod.case sn Let_def concat_if_Nil by force
  qed
  then show ?thesis by (simp add: no_drift_iff p list_all_iff)
qed

subsection \<open>Concrete instances\<close>

definition demo_scope :: scope where
  "demo_scope = \<lparr>sc_tenantId = js ''t'', sc_siteId = js ''s'', sc_assetId = None\<rparr>"

definition demo_intent :: intent where
  "demo_intent =
     \<lparr>in_id = js ''i'', in_scope = demo_scope,
      in_principal = \<lparr>pr_id = js ''p'', pr_type = Human, pr_tenantId = js ''t'', pr_siteIds = [js ''s''],
        pr_permissions = [IntentCreate, ThermostatWrite]\<rparr>,
      in_kind = ManualUi, in_utterance = None, in_goal = js ''warm'', in_createdAt = [], in_source = FromUi\<rparr>"

definition demo_device :: device_binding where
  "demo_device =
     \<lparr>db_deviceId = js ''d'', db_tenantId = js ''t'', db_siteId = js ''s'', db_assetId = None, db_zoneId = None,
      db_adapterId = js ''a'', db_displayName = js ''Thermostat'',
      db_capabilities = [\<lparr>cap_kind = CapThermostat, cap_actions = [DoSetTarget], cap_minValue = None,
        cap_maxValue = None, cap_unit = None\<rparr>]\<rparr>"

definition demo_action :: action where
  "demo_action =
     \<lparr>act_type = ThermostatSetTarget, act_deviceId = js ''d'', act_value = Some (NumValue (Fin 21)),
      act_reason = js ''cold'', act_delta = [(js ''target'', SVNum (Fin 21))]\<rparr>"

definition no_guardrails :: guardrails_input where
  "no_guardrails =
     \<lparr>gi_thermostatMinC = None, gi_thermostatMaxC = None, gi_chargerMaxPowerKw = None,
      gi_maxActionsPerPlan = None, gi_disallowEngineStart = None\<rparr>"

theorem allowed_plan_is_safe_witness:
  "allowed (evaluatePolicy demo_intent [demo_action] [demo_device] [] no_guardrails)
   \<and> principalCanWriteAction (in_principal demo_intent) (act_type demo_action)
   \<and> act_type demo_action \<noteq> EngineStop"
proof -
  have a: "allowed (evaluatePolicy demo_intent [demo_action] [demo_device] [] no_guardrails)" by code_simp
  show ?thesis using a allowed_plan_is_safe [OF a, of demo_action] by simp
qed

lemma bindings_valid_iff_adapters_agree_example:
  "list_all (\<lambda>d. db_adapterId d \<noteq> []) [demo_device, demo_device\<lparr>db_adapterId := js ''b''\<rparr>]
   \<and> \<not> fst (validateDeviceBindings [demo_device, demo_device\<lparr>db_adapterId := js ''b''\<rparr>])"
proof -
  have h: "list_all (\<lambda>d. db_adapterId d \<noteq> []) [demo_device, demo_device\<lparr>db_adapterId := js ''b''\<rparr>]"
    by (simp add: demo_device_def)
  show ?thesis using h bindings_valid_iff_adapters_agree [OF h] by (simp add: demo_device_def)
qed

theorem plan_prediction_last_write_wins_witness:
  "\<exists>d. obj_get (pl_delta (createActionPlan (\<lambda>_ _ _ _. []) demo_intent
      [demo_action, demo_action\<lparr>act_delta := [(js ''target'', SVNum (Fin 22))]\<rparr>] None [] [])) (act_deviceId demo_action) = Some d
    \<and> obj_get d (js ''target'') = Some (SVNum (Fin 22))"
proof -
  let ?as = "[demo_action, demo_action\<lparr>act_delta := [(js ''target'', SVNum (Fin 22))]\<rparr>]"
  have h: "js ''__proto__'' \<notin> act_deviceId ` set ?as" and n: "act_deviceId demo_action \<noteq> js ''__proto__''"
    by (simp_all add: demo_action_def)
  have t: "act_deviceId demo_action \<in> act_deviceId ` set ?as" by simp
  note c = plan_prediction_last_write_wins [where digest = "\<lambda>_ _ _ _. []" and i = demo_intent and as = ?as
        and given = None and uuid = "[]" and now = "[]" and dev = "act_deviceId demo_action"]
  from c n t obtain d where d: "obj_get (pl_delta (createActionPlan (\<lambda>_ _ _ _. []) demo_intent ?as None [] []))
      (act_deviceId demo_action) = Some d" by auto
  with c h have "obj_get d (js ''target'')
      = map_of (rev (concat (map act_delta (filter (\<lambda>a. act_deviceId a = act_deviceId demo_action) ?as)))) (js ''target'')"
    by blast
  then show ?thesis using d by (simp add: demo_action_def)
qed

end
