(* ===== verification/JsDate.thy ===== *)
theory JsDate
  imports JsPrelude
begin

text \<open>
  JavaScript dates.  A time value is the integer number of milliseconds since 1970 (UTC); the
  calendar follows the ECMAScript definitions (\<open>DayFromYear\<close>, \<open>YearFromTime\<close>).  \<open>iso_string\<close> is
  \<open>Date.prototype.toISOString\<close> and \<open>parse_iso\<close> reads a calendar-valid UTC timestamp
  \<open>YYYY-MM-DDTHH:mm:ss[.f]Z\<close> with one to three fraction digits, \<open>parse_expanded\<close> the same with a
  signed six-digit year.  What \<open>Date.parse\<close> makes of any
  other text (local time, abbreviated forms, impossible calendar dates) depends on the host, so
  \<open>date_parse\<close> takes that part as the parameter \<open>host\<close>; \<open>None\<close> is \<open>NaN\<close>.

  The lemmas show that the calendar computation inverts, that printing a time and parsing the text
  gives the time back, and that a text whose first nineteen characters are those of a printed time
  is calendar-valid.
\<close>

subsection \<open>The calendar\<close>

definition day_from_year :: "int \<Rightarrow> int" where
  "day_from_year y = 365 * (y - 1970) + (y - 1969) div 4 - (y - 1901) div 100 + (y - 1601) div 400"

definition leap_year :: "int \<Rightarrow> bool" where
  "leap_year y \<longleftrightarrow> y mod 4 = 0 \<and> (y mod 100 \<noteq> 0 \<or> y mod 400 = 0)"

definition year_of_day :: "int \<Rightarrow> int" where
  "year_of_day n =
     (let y = n * 400 div 146097 + 1970
      in if n < day_from_year y then y - 1 else if day_from_year (y + 1) \<le> n then y + 1 else y)"

lemma div_mod_radix:
  assumes "0 \<le> b" "b < (k :: int)"
  shows "(a * k + b) div k = a" "(a * k + b) mod k = b"
  using assms by simp_all

lemma div_bounds: "0 < k \<Longrightarrow> k * (x div k) \<le> x \<and> x < k * (x div k) + (k :: int)"
  using mult_div_mod_eq [of k x] pos_mod_sign [of k x] pos_mod_bound [of k x] by linarith

lemma div_succ:
  assumes "0 < (k :: int)"
  shows "(x + 1) div k = x div k + (if (x + 1) mod k = 0 then 1 else 0)"
proof -
  have nn: "0 \<le> x mod k" using assms by simp
  have x: "x = x div k * k + x mod k" by simp
  show ?thesis
  proof (cases "x mod k + 1 < k")
    case True
    have e: "x + 1 = x div k * k + (x mod k + 1)" using x by linarith
    have "(x + 1) div k = x div k" "(x + 1) mod k = x mod k + 1"
      by (subst e, rule div_mod_radix; use True nn in linarith)+
    with nn show ?thesis by auto
  next
    case False
    then have r: "x mod k + 1 = k" using assms pos_mod_bound [of k x] by linarith
    have e: "x + 1 = (x div k + 1) * k + 0" unfolding distrib_right using x r by linarith
    have "(x + 1) div k = x div k + 1" "(x + 1) mod k = 0"
      by (subst e, rule div_mod_radix; use assms in linarith)+
    then show ?thesis by simp
  qed
qed

lemma day_from_year_Suc: "day_from_year (y + 1) = day_from_year y + (if leap_year y then 366 else 365)"
proof -
  have 4: "(y + 1 - 1969) div 4 = (y - 1969) div 4 + (if y mod 4 = 0 then 1 else 0)"
    using div_succ [of 4 "y - 1969"] mod_diff_eq [of y 4 1968] by simp
  have 100: "(y + 1 - 1901) div 100 = (y - 1901) div 100 + (if y mod 100 = 0 then 1 else 0)"
    using div_succ [of 100 "y - 1901"] mod_diff_eq [of y 100 1900] by simp
  have 400: "(y + 1 - 1601) div 400 = (y - 1601) div 400 + (if y mod 400 = 0 then 1 else 0)"
    using div_succ [of 400 "y - 1601"] mod_diff_eq [of y 400 1600] by simp
  have "y mod 400 mod 100 = y mod 100" "y mod 100 mod 4 = y mod 4"
    by (rule mod_mod_cancel; simp)+
  then have m: "y mod 400 = 0 \<Longrightarrow> y mod 100 = 0" "y mod 100 = 0 \<Longrightarrow> y mod 4 = 0" by auto
  show ?thesis
    unfolding day_from_year_def leap_year_def 4 100 400
    using m by (cases "y mod 4 = 0"; cases "y mod 100 = 0"; cases "y mod 400 = 0"; simp)
qed

lemma day_from_year_bounds:
  "146097 * (y - 1970) - 400 * 2 \<le> 400 * day_from_year y"
  "400 * day_from_year y \<le> 146097 * (y - 1970) + 400 * 2"
proof -
  have "400 * (365 * u + a - b + c) \<ge> 146097 * u - 800 \<and> 400 * (365 * u + a - b + c) \<le> 146097 * u + 800"
    if "4 * a \<le> u + 1" "u + 1 < 4 * a + 4" "100 * b \<le> u + 69" "u + 69 < 100 * b + 100"
      "400 * c \<le> u + 369" "u + 369 < 400 * c + 400" for u a b c :: int
  proof -
    have "100 * u - 300 \<le> 400 * a" "400 * b \<le> 4 * u + 300" "u - 40 \<le> 400 * c"
      "400 * a \<le> 100 * u + 100" "4 * u - 124 \<le> 400 * b" "400 * c \<le> u + 369" using that by linarith+
    then show ?thesis by (simp add: algebra_simps)
  qed
  from this [of "(y - 1969) div 4" "y - 1970" "(y - 1901) div 100" "(y - 1601) div 400"]
  have "146097 * (y - 1970) - 800 \<le> 400 * day_from_year y \<and> 400 * day_from_year y \<le> 146097 * (y - 1970) + 800"
    using div_bounds [of 4 "y - 1969"] div_bounds [of 100 "y - 1901"] div_bounds [of 400 "y - 1601"]
    by (simp add: day_from_year_def)
  then show "146097 * (y - 1970) - 400 * 2 \<le> 400 * day_from_year y"
    "400 * day_from_year y \<le> 146097 * (y - 1970) + 400 * 2" by simp_all
qed

lemma year_of_day_bounds:
  "day_from_year (year_of_day n) \<le> n" "n < day_from_year (year_of_day n + 1)"
proof -
  define z where "z = n * 400 div 146097 + 1970"
  have q: "146097 * (z - 1970) \<le> n * 400" "n * 400 < 146097 * (z - 1970) + 146097"
    using div_bounds [of 146097 "n * 400"] by (simp_all add: z_def)
  have lo: "day_from_year (z - 1) \<le> n"
    using day_from_year_bounds(2) [of "z - 1"] q by simp
  have hi: "n < day_from_year (z + 1 + 1)"
    using day_from_year_bounds(1) [of "z + 1 + 1"] q by simp
  have e: "year_of_day n =
      (if n < day_from_year z then z - 1 else if day_from_year (z + 1) \<le> n then z + 1 else z)"
    unfolding year_of_day_def z_def Let_def ..
  show "day_from_year (year_of_day n) \<le> n" unfolding e using lo by auto
  show "n < day_from_year (year_of_day n + 1)" unfolding e using hi by auto
qed

lemma day_from_year_strict: "y < z \<Longrightarrow> day_from_year (y + 1) \<le> day_from_year z"
proof (induction z rule: int_gr_induct)
  case base
  then show ?case by simp
next
  case (step z)
  then show ?case using day_from_year_Suc [of z] by auto
qed

lemma year_of_day_unique:
  "day_from_year y \<le> n \<Longrightarrow> n < day_from_year (y + 1) \<Longrightarrow> year_of_day n = y"
  using year_of_day_bounds [of n] day_from_year_strict [of y "year_of_day n"]
    day_from_year_strict [of "year_of_day n" y]
  by (cases y "year_of_day n" rule: linorder_cases) auto

definition month_length :: "bool \<Rightarrow> int \<Rightarrow> int" where
  "month_length leap m =
     (if m = 2 then (if leap then 29 else 28)
      else if m = 4 \<or> m = 6 \<or> m = 9 \<or> m = 11 then 30 else 31)"

text \<open>The day of the year (from 0) on which a month starts, and the month of a day of the year.\<close>

definition month_start :: "bool \<Rightarrow> int \<Rightarrow> int" where
  "month_start leap m =
     (if m = 1 then 0 else if m = 2 then 31
      else (if leap then 1 else 0) +
        (if m = 3 then 59 else if m = 4 then 90 else if m = 5 then 120 else if m = 6 then 151
         else if m = 7 then 181 else if m = 8 then 212 else if m = 9 then 243
         else if m = 10 then 273 else if m = 11 then 304 else 334))"

definition month_of :: "bool \<Rightarrow> int \<Rightarrow> int" where
  "month_of leap d =
     (if d < 31 then 1 else
      let e = d - (if leap then 1 else 0)
      in if e < 59 then 2 else if e < 90 then 3 else if e < 120 then 4 else if e < 151 then 5
         else if e < 181 then 6 else if e < 212 then 7 else if e < 243 then 8
         else if e < 273 then 9 else if e < 304 then 10 else if e < 334 then 11 else 12)"

definition days_in_month :: "int \<Rightarrow> int \<Rightarrow> int" where
  "days_in_month y m = month_length (leap_year y) m"

lemma month_cases:
  assumes "1 \<le> (m :: int)" "m \<le> 12"
  shows "m = 1 \<or> m = 2 \<or> m = 3 \<or> m = 4 \<or> m = 5 \<or> m = 6 \<or> m = 7 \<or> m = 8 \<or> m = 9 \<or> m = 10 \<or> m = 11 \<or> m = 12"
  using assms by presburger

lemma month_of_start:
  assumes "1 \<le> m" "m \<le> 12" "0 \<le> d" "d < month_length leap m"
  shows "month_of leap (month_start leap m + d) = m
    \<and> month_start leap m + d < (if leap then 366 else 365) \<and> 0 \<le> month_start leap m"
  using month_cases [OF assms(1,2)] assms(3,4)
  by (cases leap; elim disjE) (simp_all add: month_of_def month_start_def month_length_def Let_def)

lemma month_of_bounds:
  assumes "0 \<le> d" "d < (if leap then 366 else 365)"
  shows "1 \<le> month_of leap d \<and> month_of leap d \<le> 12
    \<and> month_start leap (month_of leap d) \<le> d
    \<and> d < month_start leap (month_of leap d) + month_length leap (month_of leap d)"
  using assms
  by (cases leap) (simp_all add: month_of_def month_start_def month_length_def Let_def)

subsection \<open>Calendar fields of a time value\<close>

record date_fields =
  df_year :: int
  df_month :: int
  df_day :: int
  df_hour :: int
  df_minute :: int
  df_second :: int
  df_ms :: int

definition valid_fields :: "date_fields \<Rightarrow> bool" where
  "valid_fields f \<longleftrightarrow> 1 \<le> df_month f \<and> df_month f \<le> 12
     \<and> 1 \<le> df_day f \<and> df_day f \<le> days_in_month (df_year f) (df_month f)
     \<and> 0 \<le> df_hour f \<and> df_hour f < 24 \<and> 0 \<le> df_minute f \<and> df_minute f < 60
     \<and> 0 \<le> df_second f \<and> df_second f < 60 \<and> 0 \<le> df_ms f \<and> df_ms f < 1000"

definition make_time :: "date_fields \<Rightarrow> int" where
  "make_time f =
     (day_from_year (df_year f) + month_start (leap_year (df_year f)) (df_month f) + df_day f - 1) * 86400000
     + df_hour f * 3600000 + df_minute f * 60000 + df_second f * 1000 + df_ms f"

definition fields_of :: "int \<Rightarrow> date_fields" where
  "fields_of t =
     (let n = t div 86400000; r = t mod 86400000; y = year_of_day n; d = n - day_from_year y;
          m = month_of (leap_year y) d
      in \<lparr>df_year = y, df_month = m, df_day = d - month_start (leap_year y) m + 1,
          df_hour = r div 3600000, df_minute = r div 60000 mod 60,
          df_second = r div 1000 mod 60, df_ms = r mod 1000\<rparr>)"

lemma valid_fields_of: "valid_fields (fields_of t)"
proof -
  let ?n = "t div 86400000" let ?y = "year_of_day (t div 86400000)" let ?r = "t mod 86400000"
  let ?d = "?n - day_from_year ?y"
  have d: "0 \<le> ?d" "?d < (if leap_year ?y then 366 else 365)"
    using year_of_day_bounds [of ?n] day_from_year_Suc [of ?y] by (auto split: if_splits)
  have "0 \<le> ?r" "?r < 86400000" by simp_all
  then have "0 \<le> ?r div 3600000" "?r div 3600000 < 24"
    using div_bounds [of 3600000 ?r] by linarith+
  then show ?thesis
    using month_of_bounds [OF d] by (auto simp: valid_fields_def fields_of_def Let_def days_in_month_def)
qed

lemma radix_split: "(x :: int) = x div 3600000 * 3600000 + x div 60000 mod 60 * 60000 + x div 1000 mod 60 * 1000 + x mod 1000"
proof -
  have "x div 60000 = x div 1000 div 60" "x div 3600000 = x div 60000 div 60"
    by (simp_all flip: zdiv_zmult2_eq)
  then show ?thesis
    using mult_div_mod_eq [of 1000 x] mult_div_mod_eq [of 60 "x div 1000"] mult_div_mod_eq [of 60 "x div 60000"]
    by linarith
qed

lemma make_time_fields_of [simp]: "make_time (fields_of t) = t"
proof -
  have "t = t div 86400000 * 86400000 + t mod 86400000" by simp
  with radix_split [of "t mod 86400000"] have "t = t div 86400000 * 86400000
      + (t mod 86400000 div 3600000 * 3600000 + t mod 86400000 div 60000 mod 60 * 60000
         + t mod 86400000 div 1000 mod 60 * 1000 + t mod 86400000 mod 1000)" by linarith
  moreover have "a + s + (n - a - s + 1) - 1 = n" for a s n :: int by simp
  ultimately show ?thesis
    by (simp only: make_time_def fields_of_def Let_def date_fields.simps add.assoc)
qed

lemma radix_join:
  assumes "0 \<le> h" "h < 24" "0 \<le> m" "m < 60" "0 \<le> s" "s < 60" "0 \<le> u" "u < (1000 :: int)"
  defines "r \<equiv> h * 3600000 + m * 60000 + s * 1000 + u"
  shows "r div 3600000 = h \<and> r div 60000 mod 60 = m \<and> r div 1000 mod 60 = s \<and> r mod 1000 = u
    \<and> 0 \<le> r \<and> r < 86400000"
proof -
  have 1: "r = h * 3600000 + (m * 60000 + s * 1000 + u)"
    and 2: "r = (h * 60 + m) * 60000 + (s * 1000 + u)"
    and 3: "r = ((h * 60 + m) * 60 + s) * 1000 + u" by (simp_all add: r_def)
  have "r div 3600000 = h" unfolding 1 by (rule div_mod_radix) (use assms in linarith)+
  moreover have "r div 60000 = h * 60 + m" unfolding 2 by (rule div_mod_radix) (use assms in linarith)+
  moreover have "r div 1000 = (h * 60 + m) * 60 + s" "r mod 1000 = u"
    unfolding 3 by (rule div_mod_radix; use assms in linarith)+
  moreover have "(h * 60 + m) mod 60 = m" "((h * 60 + m) * 60 + s) mod 60 = s"
    by (rule div_mod_radix; use assms in linarith)+
  moreover have "0 \<le> r" "r < 86400000" unfolding r_def using assms by linarith+
  ultimately show ?thesis by metis
qed

lemma fields_of_make_time:
  assumes v: "valid_fields f"
  shows "fields_of (make_time f) = f"
proof -
  let ?y = "df_year f" and ?m = "df_month f" and ?d = "df_day f - 1"
  let ?n = "day_from_year ?y + month_start (leap_year ?y) ?m + ?d"
  let ?r = "df_hour f * 3600000 + df_minute f * 60000 + df_second f * 1000 + df_ms f"
  have hms: "?r div 3600000 = df_hour f" "?r div 60000 mod 60 = df_minute f"
      "?r div 1000 mod 60 = df_second f" "?r mod 1000 = df_ms f" "0 \<le> ?r" "?r < 86400000"
    using v radix_join [of "df_hour f" "df_minute f" "df_second f" "df_ms f"]
    unfolding valid_fields_def by blast+
  have t: "make_time f = ?n * 86400000 + ?r" unfolding make_time_def by (simp only: algebra_simps)
  have n: "make_time f div 86400000 = ?n" "make_time f mod 86400000 = ?r"
    unfolding t using div_mod_radix [OF hms(5,6)] by blast+
  have md: "1 \<le> ?m" "?m \<le> 12" "0 \<le> ?d" "?d < month_length (leap_year ?y) ?m"
    using v by (auto simp: valid_fields_def days_in_month_def)
  note mo = month_of_start [OF md]
  have y: "year_of_day ?n = ?y"
  proof (rule year_of_day_unique)
    show "day_from_year ?y \<le> ?n" using md mo by linarith
    show "?n < day_from_year (?y + 1)" using mo day_from_year_Suc [of ?y] by (auto split: if_splits)
  qed
  have d: "?n - day_from_year ?y = month_start (leap_year ?y) ?m + ?d" by simp
  show ?thesis
    unfolding fields_of_def Let_def n y d using mo hms(1-4) by simp
qed

subsection \<open>ISO 8601 text\<close>

definition digit_at :: "int \<Rightarrow> int \<Rightarrow> nat" where
  "digit_at n p = digit_char (nat (n div p mod 10))"

definition pad2 :: "int \<Rightarrow> jstr" where
  "pad2 n = [digit_at n 10, digit_at n 1]"

definition pad3 :: "int \<Rightarrow> jstr" where
  "pad3 n = digit_at n 100 # pad2 n"

definition pad4 :: "int \<Rightarrow> jstr" where
  "pad4 n = digit_at n 1000 # pad3 n"

definition pad6 :: "int \<Rightarrow> jstr" where
  "pad6 n = digit_at n 100000 # digit_at n 10000 # pad4 n"

text \<open>Years outside 0 to 9999 print with a sign and six digits.\<close>

definition year_str :: "int \<Rightarrow> jstr" where
  "year_str y = (if 0 \<le> y \<and> y \<le> 9999 then pad4 y else (if y < 0 then 45 else 43) # pad6 \<bar>y\<bar>)"

definition iso_string :: "int \<Rightarrow> jstr" where
  "iso_string t =
     (let f = fields_of t
      in year_str (df_year f) @ [45] @ pad2 (df_month f) @ [45] @ pad2 (df_day f) @ [84]
         @ pad2 (df_hour f) @ [58] @ pad2 (df_minute f) @ [58] @ pad2 (df_second f)
         @ [46] @ pad3 (df_ms f) @ [90])"

text \<open>\<open>new Date(t).toISOString()\<close> throws outside the time value range (\<open>NaN\<close> included).\<close>

definition time_in_range :: "int \<Rightarrow> bool" where
  "time_in_range t \<longleftrightarrow> \<bar>t\<bar> \<le> 8640000000000000"

definition to_iso :: "int option \<Rightarrow> jstr result" where
  "to_iso t = (case t of Some v \<Rightarrow> if time_in_range v then Inr (iso_string v) else Inl RangeError
               | None \<Rightarrow> Inl RangeError)"

text \<open>
  The expression \<open>/^\d{4}-\d{2}-\d{2}T\d{2}:\d{2}:\d{2}(?:\.\d{1,3})?Z$/\<close>: \<open>d\<close> in the template stands
  for a digit, every other character for itself.
\<close>

definition iso_template :: jstr where
  "iso_template = js ''dddd-dd-ddTdd:dd:dd''"

definition template_match :: "nat \<Rightarrow> nat \<Rightarrow> bool" where
  "template_match p c = (if p = 100 then is_digit c else c = p)"

definition iso_fraction :: "jstr \<Rightarrow> bool" where
  "iso_fraction s \<longleftrightarrow> s = [90]
     \<or> (3 \<le> length s \<and> length s \<le> 5 \<and> hd s = 46 \<and> last s = 90 \<and> list_all is_digit (butlast (tl s)))"

definition iso_shape :: "jstr \<Rightarrow> bool" where
  "iso_shape s \<longleftrightarrow> list_all2 template_match iso_template (take 19 s) \<and> iso_fraction (drop 19 s)"

definition field_at :: "jstr \<Rightarrow> nat \<Rightarrow> nat \<Rightarrow> int" where
  "field_at s i n = digits_val (take n (drop i s))"

definition fraction_ms :: "jstr \<Rightarrow> int" where
  "fraction_ms s = (if s = [90] then 0 else digits_val (take 3 (butlast (tl s) @ [48, 48])))"

definition iso_fields :: "jstr \<Rightarrow> date_fields" where
  "iso_fields s =
     \<lparr>df_year = field_at s 0 4, df_month = field_at s 5 2, df_day = field_at s 8 2,
      df_hour = field_at s 11 2, df_minute = field_at s 14 2, df_second = field_at s 17 2,
      df_ms = fraction_ms (drop 19 s)\<rparr>"

definition parse_iso :: "jstr \<Rightarrow> int option" where
  "parse_iso s =
     (if iso_shape s \<and> valid_fields (iso_fields s) then Some (make_time (iso_fields s)) else None)"

text \<open>
  The expanded form prints years outside 0 to 9999 with a sign and six digits; \<open>expanded_core\<close>
  puts a four-digit year in their place.
\<close>

definition expanded_core :: "jstr \<Rightarrow> jstr" where
  "expanded_core s = pad4 0 @ drop 7 s"

definition expanded_year :: "jstr \<Rightarrow> int" where
  "expanded_year s = (if hd s = 45 then - digits_val (take 6 (tl s)) else digits_val (take 6 (tl s)))"

definition expanded_shape :: "jstr \<Rightarrow> bool" where
  "expanded_shape s \<longleftrightarrow> 7 \<le> length s \<and> (hd s = 43 \<or> hd s = 45) \<and> list_all is_digit (take 6 (tl s))
     \<and> \<not> (hd s = 45 \<and> expanded_year s = 0) \<and> iso_shape (expanded_core s)"

definition parse_expanded :: "jstr \<Rightarrow> int option" where
  "parse_expanded s =
     (let f = (iso_fields (expanded_core s))\<lparr>df_year := expanded_year s\<rparr>
      in if expanded_shape s \<and> valid_fields f \<and> time_in_range (make_time f) then Some (make_time f) else None)"

definition date_parse :: "(jstr \<Rightarrow> int option) \<Rightarrow> jstr \<Rightarrow> int option" where
  "date_parse host s =
     (case parse_iso s of Some t \<Rightarrow> Some t
      | None \<Rightarrow> (case parse_expanded s of Some t \<Rightarrow> Some t | None \<Rightarrow> host s))"

lemma is_digit_digit_at [simp]: "is_digit (digit_at n p)"
proof -
  have "n div p mod 10 < 10" by simp
  then have "nat (n div p mod 10) < 10" by linarith
  then show ?thesis by (simp add: is_digit_def digit_at_def digit_char_def)
qed

lemma digit_at_val: "int (digit_at n p) - 48 = n div p mod 10"
  by (simp add: digit_at_def digit_char_def)

lemma div_10_step: "10 * (n div (p * 10)) + n div p mod 10 = n div (p :: int)"
proof -
  have "n div (p * 10) = n div p div 10" by (rule zdiv_zmult2_eq) simp
  then show ?thesis by simp
qed

lemma div_mod_small:
  assumes "0 \<le> n" "n < 10 * p" "0 < (p :: int)"
  shows "n div p mod 10 = n div p"
proof (rule mod_pos_pos_trivial)
  show "0 \<le> n div p" using assms by (simp add: pos_imp_zdiv_nonneg_iff)
  show "n div p < 10"
  proof (rule ccontr)
    assume "\<not> n div p < 10"
    then have "p * 10 \<le> p * (n div p)" using assms(3) by (intro mult_left_mono) auto
    with div_bounds [OF assms(3), of n] assms(2) show False by linarith
  qed
qed

lemma digits_val_pad2: "0 \<le> n \<Longrightarrow> n < 100 \<Longrightarrow> digits_val (pad2 n) = n"
  using div_10_step [of n 1] div_mod_small [of n 10]
  by (simp add: digits_val_def pad2_def digit_at_val)

lemma digits_val_pad3: "0 \<le> n \<Longrightarrow> n < 1000 \<Longrightarrow> digits_val (pad3 n) = n"
  using div_10_step [of n 1] div_10_step [of n 10] div_mod_small [of n 100]
  by (simp add: digits_val_def pad2_def pad3_def digit_at_val)

lemma digits_val_pad4: "0 \<le> n \<Longrightarrow> n < 10000 \<Longrightarrow> digits_val (pad4 n) = n"
  using div_10_step [of n 1] div_10_step [of n 10] div_10_step [of n 100] div_mod_small [of n 1000]
  by (simp add: digits_val_def pad2_def pad3_def pad4_def digit_at_val)

lemma length_year_str: "0 \<le> y \<Longrightarrow> y \<le> 9999 \<Longrightarrow> year_str y = pad4 y"
  by (simp add: year_str_def)

lemma length_pads [simp]: "length (pad2 n) = 2" "length (pad3 n) = 3" "length (pad4 n) = 4"
  by (simp_all add: pad2_def pad3_def pad4_def)

definition common_year :: "int \<Rightarrow> bool" where
  "common_year t \<longleftrightarrow> 0 \<le> df_year (fields_of t) \<and> df_year (fields_of t) \<le> 9999"

lemma iso_string_take:
  assumes "common_year t"
  shows "take 19 (iso_string t) = (let f = fields_of t in pad4 (df_year f) @ [45] @ pad2 (df_month f) @ [45]
      @ pad2 (df_day f) @ [84] @ pad2 (df_hour f) @ [58] @ pad2 (df_minute f) @ [58] @ pad2 (df_second f))"
    and "drop 19 (iso_string t) = [46] @ pad3 (df_ms (fields_of t)) @ [90]"
  using assms by (simp_all add: iso_string_def Let_def common_year_def year_str_def pad2_def pad3_def pad4_def)

lemma iso_template_code: "iso_template = [100,100,100,100,45,100,100,45,100,100,84,100,100,58,100,100,58,100,100]"
  by (simp add: iso_template_def js_def)

lemma iso_string_shape:
  assumes "common_year t"
  shows "iso_shape (iso_string t)"
  unfolding iso_shape_def iso_string_take [OF assms]
  by (simp add: iso_template_code Let_def pad2_def pad3_def pad4_def template_match_def iso_fraction_def)

lemma field_at_take: "i + n \<le> 19 \<Longrightarrow> field_at s i n = field_at (take 19 s) i n"
  by (simp add: field_at_def drop_take min_def)

lemma field_bounds:
  assumes "valid_fields f"
  shows "0 \<le> df_month f" "df_month f < 100" "0 \<le> df_day f" "df_day f < 100" "0 \<le> df_hour f" "df_hour f < 100"
    "0 \<le> df_minute f" "df_minute f < 100" "0 \<le> df_second f" "df_second f < 100" "0 \<le> df_ms f" "df_ms f < 1000"
  using assms by (auto simp: valid_fields_def days_in_month_def month_length_def split: if_splits)

text \<open>The fields read from the first nineteen characters of a printed time are the time's own.\<close>

lemma iso_fields_of_take:
  assumes c: "common_year t" and e: "take 19 s = take 19 (iso_string t)"
  shows "df_year (iso_fields s) = df_year (fields_of t)" "df_month (iso_fields s) = df_month (fields_of t)"
    "df_day (iso_fields s) = df_day (fields_of t)" "df_hour (iso_fields s) = df_hour (fields_of t)"
    "df_minute (iso_fields s) = df_minute (fields_of t)" "df_second (iso_fields s) = df_second (fields_of t)"
proof -
  let ?f = "fields_of t"
  note b = field_bounds [OF valid_fields_of, of t]
  have p4: "field_at (pad4 a @ r) 0 4 = digits_val (pad4 a)" for a r by (simp add: field_at_def)
  have y: "digits_val (pad4 (df_year ?f)) = df_year ?f" using c by (intro digits_val_pad4) (auto simp: common_year_def)
  note s = e [unfolded iso_string_take(1) [OF c] Let_def]
  have g: "field_at s i n = field_at (pad4 (df_year ?f) @ [45] @ pad2 (df_month ?f) @ [45]
      @ pad2 (df_day ?f) @ [84] @ pad2 (df_hour ?f) @ [58] @ pad2 (df_minute ?f) @ [58] @ pad2 (df_second ?f)) i n"
    if "i + n \<le> 19" for i n using field_at_take [OF that, of s] s by simp
  show "df_year (iso_fields s) = df_year ?f" using y p4 by (simp add: iso_fields_def g)
  show "df_month (iso_fields s) = df_month ?f" "df_day (iso_fields s) = df_day ?f"
    "df_hour (iso_fields s) = df_hour ?f" "df_minute (iso_fields s) = df_minute ?f"
    "df_second (iso_fields s) = df_second ?f"
    using b by (simp_all add: iso_fields_def g) (simp_all add: field_at_def digits_val_pad2)
qed

lemma digits_val_nonneg: "list_all is_digit s \<Longrightarrow> 0 \<le> digits_val s"
  by (induction s rule: rev_induct) (auto simp: digits_val_snoc is_digit_def)

lemma digits_val_less: "list_all is_digit s \<Longrightarrow> digits_val s < 10 ^ length s"
  by (induction s rule: rev_induct) (auto simp: digits_val_snoc is_digit_def)

lemma fraction_ms_bounds:
  assumes "iso_fraction s"
  shows "0 \<le> fraction_ms s \<and> fraction_ms s < 1000"
proof (cases "s = [90]")
  case True
  then show ?thesis by (simp add: fraction_ms_def)
next
  case False
  let ?d = "take 3 (butlast (tl s) @ [48, 48])"
  have d: "list_all is_digit ?d"
  proof -
    have "list_all is_digit (butlast (tl s) @ [48, 48])"
      using assms False by (simp add: iso_fraction_def is_digit_def)
    then show ?thesis by (auto simp: list_all_iff dest: in_set_takeD)
  qed
  have "length ?d = 3" using assms False by (auto simp: iso_fraction_def)
  with digits_val_less [OF d] have "digits_val ?d < 1000" by (simp only: power3_eq_cube)
  with digits_val_nonneg [OF d] False show ?thesis
    unfolding fraction_ms_def by presburger
qed

text \<open>Printing and parsing agree.\<close>

lemma parse_iso_string:
  assumes c: "common_year t"
  shows "parse_iso (iso_string t) = Some t"
proof -
  note f = iso_fields_of_take [OF c refl]
  have "fraction_ms (drop 19 (iso_string t)) = digits_val (pad3 (df_ms (fields_of t)))"
    by (simp add: iso_string_take(2) [OF c] fraction_ms_def butlast_append pad3_def pad2_def)
  also have "\<dots> = df_ms (fields_of t)"
    using field_bounds [OF valid_fields_of, of t] by (intro digits_val_pad3)
  finally have "df_ms (iso_fields (iso_string t)) = df_ms (fields_of t)" by (simp add: iso_fields_def)
  with f have "iso_fields (iso_string t) = fields_of t" by simp
  then show ?thesis by (simp add: parse_iso_def iso_string_shape [OF c] valid_fields_of)
qed

text \<open>A text of the right shape that agrees with a printed time up to the seconds is calendar-valid.\<close>

lemma parse_iso_of_take:
  assumes sh: "iso_shape s" and c: "common_year t" and e: "take 19 s = take 19 (iso_string t)"
  shows "parse_iso s = Some (t - df_ms (fields_of t) + fraction_ms (drop 19 s))"
proof -
  note f = iso_fields_of_take [OF c e]
  have ms: "df_ms (iso_fields s) = fraction_ms (drop 19 s)" by (simp add: iso_fields_def)
  have "valid_fields (iso_fields s)"
    using valid_fields_of [of t] fraction_ms_bounds [of "drop 19 s"] sh
    by (simp add: valid_fields_def f ms iso_shape_def)
  moreover have "make_time (iso_fields s) = make_time (fields_of t) - df_ms (fields_of t) + fraction_ms (drop 19 s)"
    unfolding make_time_def f ms by simp
  ultimately show ?thesis by (simp add: parse_iso_def sh)
qed

lemma parse_iso_common_year:
  assumes "parse_iso s = Some t"
  shows "common_year t" and "iso_shape s" and "fields_of t = iso_fields s"
proof -
  have sh: "iso_shape s" and v: "valid_fields (iso_fields s)" and t: "t = make_time (iso_fields s)"
    using assms by (auto simp: parse_iso_def split: if_splits)
  show "iso_shape s" by (rule sh)
  show f: "fields_of t = iso_fields s" using fields_of_make_time [OF v] t by simp
  let ?y = "take 4 s"
  have l: "19 \<le> length s"
    using sh by (auto simp: iso_shape_def iso_template_code dest!: list_all2_lengthD)
  have "list_all2 template_match (take 4 iso_template) (take 4 (take 19 s))"
    using sh by (intro list_all2_takeI) (simp add: iso_shape_def)
  then have "list_all is_digit ?y"
    using l by (auto simp: iso_template_code list_all2_Cons1 template_match_def min_def)
  moreover have "length ?y = 4" using l by simp
  ultimately have "0 \<le> digits_val ?y \<and> digits_val ?y < 10 ^ 4"
    using digits_val_nonneg digits_val_less by metis
  then show "common_year t" by (simp add: common_year_def f iso_fields_def field_at_def)
qed

text \<open>The same for the expanded years.\<close>

lemma digits_val_pad6: "0 \<le> n \<Longrightarrow> n < 1000000 \<Longrightarrow> digits_val (pad6 n) = n"
  using div_10_step [of n 1] div_10_step [of n 10] div_10_step [of n 100] div_10_step [of n 1000]
    div_10_step [of n 10000] div_mod_small [of n 100000]
  by (simp add: digits_val_def pad2_def pad3_def pad4_def pad6_def digit_at_val)

lemma time_in_range_year:
  assumes "time_in_range t"
  shows "\<bar>df_year (fields_of t)\<bar> < 1000000"
proof -
  let ?n = "t div 86400000" let ?y = "year_of_day (t div 86400000)"
  have "- 100000001 < ?n \<and> ?n < 100000001"
    using assms div_bounds [of 86400000 t] by (simp add: time_in_range_def) linarith
  with year_of_day_bounds [of ?n] day_from_year_bounds(1) [of ?y] day_from_year_bounds(2) [of "?y + 1"]
  have "146097 * (?y - 1970) \<le> 40000001200" "- 40000001200 \<le> 146097 * (?y + 1 - 1970)" by linarith+
  then have "?y < 1000000" "- 1000000 < ?y" by simp_all
  then have "\<bar>?y\<bar> < 1000000" by simp
  then show ?thesis by (simp add: fields_of_def Let_def)
qed

lemma expanded_core_iso_string:
  assumes "\<not> common_year t"
  shows "expanded_core (iso_string t) = (let f = fields_of t in pad4 0 @ [45] @ pad2 (df_month f) @ [45]
      @ pad2 (df_day f) @ [84] @ pad2 (df_hour f) @ [58] @ pad2 (df_minute f) @ [58] @ pad2 (df_second f)
      @ [46] @ pad3 (df_ms f) @ [90])"
  using assms
  by (simp add: expanded_core_def iso_string_def Let_def common_year_def year_str_def pad6_def pad4_def pad3_def pad2_def)

lemma expanded_core_shape: "\<not> common_year t \<Longrightarrow> iso_shape (expanded_core (iso_string t))"
  unfolding iso_shape_def expanded_core_iso_string
  by (simp add: iso_template_code Let_def pad2_def pad3_def pad4_def template_match_def iso_fraction_def)

lemma expanded_core_fields:
  assumes "\<not> common_year t"
  shows "(iso_fields (expanded_core (iso_string t)))\<lparr>df_year := df_year (fields_of t)\<rparr> = fields_of t"
proof -
  let ?f = "fields_of t"
  note b = field_bounds [OF valid_fields_of, of t]
  have ms: "fraction_ms (drop 19 (expanded_core (iso_string t))) = df_ms ?f"
    using digits_val_pad3 [of "df_ms ?f"] b
    by (simp add: expanded_core_iso_string [OF assms] Let_def pad4_def fraction_ms_def butlast_append pad3_def pad2_def)
  show ?thesis
    using b ms
    by (simp add: iso_fields_def)
      (simp add: expanded_core_iso_string [OF assms] Let_def field_at_def digits_val_pad2 pad4_def)
qed

lemma expanded_year_iso_string:
  assumes "\<not> common_year t" "time_in_range t"
  shows "expanded_year (iso_string t) = df_year (fields_of t)"
proof -
  let ?y = "df_year (fields_of t)"
  have "digits_val (pad6 \<bar>?y\<bar>) = \<bar>?y\<bar>" using time_in_range_year [OF assms(2)] by (intro digits_val_pad6) auto
  with assms(1) show ?thesis
    by (auto simp: expanded_year_def iso_string_def Let_def year_str_def common_year_def pad6_def pad4_def
        pad3_def pad2_def)
qed

lemma parse_expanded_iso_string:
  assumes c: "\<not> common_year t" and r: "time_in_range t"
  shows "parse_expanded (iso_string t) = Some t"
proof -
  have "hd (iso_string t) = (if df_year (fields_of t) < 0 then 45 else 43)"
    "list_all is_digit (take 6 (tl (iso_string t)))" "7 \<le> length (iso_string t)"
    using c by (simp_all add: iso_string_def Let_def year_str_def common_year_def pad6_def pad4_def pad3_def pad2_def)
  then have "expanded_shape (iso_string t)"
    using c by (auto simp: expanded_shape_def expanded_core_shape expanded_year_iso_string [OF c r])
  then show ?thesis
    using r by (simp add: parse_expanded_def Let_def expanded_year_iso_string [OF c r] expanded_core_fields [OF c] valid_fields_of)
qed

text \<open>\<open>Date.parse(x.toISOString())\<close> is the time of \<open>x\<close>, whatever the host does with other texts.\<close>

lemma date_parse_iso_string [simp]: "time_in_range t \<Longrightarrow> date_parse host (iso_string t) = Some t"
proof (cases "common_year t")
  case True
  then show ?thesis by (simp add: date_parse_def parse_iso_string)
next
  case False
  moreover assume "time_in_range t"
  ultimately have "parse_expanded (iso_string t) = Some t" by (rule parse_expanded_iso_string)
  moreover have "hd (iso_string t) = 43 \<or> hd (iso_string t) = 45"
    using False by (auto simp: iso_string_def Let_def year_str_def common_year_def)
  then have "\<not> iso_shape (iso_string t)"
    by (cases "iso_string t") (auto simp: iso_shape_def iso_template_code template_match_def is_digit_def)
  then have "parse_iso (iso_string t) = None" by (simp add: parse_iso_def)
  ultimately show ?thesis by (simp add: date_parse_def)
qed

lemma to_iso_Inr_iff: "to_iso t = Inr s \<longleftrightarrow> (\<exists>v. t = Some v \<and> time_in_range v \<and> s = iso_string v)"
  by (auto simp: to_iso_def split: option.splits)

lemma date_parse_to_iso: "to_iso t = Inr s \<Longrightarrow> date_parse host s = t"
  by (auto simp: to_iso_Inr_iff)

text \<open>Comparisons of results of \<open>Date.parse\<close>: false when one of them is \<open>NaN\<close>.\<close>

definition time_less :: "int option \<Rightarrow> int option \<Rightarrow> bool" where
  "time_less a b = (case (a, b) of (Some x, Some y) \<Rightarrow> x < y | _ \<Rightarrow> False)"

definition time_le :: "int option \<Rightarrow> int option \<Rightarrow> bool" where
  "time_le a b = (case (a, b) of (Some x, Some y) \<Rightarrow> x \<le> y | _ \<Rightarrow> False)"

lemma time_compare_Some [simp]:
  "time_less (Some x) (Some y) \<longleftrightarrow> x < y"
  "time_le (Some x) (Some y) \<longleftrightarrow> x \<le> y"
  "\<not> time_less None b" "\<not> time_less a None" "\<not> time_le None b" "\<not> time_le a None"
  by (simp_all add: time_less_def time_le_def split: option.splits)

subsection \<open>Calendar-valid strings and their canonical form\<close>

lemma digit_at_snoc:
  assumes "0 \<le> r" "r < 10"
  shows "digit_at (10 * q + r) 1 = digit_char (nat r)" and "0 < p \<Longrightarrow> digit_at (10 * q + r) (10 * p) = digit_at q p"
proof -
  show "digit_at (10 * q + r) 1 = digit_char (nat r)" using assms by (simp add: digit_at_def)
  have "(10 * q + r) div (10 * p) = q div p" if "0 < p"
  proof -
    have "(10 * q + r) div (10 * p) = (10 * q + r) div 10 div p" using that by (simp add: zdiv_zmult2_eq)
    also have "(10 * q + r) div 10 = q" using assms by simp
    finally show ?thesis .
  qed
  then show "0 < p \<Longrightarrow> digit_at (10 * q + r) (10 * p) = digit_at q p" by (simp add: digit_at_def)
qed

lemma digit_val: "is_digit c \<Longrightarrow> 0 \<le> int c - 48 \<and> int c - 48 < 10 \<and> digit_char (nat (int c - 48)) = c"
  by (auto simp: is_digit_def digit_char_def)

lemma pad_digits_val:
  assumes "is_digit a" "is_digit b"
  shows "pad2 (digits_val [a, b]) = [a, b]" and "pad2 (digits_val (u @ [a, b])) = [a, b]"
proof -
  have "pad2 (digits_val (u @ [a, b])) = [a, b]" for u
  proof -
    have v: "digits_val (u @ [a, b]) = 10 * (10 * digits_val u + (int a - 48)) + (int b - 48)"
      using digits_val_snoc [of "u @ [a]" b] by (simp add: digits_val_snoc)
    note b = digit_at_snoc [where r = "int b - 48" and q = "10 * digits_val u + (int a - 48)"]
    note a = digit_at_snoc [where r = "int a - 48" and q = "digits_val u"]
    show ?thesis
      using digit_val [OF assms(1)] digit_val [OF assms(2)] a(1) b(1) b(2) [where p = 1]
      by (simp add: pad2_def v)
  qed
  from this [of "[]"] this [of u] show "pad2 (digits_val [a, b]) = [a, b]" "pad2 (digits_val (u @ [a, b])) = [a, b]"
    by simp_all
qed

lemma pad4_digits_val:
  assumes "is_digit a" "is_digit b" "is_digit c" "is_digit d"
  shows "pad4 (digits_val [a, b, c, d]) = [a, b, c, d]"
proof -
  let ?ab = "digits_val [a, b]"
  have 1: "digits_val [a, b, c] = 10 * ?ab + (int c - 48)"
    using digits_val_snoc [of "[a, b]" c] by simp
  have 2: "digits_val [a, b, c, d] = 10 * digits_val [a, b, c] + (int d - 48)"
    using digits_val_snoc [of "[a, b, c]" d] by simp
  have "digit_at (digits_val [a, b, c, d]) 1000 = digit_at ?ab 10"
    "digit_at (digits_val [a, b, c, d]) 100 = digit_at ?ab 1"
    using digit_at_snoc(2) [of "int d - 48" 100 "digits_val [a, b, c]"]
      digit_at_snoc(2) [of "int d - 48" 10 "digits_val [a, b, c]"]
      digit_at_snoc(2) [of "int c - 48" 10 ?ab] digit_at_snoc(2) [of "int c - 48" 1 ?ab]
      digit_val [OF assms(3)] digit_val [OF assms(4)]
    by (simp_all add: 1 2)
  moreover have "pad2 ?ab = [a, b]" by (rule pad_digits_val [OF assms(1,2)])
  moreover have "pad2 (digits_val ([a, b] @ [c, d])) = [c, d]" by (rule pad_digits_val(2) [OF assms(3,4)])
  ultimately show ?thesis by (simp add: pad4_def pad3_def) (simp add: pad2_def)
qed

text \<open>A calendar-valid string and the canonical string of its time agree up to the seconds.\<close>

lemma iso_string_of_parse:
  assumes "parse_iso s = Some t"
  shows "take 19 (iso_string t) = take 19 s"
proof -
  note c = parse_iso_common_year [OF assms]
  have "list_all2 template_match iso_template (take 19 s)" using c(2) by (simp add: iso_shape_def)
  then obtain y1 y2 y3 y4 m1 m2 d1 d2 h1 h2 n1 n2 s1 s2 where
    s: "take 19 s = [y1,y2,y3,y4,45,m1,m2,45,d1,d2,84,h1,h2,58,n1,n2,58,s1,s2]"
    and d: "is_digit y1" "is_digit y2" "is_digit y3" "is_digit y4" "is_digit m1" "is_digit m2" "is_digit d1"
      "is_digit d2" "is_digit h1" "is_digit h2" "is_digit n1" "is_digit n2" "is_digit s1" "is_digit s2"
    by (auto simp: iso_template_code list_all2_Cons1 template_match_def)
  have f: "field_at s 0 4 = digits_val [y1,y2,y3,y4]" "field_at s 5 2 = digits_val [m1,m2]"
    "field_at s 8 2 = digits_val [d1,d2]" "field_at s 11 2 = digits_val [h1,h2]"
    "field_at s 14 2 = digits_val [n1,n2]" "field_at s 17 2 = digits_val [s1,s2]"
    by (simp_all add: field_at_take [of _ _ s]) (simp_all add: field_at_def s)
  show ?thesis
    unfolding iso_string_take [OF c(1)] Let_def c(3) s iso_fields_def
    by (simp add: f d pad_digits_val pad4_digits_val)
qed

lemma common_year_in_range: "common_year t \<Longrightarrow> time_in_range t"
proof -
  assume "common_year t"
  then have "0 \<le> year_of_day (t div 86400000)" "year_of_day (t div 86400000) \<le> 9999"
    by (simp_all add: common_year_def fields_of_def Let_def)
  moreover define n where "n = t div 86400000"
  ultimately have y: "0 \<le> year_of_day n" "year_of_day n \<le> 9999" by simp_all
  define a b where "a = day_from_year (year_of_day n)" and "b = day_from_year (year_of_day n + 1)"
  have n: "a \<le> n" "n < b" using year_of_day_bounds [of n] by (simp_all add: a_def b_def)
  have "- 800000 \<le> a" "b \<le> 4000000"
    using y day_from_year_bounds [of "year_of_day n"] day_from_year_bounds [of "year_of_day n + 1"]
    unfolding a_def b_def by simp_all
  with n have "- 800000 \<le> n" "n \<le> 4000000" by simp_all
  moreover have "86400000 * n \<le> t" "t < 86400000 * n + 86400000"
    using div_bounds [of 86400000 t] by (simp_all add: n_def)
  ultimately have "- 8640000000000000 \<le> t" "t \<le> 8640000000000000" by simp_all
  then show ?thesis by (simp add: time_in_range_def)
qed

end
