(* ===== verification/JsValue.thy ===== *)
theory JsValue
  imports JsNumber JsDate
begin

text \<open>
  Values whose type the program tests at run time (\<open>unknown\<close>, parsed JSON, or a declared type it
  does not trust).  Objects carry their own enumerable entries in \<open>Object.entries\<close> order.
\<close>

datatype jval = Undefined | Null | JBool bool | JNum jnum | JStr jstr | JArr "jval list"
  | JObj "(jstr \<times> jval) list"

fun truthy :: "jval \<Rightarrow> bool" where
  "truthy Undefined = False"
| "truthy Null = False"
| "truthy (JBool b) = b"
| "truthy (JNum x) = (x \<noteq> NaN \<and> \<not> jeq x (Fin 0))"
| "truthy (JStr s) = (s \<noteq> [])"
| "truthy (JArr _) = True"
| "truthy (JObj _) = True"

text \<open>\<open>v && typeof v === 'object' && !Array.isArray(v)\<close>: the entries of such a value.\<close>

fun plain_object :: "jval \<Rightarrow> jval jobj option" where
  "plain_object (JObj es) = Some es"
| "plain_object _ = None"

fun array_items :: "jval \<Rightarrow> jval list option" where
  "array_items (JArr xs) = Some xs"
| "array_items _ = None"

text \<open>\<open>typeof v === 'string'\<close> with the string.\<close>

fun string_of :: "jval \<Rightarrow> jstr option" where
  "string_of (JStr s) = Some s"
| "string_of _ = None"

text \<open>An own property, \<open>undefined\<close> when there is none.\<close>

definition own :: "jval jobj \<Rightarrow> jstr \<Rightarrow> jval" where
  "own ob k = (case obj_get ob k of Some v \<Rightarrow> v | None \<Rightarrow> Undefined)"

lemma own_simps: "own [] k = Undefined" "own ((k', v) # ob) k = (if k = k' then v else own ob k)"
  by (simp_all add: own_def obj_get_def)

lemma plain_object_Some [simp]: "plain_object v = Some es \<longleftrightarrow> v = JObj es"
  by (cases v) auto

lemma array_items_Some [simp]: "array_items v = Some xs \<longleftrightarrow> v = JArr xs"
  by (cases v) auto

lemma string_of_Some [simp]: "string_of v = Some s \<longleftrightarrow> v = JStr s"
  by (cases v) auto

text \<open>\<open>typeof v === 'string' && v.trim()\<close>.\<close>

definition filled_string :: "jval \<Rightarrow> bool" where
  "filled_string v = (case string_of v of Some s \<Rightarrow> js_trim s \<noteq> [] | None \<Rightarrow> False)"

lemma filled_string_iff: "filled_string v \<longleftrightarrow> (\<exists>s. v = JStr s \<and> js_trim s \<noteq> [])"
  by (cases v) (auto simp: filled_string_def)

text \<open>
  Property reads \<open>v.k\<close> of names no built-in prototype defines: reading one of \<open>undefined\<close> or
  \<open>null\<close> throws, of a string, number, boolean or array it is \<open>undefined\<close>.  \<open>with_props v f\<close> is code
  whose first step reads a property of \<open>v\<close>; \<open>or_empty v\<close> is \<open>v ?? {}\<close>.
\<close>

definition nullish :: "jval \<Rightarrow> bool" where
  "nullish v = (case v of Undefined \<Rightarrow> True | Null \<Rightarrow> True | _ \<Rightarrow> False)"

definition get_prop :: "jval \<Rightarrow> string \<Rightarrow> jval" where
  "get_prop v k = (case v of JObj es \<Rightarrow> own es (js k) | _ \<Rightarrow> Undefined)"

definition with_props :: "jval \<Rightarrow> ((string \<Rightarrow> jval) \<Rightarrow> 'a) \<Rightarrow> 'a result" where
  "with_props v f = (if nullish v then Inl TypeError else Inr (f (get_prop v)))"

definition or_empty :: "jval \<Rightarrow> jval" where
  "or_empty v = (if nullish v then JObj [] else v)"

lemma get_prop_or_empty [simp]: "get_prop (or_empty v) = get_prop v"
  by (rule ext) (cases v; simp add: or_empty_def nullish_def get_prop_def own_def obj_get_def)

lemma with_props_Inl_iff: "(\<exists>e. with_props v f = Inl e) \<longleftrightarrow> nullish v"
  by (simp add: with_props_def)

text \<open>\<open>typeof v === 'number' && Number.isFinite(v)\<close> with the number.\<close>

definition finite_number :: "jval \<Rightarrow> jnum option" where
  "finite_number v = (case v of JNum x \<Rightarrow> if is_finite x then Some x else None | _ \<Rightarrow> None)"

lemma finite_number_Some: "finite_number v = Some x \<longleftrightarrow> v = JNum x \<and> is_finite x"
  by (cases v) (auto simp: finite_number_def)

text \<open>\<open>typeof v\<close> tests with the value.\<close>

fun number_of :: "jval \<Rightarrow> jnum option" where
  "number_of (JNum x) = Some x"
| "number_of _ = None"

lemma number_of_Some [simp]: "number_of v = Some x \<longleftrightarrow> v = JNum x"
  by (cases v) auto

fun bool_of :: "jval \<Rightarrow> bool option" where
  "bool_of (JBool b) = Some b"
| "bool_of _ = None"

lemma bool_of_Some [simp]: "bool_of v = Some b \<longleftrightarrow> v = JBool b"
  by (cases v) auto

text \<open>\<open>a === b\<close> on primitive values; objects, which compare by identity, never occur in it here.\<close>

fun same_primitive :: "jval \<Rightarrow> jval \<Rightarrow> bool" where
  "same_primitive (JNum x) (JNum y) = jeq x y"
| "same_primitive (JStr s) (JStr t) = (s = t)"
| "same_primitive (JBool a) (JBool b) = (a = b)"
| "same_primitive Null Null = True"
| "same_primitive Undefined Undefined = True"
| "same_primitive _ _ = False"

subsection \<open>Times as numbers\<close>

text \<open>The number \<open>Date.parse\<close> returns, and the time value \<open>new Date(x)\<close> holds (\<open>TimeClip\<close>).\<close>

definition time_num :: "int option \<Rightarrow> jnum" where
  "time_num t = (case t of Some v \<Rightarrow> Fin (of_int v) | None \<Rightarrow> NaN)"

definition truncate_rat :: "rat \<Rightarrow> int" where
  "truncate_rat q = (if q < 0 then \<lceil>q\<rceil> else \<lfloor>q\<rfloor>)"

definition time_clip :: "jnum \<Rightarrow> int option" where
  "time_clip x = (case x of Fin q \<Rightarrow> if \<bar>q\<bar> \<le> 8640000000000000 then Some (truncate_rat q) else None | _ \<Rightarrow> None)"

lemma truncate_rat_bound:
  assumes "of_int (- N) \<le> q" "q \<le> of_int N"
  shows "\<bar>truncate_rat q\<bar> \<le> N"
proof -
  have "- N \<le> \<lceil>q\<rceil>" "\<lceil>q\<rceil> \<le> N"
    using ceiling_mono [OF assms(1)] ceiling_mono [OF assms(2)] by (simp_all only: ceiling_of_int)
  moreover have "- N \<le> \<lfloor>q\<rfloor>" "\<lfloor>q\<rfloor> \<le> N"
    using floor_mono [OF assms(1)] floor_mono [OF assms(2)] by (simp_all only: floor_of_int)
  ultimately show ?thesis by (simp add: truncate_rat_def abs_le_iff)
qed

lemma time_clip_in_range:
  assumes "time_clip x = Some t"
  shows "time_in_range t"
proof -
  from assms obtain q where t: "t = truncate_rat q" and q: "\<bar>q\<bar> \<le> 8640000000000000"
    by (auto simp: time_clip_def split: jnum.splits if_splits)
  from q have "of_int (- 8640000000000000) \<le> q" "q \<le> of_int 8640000000000000" by (simp_all add: abs_le_iff)
  then have "\<bar>truncate_rat q\<bar> \<le> 8640000000000000" by (rule truncate_rat_bound)
  then show ?thesis by (simp only: time_in_range_def t)
qed

text \<open>The comparator \<open>(a, b) => a - b\<close> on times.\<close>

lemma jsub_times_sign:
  assumes "time_in_range a" "time_in_range b"
  shows "jless (Fin 0) (jsub (Fin (of_int a)) (Fin (of_int b))) \<longleftrightarrow> b < a"
proof (cases a b rule: linorder_cases)
  case less
  then have "(1 :: rat) \<le> of_int (b - a)" by simp
  moreover have "b - a \<le> 2 ^ 60" using assms by (simp add: time_in_range_def)
  then have "(of_int (b - a) :: rat) \<le> of_int (2 ^ 60)" by (simp only: of_int_le_iff)
  ultimately have "\<not> jless (Fin 0) (fl (- of_int (b - a)))" by (intro fl_sign(2)) simp_all
  with less show ?thesis by (simp add: jsub_def)
next
  case equal
  then show ?thesis by (simp add: jsub_def fl_def)
next
  case greater
  then have "(1 :: rat) \<le> of_int (a - b)" by simp
  moreover have "a - b \<le> 2 ^ 60" using assms by (simp add: time_in_range_def)
  then have "(of_int (a - b) :: rat) \<le> of_int (2 ^ 60)" by (simp only: of_int_le_iff)
  ultimately have "jless (Fin 0) (fl (of_int (a - b)))" by (intro fl_sign(1)) simp_all
  with greater show ?thesis by (simp add: jsub_def)
qed

text \<open>\<open>xs.slice(n)\<close> and \<open>xs.slice(0, n)\<close>: a negative index counts from the end.\<close>

definition slice_index :: "jnum \<Rightarrow> nat \<Rightarrow> nat" where
  "slice_index n len = (case n of
     Fin q \<Rightarrow> (let i = truncate_rat q in if i < 0 then nat (max 0 (int len + i)) else nat (min (int len) i))
   | PosInf \<Rightarrow> len | NegInf \<Rightarrow> 0 | NaN \<Rightarrow> 0)"

definition slice_from :: "jnum \<Rightarrow> 'a list \<Rightarrow> 'a list" where
  "slice_from n xs = drop (slice_index n (length xs)) xs"

definition slice_to :: "jnum \<Rightarrow> 'a list \<Rightarrow> 'a list" where
  "slice_to n xs = take (slice_index n (length xs)) xs"

subsection \<open>JSON text\<close>

definition hex_digit :: "nat \<Rightarrow> nat" where
  "hex_digit d = (if d < 10 then 48 + d else 87 + d)"

definition json_escape :: "nat \<Rightarrow> jstr" where
  "json_escape c = [92, 117, hex_digit (c div 4096), hex_digit (c div 256 mod 16), hex_digit (c div 16 mod 16),
     hex_digit (c mod 16)]"

definition high_surrogate :: "nat \<Rightarrow> bool" where
  "high_surrogate c \<longleftrightarrow> 55296 \<le> c \<and> c \<le> 56319"

definition low_surrogate :: "nat \<Rightarrow> bool" where
  "low_surrogate c \<longleftrightarrow> 56320 \<le> c \<and> c \<le> 57343"

text \<open>Evaluation compares as integers.\<close>

lemma surrogate_code [code]:
  "high_surrogate c \<longleftrightarrow> (let i = int c in 55296 \<le> i \<and> i \<le> 56319)"
  "low_surrogate c \<longleftrightarrow> (let i = int c in 56320 \<le> i \<and> i \<le> 57343)"
  by (simp_all add: high_surrogate_def low_surrogate_def Let_def)

definition json_char :: "nat \<Rightarrow> jstr" where
  "json_char c =
     (if c = 34 \<or> c = 92 then [92, c] else if c = 8 then [92, 98] else if c = 12 then [92, 102]
      else if c = 10 then [92, 110] else if c = 13 then [92, 114] else if c = 9 then [92, 116]
      else if c < 32 then json_escape c else [c])"

fun json_chars :: "jstr \<Rightarrow> jstr" where
  "json_chars [] = []"
| "json_chars (c # s) =
     (if high_surrogate c then
        (case s of d # r \<Rightarrow> if low_surrogate d then c # d # json_chars r else json_escape c @ json_chars s
         | [] \<Rightarrow> json_escape c)
      else if low_surrogate c then json_escape c @ json_chars s
      else json_char c @ json_chars s)"

definition json_quote :: "jstr \<Rightarrow> jstr" where
  "json_quote s = [34] @ json_chars s @ [34]"

text \<open>\<open>JSON.stringify\<close> of a primitive; \<open>None\<close> for \<open>undefined\<close>, which an object omits.\<close>

fun json_primitive :: "jval \<Rightarrow> jstr option" where
  "json_primitive Null = Some (js ''null'')"
| "json_primitive (JBool b) = Some (if b then js ''true'' else js ''false'')"
| "json_primitive (JNum x) = Some (if is_finite x then num_str x else js ''null'')"
| "json_primitive (JStr s) = Some (json_quote s)"
| "json_primitive _ = None"

text \<open>\<open>JSON.stringify\<close> of an object of primitives.\<close>

definition json_record :: "jval jobj \<Rightarrow> jstr" where
  "json_record ob = [123] @ js_join [44]
     (List.map_filter (\<lambda>(k, v). map_option (\<lambda>s. json_quote k @ [58] @ s) (json_primitive v)) ob) @ [125]"

text \<open>\<open>String(v)\<close>.\<close>

fun to_string :: "jval \<Rightarrow> jstr result" and item_strings :: "jval list \<Rightarrow> jstr list result" where
  "to_string Undefined = Inr (js ''undefined'')"
| "to_string Null = Inr (js ''null'')"
| "to_string (JBool b) = Inr (if b then js ''true'' else js ''false'')"
| "to_string (JNum x) = Inr (num_str x)"
| "to_string (JStr s) = Inr s"
| "to_string (JArr xs) = and_then (item_strings xs) (\<lambda>ss. Inr (js_join (js '','') ss))"
| "to_string (JObj es) = (if js ''toString'' \<in> fst ` set es then Inl TypeError else Inr (js ''[object Object]''))"
| "item_strings [] = Inr []"
| "item_strings (v # vs) = and_then (if nullish v then Inr [] else to_string v) (\<lambda>s.
     and_then (item_strings vs) (\<lambda>ss. Inr (s # ss)))"


subsection \<open>UTC instants\<close>

text \<open>
  The check several components make of an untrusted instant: the shape of a UTC timestamp, a time
  \<open>Date.parse\<close> accepts, whose canonical form agrees up to the seconds (so no calendar overflow).
\<close>

definition utc_instant :: "(jstr \<Rightarrow> int option) \<Rightarrow> error \<Rightarrow> jval \<Rightarrow> jstr result" where
  "utc_instant host err v =
     (case string_of v of
        None \<Rightarrow> Inl err
      | Some s \<Rightarrow>
          if \<not> iso_shape s then Inl err
          else (case date_parse host s of
             None \<Rightarrow> Inl err
           | Some t \<Rightarrow> and_then (to_iso (Some t)) (\<lambda>iso.
               if take 19 iso \<noteq> take 19 s then Inl err else Inr iso)))"

lemma iso_shape_common_year:
  assumes "iso_shape s" "take 19 (iso_string t) = take 19 s"
  shows "common_year t"
proof (rule ccontr)
  assume "\<not> common_year t"
  then have h: "hd (take 19 (iso_string t)) = 43 \<or> hd (take 19 (iso_string t)) = 45"
    by (auto simp: iso_string_def Let_def year_str_def common_year_def)
  have "list_all2 template_match iso_template (take 19 s)" using assms(1) by (simp add: iso_shape_def)
  then obtain c r where "take 19 s = c # r" "is_digit c"
    by (auto simp: iso_template_code list_all2_Cons1 template_match_def)
  with h assms(2) show False by (auto simp: is_digit_def)
qed

text \<open>It accepts exactly the calendar-valid strings, whatever the host parser does with others.\<close>

lemma utc_instant_Inr:
  "utc_instant host err v = Inr r \<longleftrightarrow> (\<exists>s t. v = JStr s \<and> parse_iso s = Some t \<and> r = iso_string t)"
proof
  assume "utc_instant host err v = Inr r"
  then obtain s t where v: "v = JStr s" "iso_shape s" "date_parse host s = Some t" "r = iso_string t"
    and e: "take 19 (iso_string t) = take 19 s"
    by (cases v) (auto simp: utc_instant_def and_then_Inr_iff to_iso_Inr_iff split: if_splits option.splits)
  have "parse_iso s = Some (t - df_ms (fields_of t) + fraction_ms (drop 19 s))"
    using parse_iso_of_take [OF v(2) iso_shape_common_year [OF v(2) e]] e by simp
  with v(3) have "parse_iso s = Some t" by (simp add: date_parse_def)
  with v show "\<exists>s t. v = JStr s \<and> parse_iso s = Some t \<and> r = iso_string t" by blast
next
  assume "\<exists>s t. v = JStr s \<and> parse_iso s = Some t \<and> r = iso_string t"
  then obtain s t where v: "v = JStr s" "parse_iso s = Some t" "r = iso_string t" by blast
  with parse_iso_common_year [OF v(2)] common_year_in_range iso_string_of_parse [OF v(2)]
  show "utc_instant host err v = Inr r"
    by (simp add: utc_instant_def date_parse_def to_iso_def)
qed

lemma utc_instant_canonical:
  assumes "utc_instant host err v = Inr r"
  obtains t where "r = iso_string t" "common_year t" "time_in_range t" "utc_instant host' err' (JStr r) = Inr r"
proof -
  from assms obtain s t where v: "v = JStr s" "parse_iso s = Some t" "r = iso_string t"
    by (auto simp: utc_instant_Inr)
  note c = parse_iso_common_year(1) [OF v(2)]
  have "utc_instant host' err' (JStr r) = Inr r"
    using parse_iso_string [OF c] v(3) by (simp add: utc_instant_Inr)
  with c show ?thesis using that v(3) common_year_in_range by blast
qed

end
