(* ===== verification/Enrollment.thy ===== *)
theory Enrollment
  imports JsValue JsDate
begin

text \<open>
  Device enrolment, \<open>libs/domain-devices/src/lib/device-enrollment.ts\<close>: creating an enrolment,
  changing its status, enrolling a retired device again.  \<open>host\<close> is the host-dependent part of
  \<open>Date.parse\<close>; the text inputs the code tests with \<open>typeof\<close> are \<open>jval\<close>.

  The operations form the lifecycle \<open>lifecycle\<close>, a relation between enrolments and the number of
  versions they went through.  The lemmas give the invariant of every reachable enrolment and the
  exact condition and result of each operation.
\<close>

datatype enrollment_status = Enrolled | Suspended | Retired | OtherStatus jstr

record enrollment_input =
  ei_tenantId :: jval
  ei_siteId :: jval
  ei_deviceId :: jval
  ei_displayName :: jval

record enrollment =
  en_schemaVersion :: nat
  en_version :: jnum
  en_tenantId :: jstr
  en_siteId :: jstr
  en_deviceId :: jstr
  en_displayName :: jstr
  en_status :: enrollment_status
  en_enrolledAt :: jstr
  en_updatedAt :: jstr

datatype enrollment_action = ActEnrolled | ActSuspended | ActReactivated | ActRetired | ActReenrolled

record enrollment_event =
  ee_tenantId :: jstr
  ee_siteId :: jstr
  ee_deviceId :: jstr
  ee_eventId :: jstr
  ee_action :: enrollment_action
  ee_actor :: jstr
  ee_occurredAt :: jstr

definition requiredText :: "jval \<Rightarrow> string \<Rightarrow> jstr result" where
  "requiredText v field =
     (case string_of v of
        Some s \<Rightarrow> if js_trim s = [] then throw (field @ '' is required'') else Inr (js_trim s)
      | None \<Rightarrow> throw (field @ '' is required''))"

definition validTimestamp :: "(jstr \<Rightarrow> int option) \<Rightarrow> jstr \<Rightarrow> jstr result" where
  "validTimestamp host s =
     (case date_parse host s of
        None \<Rightarrow> throw ''Invalid enrollment timestamp''
      | Some t \<Rightarrow> to_iso (Some t))"

definition createDeviceEnrollment ::
  "(jstr \<Rightarrow> int option) \<Rightarrow> enrollment_input \<Rightarrow> jstr \<Rightarrow> enrollment result" where
  "createDeviceEnrollment host i occurredAt =
     and_then (validTimestamp host occurredAt) (\<lambda>now.
     and_then (requiredText (ei_tenantId i) ''tenantId'') (\<lambda>tenant.
     and_then (requiredText (ei_siteId i) ''siteId'') (\<lambda>site.
     and_then (requiredText (ei_deviceId i) ''deviceId'') (\<lambda>device.
     and_then (requiredText (ei_displayName i) ''displayName'') (\<lambda>name.
       Inr \<lparr>en_schemaVersion = 1, en_version = Fin 1, en_tenantId = tenant, en_siteId = site,
            en_deviceId = device, en_displayName = name, en_status = Enrolled,
            en_enrolledAt = now, en_updatedAt = now\<rparr>)))))"

definition changeDeviceEnrollmentStatus ::
  "(jstr \<Rightarrow> int option) \<Rightarrow> enrollment \<Rightarrow> enrollment_status \<Rightarrow> jstr \<Rightarrow> enrollment result" where
  "changeDeviceEnrollmentStatus host e next_status occurredAt =
     (if next_status \<noteq> Enrolled \<and> next_status \<noteq> Suspended \<and> next_status \<noteq> Retired
      then throw ''Invalid enrollment status''
      else if en_status e = next_status then throw ''Device already has this enrollment status''
      else if en_status e = Retired then throw ''Retired devices require explicit reenrollment''
      else and_then (validTimestamp host occurredAt) (\<lambda>now.
        if time_less (date_parse host now) (date_parse host (en_updatedAt e))
        then throw ''Enrollment transition is out of order''
        else Inr (e\<lparr>en_version := jadd (en_version e) (Fin 1), en_status := next_status,
                    en_updatedAt := now\<rparr>)))"

definition reenrollDevice ::
  "(jstr \<Rightarrow> int option) \<Rightarrow> enrollment \<Rightarrow> jval \<Rightarrow> jstr \<Rightarrow> enrollment result" where
  "reenrollDevice host e displayName occurredAt =
     (if en_status e \<noteq> Retired then throw ''Only retired devices can be reenrolled''
      else and_then (validTimestamp host occurredAt) (\<lambda>now.
        if time_less (date_parse host now) (date_parse host (en_updatedAt e))
        then throw ''Enrollment transition is out of order''
        else and_then (requiredText displayName ''displayName'') (\<lambda>name.
          Inr (e\<lparr>en_version := jadd (en_version e) (Fin 1), en_displayName := name,
                 en_status := Enrolled, en_enrolledAt := now, en_updatedAt := now\<rparr>))))"

subsection \<open>The lifecycle\<close>

text \<open>\<open>lifecycle host n e\<close>: \<open>e\<close> arises from a creation followed by \<open>n\<close> successful operations.\<close>

inductive lifecycle :: "(jstr \<Rightarrow> int option) \<Rightarrow> nat \<Rightarrow> enrollment \<Rightarrow> bool" for host where
  create: "createDeviceEnrollment host i ts = Inr e \<Longrightarrow> lifecycle host 0 e"
| change: "lifecycle host n e \<Longrightarrow> changeDeviceEnrollmentStatus host e s ts = Inr e'
    \<Longrightarrow> lifecycle host (Suc n) e'"
| reenroll: "lifecycle host n e \<Longrightarrow> reenrollDevice host e name ts = Inr e'
    \<Longrightarrow> lifecycle host (Suc n) e'"

lemma requiredText_Inr: "requiredText v field = Inr t \<longleftrightarrow> (\<exists>s. v = JStr s \<and> js_trim s \<noteq> [] \<and> t = js_trim s)"
  by (cases v) (auto simp: requiredText_def)

lemma validTimestamp_Inr:
  "validTimestamp host s = Inr t \<longleftrightarrow> (\<exists>v. date_parse host s = Some v \<and> time_in_range v \<and> t = iso_string v)"
  by (auto simp: validTimestamp_def to_iso_Inr_iff split: option.splits)

lemmas enrollment_ops = createDeviceEnrollment_def changeDeviceEnrollmentStatus_def reenrollDevice_def

definition canonical_time :: "jstr \<Rightarrow> int \<Rightarrow> bool" where
  "canonical_time s v \<longleftrightarrow> time_in_range v \<and> s = iso_string v"

lemma canonical_time_parse: "canonical_time s v \<Longrightarrow> date_parse host s = Some v"
  by (simp add: canonical_time_def)

lemma canonical_time_same:
  "time_in_range v \<Longrightarrow> \<exists>a. canonical_time (iso_string v) a \<and> (\<exists>b. canonical_time (iso_string v) b \<and> a \<le> b)"
  by (auto simp: canonical_time_def)

text \<open>What holds of every enrolment of the lifecycle after \<open>n\<close> operations.\<close>

definition enrollment_inv :: "nat \<Rightarrow> enrollment \<Rightarrow> bool" where
  "enrollment_inv n e \<longleftrightarrow>
     en_schemaVersion e = 1
   \<and> (safe_int (int n + 1) \<longrightarrow> en_version e = Fin (of_int (int n + 1)))
   \<and> en_status e \<in> {Enrolled, Suspended, Retired}
   \<and> (\<forall>s \<in> {en_tenantId e, en_siteId e, en_deviceId e, en_displayName e}. s \<noteq> [] \<and> js_trim s = s)
   \<and> (\<exists>v w. canonical_time (en_enrolledAt e) v \<and> canonical_time (en_updatedAt e) w \<and> v \<le> w)"

lemma create_inv: "createDeviceEnrollment host i ts = Inr e \<Longrightarrow> enrollment_inv 0 e"
  by (auto simp: enrollment_ops and_then_Inr_iff requiredText_Inr validTimestamp_Inr enrollment_inv_def
      intro: canonical_time_same)

lemma next_version:
  "(safe_int (int n + 1) \<longrightarrow> v = Fin (of_int (int n + 1)))
   \<Longrightarrow> safe_int (int (Suc n) + 1) \<longrightarrow> jadd v (Fin 1) = Fin (of_int (int (Suc n) + 1))"
  using jadd_int [of "int n + 1" 1] by (auto simp: safe_int_def algebra_simps)

lemma change_Inr:
  "changeDeviceEnrollmentStatus host e s ts = Inr e' \<longleftrightarrow>
     s \<in> {Enrolled, Suspended, Retired} \<and> en_status e \<noteq> s \<and> en_status e \<noteq> Retired
   \<and> (\<exists>v. date_parse host ts = Some v \<and> time_in_range v \<and> \<not> time_less (Some v) (date_parse host (en_updatedAt e))
        \<and> e' = e\<lparr>en_version := jadd (en_version e) (Fin 1), en_status := s, en_updatedAt := iso_string v\<rparr>)"
proof (cases "date_parse host ts")
  case (Some v)
  show ?thesis
  proof (cases "time_in_range v")
    case True
    with Some show ?thesis
      by (simp add: changeDeviceEnrollmentStatus_def validTimestamp_def to_iso_def) (cases s; auto)
  qed (use Some in \<open>simp add: changeDeviceEnrollmentStatus_def validTimestamp_def to_iso_def\<close>)
qed (simp add: changeDeviceEnrollmentStatus_def validTimestamp_def)

lemma reenroll_Inr:
  "reenrollDevice host e name ts = Inr e' \<longleftrightarrow>
     en_status e = Retired
   \<and> (\<exists>v s. date_parse host ts = Some v \<and> time_in_range v \<and> \<not> time_less (Some v) (date_parse host (en_updatedAt e))
        \<and> name = JStr s \<and> js_trim s \<noteq> []
        \<and> e' = e\<lparr>en_version := jadd (en_version e) (Fin 1), en_displayName := js_trim s, en_status := Enrolled,
                 en_enrolledAt := iso_string v, en_updatedAt := iso_string v\<rparr>)"
proof (cases "date_parse host ts")
  case (Some v)
  show ?thesis
  proof (cases "time_in_range v")
    case True
    with Some show ?thesis
      by (cases name) (auto simp: enrollment_ops validTimestamp_def to_iso_def requiredText_def)
  qed (use Some in \<open>auto simp: enrollment_ops validTimestamp_def to_iso_def\<close>)
qed (simp add: enrollment_ops validTimestamp_def)

lemma change_inv:
  assumes "enrollment_inv n e" "changeDeviceEnrollmentStatus host e s ts = Inr e'"
  shows "enrollment_inv (Suc n) e'"
proof -
  obtain v where v: "time_in_range v" "\<not> time_less (Some v) (date_parse host (en_updatedAt e))"
    and e': "e' = e\<lparr>en_version := jadd (en_version e) (Fin 1), en_status := s, en_updatedAt := iso_string v\<rparr>"
    and s: "s \<in> {Enrolled, Suspended, Retired}"
    using assms(2) by (auto simp: change_Inr)
  obtain a b where t: "canonical_time (en_enrolledAt e) a" "canonical_time (en_updatedAt e) b" "a \<le> b"
    using assms(1) by (auto simp: enrollment_inv_def)
  have "b \<le> v" using v(2) canonical_time_parse [OF t(2), of host] by (simp add: time_less_def)
  then have "canonical_time (en_enrolledAt e) a \<and> canonical_time (iso_string v) v \<and> a \<le> v"
    using t v(1) by (simp add: canonical_time_def)
  then show ?thesis
    using assms(1) s next_version [of n "en_version e"] by (auto simp: enrollment_inv_def e')
qed

lemma reenroll_inv:
  assumes "enrollment_inv n e" "reenrollDevice host e name ts = Inr e'"
  shows "enrollment_inv (Suc n) e'"
  using assms next_version [of n "en_version e"]
  by (auto simp: reenroll_Inr enrollment_inv_def intro: canonical_time_same)

text \<open>
  C4.  Every enrolment the operations can produce, after any sequence of them, has schema version 1,
  a version that counts the operations, one of the three statuses, trimmed non-empty identity and
  name, and canonical timestamps with the last update not before the enrolment.
\<close>

theorem enrollment_lifecycle_invariant:
  assumes "lifecycle host n e"
  shows "en_schemaVersion e = 1
   \<and> (int n + 1 < 2 ^ 53 \<longrightarrow> en_version e = Fin (of_int (int n + 1)))
   \<and> en_status e \<in> {Enrolled, Suspended, Retired}
   \<and> (\<forall>s \<in> {en_tenantId e, en_siteId e, en_deviceId e, en_displayName e}. s \<noteq> [] \<and> js_trim s = s)
   \<and> (\<exists>v w. en_enrolledAt e = iso_string v \<and> en_updatedAt e = iso_string w
          \<and> time_in_range v \<and> time_in_range w \<and> v \<le> w)"
proof -
  have "enrollment_inv n e"
    using assms by induction (auto intro: create_inv change_inv reenroll_inv)
  then show ?thesis by (auto simp: enrollment_inv_def canonical_time_def safe_int_def)
qed

text \<open>
  C5.  The transitions the lifecycle allows, for an enrolment last updated at time \<open>w\<close>: a status
  change succeeds exactly when the status is one of the three, differs from the present one, the
  device is not retired, and the timestamp is a time not before \<open>w\<close>; enrolling again succeeds
  exactly for a retired device, a non-blank name and such a timestamp.  Both keep tenant, site and
  device.
\<close>

theorem enrollment_transitions:
  assumes w: "en_updatedAt e = iso_string w" "time_in_range w"
  shows "((\<exists>e'. changeDeviceEnrollmentStatus host e s ts = Inr e') \<longleftrightarrow>
       s \<in> {Enrolled, Suspended, Retired} \<and> en_status e \<noteq> s \<and> en_status e \<noteq> Retired
     \<and> (\<exists>v. date_parse host ts = Some v \<and> time_in_range v \<and> w \<le> v))
   \<and> ((\<exists>e'. reenrollDevice host e name ts = Inr e') \<longleftrightarrow>
       en_status e = Retired \<and> filled_string name
     \<and> (\<exists>v. date_parse host ts = Some v \<and> time_in_range v \<and> w \<le> v))
   \<and> (\<forall>e'. changeDeviceEnrollmentStatus host e s ts = Inr e' \<or> reenrollDevice host e name ts = Inr e' \<longrightarrow>
        en_tenantId e' = en_tenantId e \<and> en_siteId e' = en_siteId e \<and> en_deviceId e' = en_deviceId e)"
proof -
  have d: "date_parse host (en_updatedAt e) = Some w" using w by simp
  show ?thesis
    by (auto simp: change_Inr reenroll_Inr d time_less_def filled_string_iff)
qed

subsection \<open>Concrete instances\<close>

definition demo_enrollment :: enrollment where
  "demo_enrollment =
     \<lparr>en_schemaVersion = 1, en_version = Fin 1, en_tenantId = js ''t'', en_siteId = js ''s'',
      en_deviceId = js ''d'', en_displayName = js ''Meter'', en_status = Enrolled,
      en_enrolledAt = iso_string 0, en_updatedAt = iso_string 0\<rparr>"

lemma demo_enrollment_created: "lifecycle (\<lambda>_. None) 0 demo_enrollment"
proof (rule lifecycle.create)
  show "createDeviceEnrollment (\<lambda>_. None)
      \<lparr>ei_tenantId = JStr (js ''t''), ei_siteId = JStr (js ''s''), ei_deviceId = JStr (js '' d ''),
       ei_displayName = JStr (js ''Meter'')\<rparr> (iso_string 0) = Inr demo_enrollment"
    by (simp add: createDeviceEnrollment_def validTimestamp_def to_iso_def time_in_range_def requiredText_def
        demo_enrollment_def js_trim_def js_space_def js_def)
qed

definition demo_suspended :: enrollment where
  "demo_suspended =
     demo_enrollment\<lparr>en_version := Fin 2, en_status := Suspended, en_updatedAt := iso_string 5\<rparr>"

lemma demo_change:
  "changeDeviceEnrollmentStatus (\<lambda>_. None) demo_enrollment Suspended (iso_string 5) = Inr demo_suspended"
proof -
  have "jadd (Fin 1) (Fin 1) = Fin (2 :: rat)" using jadd_int [of 1 1] by (simp add: safe_int_def)
  then show ?thesis
    by (auto simp: change_Inr demo_enrollment_def demo_suspended_def time_less_def time_in_range_def)
qed

theorem enrollment_lifecycle_invariant_witness:
  "lifecycle (\<lambda>_. None) 1 demo_suspended \<and> en_version demo_suspended = Fin 2"
proof -
  have l: "lifecycle (\<lambda>_. None) 1 demo_suspended"
    using lifecycle.change [OF demo_enrollment_created demo_change] by simp
  show ?thesis using l enrollment_lifecycle_invariant [OF l] by simp
qed

theorem enrollment_transitions_witness:
  "\<exists>e'. changeDeviceEnrollmentStatus (\<lambda>_. None) demo_enrollment Suspended (iso_string 5) = Inr e'"
proof -
  have w: "en_updatedAt demo_enrollment = iso_string 0" "time_in_range 0"
    by (simp_all add: demo_enrollment_def time_in_range_def)
  have v: "date_parse (\<lambda>_. None) (iso_string 5) = Some 5" "time_in_range 5"
    by (simp_all add: time_in_range_def)
  show ?thesis
    using enrollment_transitions [OF w, where host = "\<lambda>_. None" and s = Suspended and ts = "iso_string 5"] v
    by (auto simp: demo_enrollment_def)
qed

end
