(* ===== verification/Observation.thy ===== *)
theory Observation
  imports JsValue JsDate "HOL-Library.Multiset"
begin

text \<open>
  The path of a device observation: \<open>device-observation-profile.ts\<close> decodes a raw payload with an
  approved binding, \<open>device-observation-engine.ts\<close> merges the observation into the device's state
  under an authority policy, \<open>device-observation-pipeline.ts\<close> composes the two (all under
  \<open>libs/domain-devices/src/lib/\<close>).  Inputs whose shape the code tests are \<open>jval\<close>.  A read of an
  inherited property such as \<open>fields.toString\<close> yields a function whose \<open>orderAt\<close> is undefined and is
  then overwritten, so a missing own field and an inherited one act alike.

  The lemmas give the merged state in closed form: for every field the newest authorised candidate,
  which makes the state independent of the order of arrival; and the provenance of every field the
  pipeline writes.
\<close>

subsection \<open>Data of the engine\<close>

record incoming_observation =
  io_deviceId :: jstr
  io_sourceId :: jstr
  io_evidenceId :: "jstr option"
  io_receivedAt :: jstr
  io_measuredAt :: "jstr option"
  io_values :: jval

record authority_policy =
  ap_deviceId :: jstr
  ap_allowedSources :: jval

record observed_field =
  of_value :: jval
  of_sourceId :: jstr
  of_evidenceId :: "jstr option"
  of_receivedAt :: jstr
  of_measuredAt :: "jstr option"
  of_orderAt :: jstr

record observation_state =
  os_deviceId :: jstr
  os_fields :: "observed_field jobj"

datatype observation_reason = Accepted | InvalidObservation | StaleObservation | SourceNotAuthorized
  | InvalidPolicy

fun observation_reason_str :: "observation_reason \<Rightarrow> jstr" where
  "observation_reason_str Accepted = js ''accepted''"
| "observation_reason_str InvalidObservation = js ''invalid_observation''"
| "observation_reason_str StaleObservation = js ''stale_observation''"
| "observation_reason_str SourceNotAuthorized = js ''source_not_authorized''"
| "observation_reason_str InvalidPolicy = js ''invalid_policy''"

record observation_decision =
  od_accepted :: bool
  od_reason :: observation_reason
  od_updatedKeys :: "jstr list"
  od_ignoredKeys :: "jstr list"
  od_state :: "observation_state option"

datatype freshness = Fresh | Stale | Unknown

subsection \<open>The engine\<close>

definition validDate :: "(jstr \<Rightarrow> int option) \<Rightarrow> jstr \<Rightarrow> bool" where
  "validDate host s \<longleftrightarrow> js_trim s \<noteq> [] \<and> date_parse host s \<noteq> None"

fun validValue :: "jval \<Rightarrow> bool" where
  "validValue (JNum x) = is_finite x"
| "validValue (JBool _) = True"
| "validValue (JStr _) = True"
| "validValue _ = False"

definition invalid :: "observation_state option \<Rightarrow> observation_decision" where
  "invalid st = \<lparr>od_accepted = False, od_reason = InvalidObservation, od_updatedKeys = [],
     od_ignoredKeys = [], od_state = st\<rparr>"

definition forbidden_keys :: "jstr list" where
  "forbidden_keys = [js ''__proto__'', js ''constructor'', js ''prototype'']"

definition policy_rejected :: "authority_policy option \<Rightarrow> incoming_observation \<Rightarrow> bool" where
  "policy_rejected pol ob = (case pol of None \<Rightarrow> True
     | Some p \<Rightarrow> ap_deviceId p \<noteq> io_deviceId ob \<or> plain_object (ap_allowedSources p) = None)"

definition header_rejected ::
  "(jstr \<Rightarrow> int option) \<Rightarrow> observation_state option \<Rightarrow> incoming_observation \<Rightarrow> bool" where
  "header_rejected host current ob \<longleftrightarrow>
     js_trim (io_deviceId ob) = [] \<or> js_trim (io_sourceId ob) = []
   \<or> \<not> validDate host (io_receivedAt ob)
   \<or> (case io_measuredAt ob of Some m \<Rightarrow> \<not> validDate host m | None \<Rightarrow> False)
   \<or> (case current of Some st \<Rightarrow> os_deviceId st \<noteq> io_deviceId ob | None \<Rightarrow> False)"

definition measured_in_future :: "(jstr \<Rightarrow> int option) \<Rightarrow> incoming_observation \<Rightarrow> bool" where
  "measured_in_future host ob = (case io_measuredAt ob of
     Some m \<Rightarrow> time_less (date_parse host (io_receivedAt ob)) (date_parse host m) | None \<Rightarrow> False)"

definition bad_entry :: "jstr \<times> jval \<Rightarrow> bool" where
  "bad_entry e \<longleftrightarrow> js_trim (fst e) = [] \<or> fst e \<in> set forbidden_keys \<or> \<not> validValue (snd e)"

definition orderAt :: "incoming_observation \<Rightarrow> jstr" where
  "orderAt ob = (case io_measuredAt ob of Some m \<Rightarrow> m | None \<Rightarrow> io_receivedAt ob)"

definition source_allowed :: "jval jobj \<Rightarrow> jstr \<Rightarrow> jstr \<Rightarrow> bool" where
  "source_allowed allowedBy source key =
     (case array_items (own allowedBy key) of None \<Rightarrow> False | Some xs \<Rightarrow> JStr source \<in> set xs)"

definition new_field :: "incoming_observation \<Rightarrow> jval \<Rightarrow> observed_field" where
  "new_field ob v =
     \<lparr>of_value = v, of_sourceId = io_sourceId ob, of_evidenceId = io_evidenceId ob,
      of_receivedAt = io_receivedAt ob, of_measuredAt = io_measuredAt ob, of_orderAt = orderAt ob\<rparr>"

text \<open>The local variables of the loop over the observed entries.\<close>

record merge =
  mg_fields :: "observed_field jobj"
  mg_updated :: "jstr list"
  mg_ignored :: "jstr list"
  mg_unauthorized :: "jstr list"

definition merge_entry ::
  "(jstr \<Rightarrow> int option) \<Rightarrow> jval jobj \<Rightarrow> incoming_observation \<Rightarrow> merge \<Rightarrow> jstr \<times> jval \<Rightarrow> merge" where
  "merge_entry host allowedBy ob m e =
     (let (key, v) = e in
      if \<not> source_allowed allowedBy (io_sourceId ob) key
      then m\<lparr>mg_unauthorized := mg_unauthorized m @ [key], mg_ignored := mg_ignored m @ [key]\<rparr>
      else if (case obj_get (mg_fields m) key of
                 Some previous \<Rightarrow> time_le (date_parse host (orderAt ob)) (date_parse host (of_orderAt previous))
               | None \<Rightarrow> False)
      then m\<lparr>mg_ignored := mg_ignored m @ [key]\<rparr>
      else m\<lparr>mg_fields := obj_put (mg_fields m) key (new_field ob v), mg_updated := mg_updated m @ [key]\<rparr>)"

definition merge_entries ::
  "(jstr \<Rightarrow> int option) \<Rightarrow> jval jobj \<Rightarrow> incoming_observation \<Rightarrow> observation_state option \<Rightarrow> jval jobj \<Rightarrow> merge" where
  "merge_entries host allowedBy ob current es =
     foldl (merge_entry host allowedBy ob)
       \<lparr>mg_fields = (case current of Some st \<Rightarrow> os_fields st | None \<Rightarrow> []),
        mg_updated = [], mg_ignored = [], mg_unauthorized = []\<rparr> es"

definition processDeviceObservation ::
  "(jstr \<Rightarrow> int option) \<Rightarrow> observation_state option \<Rightarrow> incoming_observation \<Rightarrow> authority_policy option
    \<Rightarrow> observation_decision" where
  "processDeviceObservation host current ob pol =
     (if policy_rejected pol ob
      then \<lparr>od_accepted = False, od_reason = InvalidPolicy, od_updatedKeys = [], od_ignoredKeys = [],
            od_state = current\<rparr>
      else if header_rejected host current ob then invalid current
      else if measured_in_future host ob then invalid current
      else case plain_object (io_values ob) of
        None \<Rightarrow> invalid current
      | Some es \<Rightarrow>
          if es = [] \<or> list_ex bad_entry es then invalid current
          else let allowedBy = (case pol of Some p \<Rightarrow> the (plain_object (ap_allowedSources p)) | None \<Rightarrow> []);
                   m = merge_entries host allowedBy ob current es
               in \<lparr>od_accepted = (mg_updated m \<noteq> []),
                   od_reason = (if mg_updated m \<noteq> [] then Accepted
                                else if mg_unauthorized m \<noteq> [] then SourceNotAuthorized
                                else StaleObservation),
                   od_updatedKeys = mg_updated m, od_ignoredKeys = mg_ignored m,
                   od_state = Some \<lparr>os_deviceId = io_deviceId ob, os_fields = mg_fields m\<rparr>\<rparr>)"

definition observationFreshness ::
  "(jstr \<Rightarrow> int option) \<Rightarrow> observed_field \<Rightarrow> jstr \<Rightarrow> jnum \<Rightarrow> freshness" where
  "observationFreshness host f now maxAgeMs =
     (if \<not> validDate host now \<or> \<not> is_finite maxAgeMs \<or> jless maxAgeMs (Fin 0) then Unknown
      else let age = jsub (time_num (date_parse host now)) (time_num (date_parse host (of_receivedAt f)))
           in if \<not> is_finite age \<or> jless age (Fin 0) then Unknown
              else if jle age maxAgeMs then Fresh else Stale)"

subsection \<open>The observation profile\<close>

record approved_binding =
  ab_deviceId :: jval
  ab_sourceId :: jval
  ab_selector :: jval
  ab_fields :: jval

record ingress_context =
  ic_selector :: jstr
  ic_receivedAt :: jstr
  ic_evidenceId :: "jstr option"

datatype decode_reason = Decoded | SelectorMismatch | InvalidBinding | InvalidPayload | NoValidMeasurements

fun decode_reason_str :: "decode_reason \<Rightarrow> jstr" where
  "decode_reason_str Decoded = js ''decoded''"
| "decode_reason_str SelectorMismatch = js ''selector_mismatch''"
| "decode_reason_str InvalidBinding = js ''invalid_binding''"
| "decode_reason_str InvalidPayload = js ''invalid_payload''"
| "decode_reason_str NoValidMeasurements = js ''no_valid_measurements''"

record decode_result =
  dc_accepted :: bool
  dc_reason :: decode_reason
  dc_observation :: "incoming_observation option"
  dc_rejectedFields :: "jstr list"

definition rejected :: "decode_reason \<Rightarrow> jstr list \<Rightarrow> decode_result" where
  "rejected r fs = \<lparr>dc_accepted = False, dc_reason = r, dc_observation = None, dc_rejectedFields = fs\<rparr>"

definition validKey :: "jstr \<Rightarrow> bool" where
  "validKey k \<longleftrightarrow> js_trim k \<noteq> [] \<and> k \<notin> set forbidden_keys"

text \<open>A mapping that is an array has no \<open>rawKey\<close>, so only plain objects pass.\<close>

definition valid_mapping :: "jval \<Rightarrow> bool" where
  "valid_mapping v = (case plain_object v of None \<Rightarrow> False
     | Some ob \<Rightarrow> (case string_of (own ob (js ''rawKey'')) of None \<Rightarrow> False | Some rk \<Rightarrow> validKey rk)
         \<and> own ob (js ''type'') \<in> {JStr (js ''number''), JStr (js ''boolean''), JStr (js ''string'')})"

definition validBinding :: "approved_binding \<Rightarrow> bool" where
  "validBinding b \<longleftrightarrow> filled_string (ab_deviceId b) \<and> filled_string (ab_sourceId b) \<and> filled_string (ab_selector b)
     \<and> (case plain_object (ab_fields b) of None \<Rightarrow> False
        | Some es \<Rightarrow> es \<noteq> [] \<and> list_all (\<lambda>(k, m). validKey k \<and> valid_mapping m) es)"

definition decodeValue :: "jval \<Rightarrow> jval \<Rightarrow> jval option" where
  "decodeValue v ty =
     (if ty = JStr (js ''number'')
      then (case v of JNum x \<Rightarrow> if is_finite x then Some v else None | _ \<Rightarrow> None)
      else if ty = JStr (js ''boolean'') then (case v of JBool _ \<Rightarrow> Some v | _ \<Rightarrow> None)
      else (case v of JStr _ \<Rightarrow> Some v | _ \<Rightarrow> None))"

definition text_of :: "jval \<Rightarrow> jstr" where
  "text_of v = (case string_of v of Some s \<Rightarrow> s | None \<Rightarrow> [])"

definition mapped_value :: "jval jobj \<Rightarrow> jval \<Rightarrow> jval option" where
  "mapped_value raw mapping =
     (let m = (case plain_object mapping of Some ob \<Rightarrow> ob | None \<Rightarrow> [])
      in decodeValue (own raw (text_of (own m (js ''rawKey'')))) (own m (js ''type'')))"

definition decode_field :: "jval jobj \<Rightarrow> jval jobj \<times> jstr list \<Rightarrow> jstr \<times> jval \<Rightarrow> jval jobj \<times> jstr list" where
  "decode_field raw acc e =
     (let (field, mapping) = e
      in case mapped_value raw mapping of
           None \<Rightarrow> (fst acc, snd acc @ [field])
         | Some v \<Rightarrow> (obj_put (fst acc) field v, snd acc))"

definition decodeObservationProfile :: "approved_binding \<Rightarrow> ingress_context \<Rightarrow> jval \<Rightarrow> decode_result" where
  "decodeObservationProfile b c payload =
     (if \<not> validBinding b then rejected InvalidBinding []
      else if JStr (ic_selector c) \<noteq> ab_selector b then rejected SelectorMismatch []
      else case plain_object payload of
        None \<Rightarrow> rejected InvalidPayload []
      | Some raw \<Rightarrow>
          let (values, rej) = foldl (decode_field raw) ([], []) (the (plain_object (ab_fields b)))
          in if values = [] then rejected NoValidMeasurements rej
             else \<lparr>dc_accepted = True, dc_reason = Decoded,
                   dc_observation = Some
                     \<lparr>io_deviceId = text_of (ab_deviceId b), io_sourceId = text_of (ab_sourceId b),
                      io_evidenceId = ic_evidenceId c, io_receivedAt = ic_receivedAt c,
                      io_measuredAt = None, io_values = JObj values\<rparr>,
                   dc_rejectedFields = rej\<rparr>)"

subsection \<open>The pipeline\<close>

record pipeline_input =
  pi_binding :: "approved_binding option"
  pi_policy :: "authority_policy option"
  pi_context :: ingress_context
  pi_payload :: jval
  pi_currentState :: "observation_state option"

datatype pipeline_stage = BindingStage | DecodingStage | ObservationStage

record pipeline_result =
  rs_accepted :: bool
  rs_stage :: pipeline_stage
  rs_reason :: jstr
  rs_deviceId :: "jstr option"
  rs_updatedKeys :: "jstr list"
  rs_ignoredKeys :: "jstr list"
  rs_rejectedFields :: "jstr list"
  rs_state :: "observation_state option"

definition processObservationPipeline :: "(jstr \<Rightarrow> int option) \<Rightarrow> pipeline_input \<Rightarrow> pipeline_result" where
  "processObservationPipeline host i =
     (case (pi_binding i, pi_policy i) of
        (Some b, Some p) \<Rightarrow>
          (let d = decodeObservationProfile b (pi_context i) (pi_payload i)
           in case (dc_accepted d, dc_observation d) of
                (True, Some ob) \<Rightarrow>
                  (let r = processDeviceObservation host (pi_currentState i) ob (Some p)
                   in \<lparr>rs_accepted = od_accepted r, rs_stage = ObservationStage,
                       rs_reason = observation_reason_str (od_reason r), rs_deviceId = Some (io_deviceId ob),
                       rs_updatedKeys = od_updatedKeys r, rs_ignoredKeys = od_ignoredKeys r,
                       rs_rejectedFields = dc_rejectedFields d, rs_state = od_state r\<rparr>)
              | _ \<Rightarrow> \<lparr>rs_accepted = False, rs_stage = DecodingStage, rs_reason = decode_reason_str (dc_reason d),
                       rs_deviceId = Some (text_of (ab_deviceId b)), rs_updatedKeys = [], rs_ignoredKeys = [],
                       rs_rejectedFields = dc_rejectedFields d, rs_state = pi_currentState i\<rparr>)
      | _ \<Rightarrow> \<lparr>rs_accepted = False, rs_stage = BindingStage, rs_reason = js ''approved_binding_required'',
               rs_deviceId = None, rs_updatedKeys = [], rs_ignoredKeys = [], rs_rejectedFields = [],
               rs_state = pi_currentState i\<rparr>)"

subsection \<open>What one observation does to a field\<close>

definition stored_field :: "observation_state option \<Rightarrow> jstr \<Rightarrow> observed_field option" where
  "stored_field st k = (case st of Some s \<Rightarrow> obj_get (os_fields s) k | None \<Rightarrow> None)"

text \<open>
  The candidate an observation offers for field \<open>k\<close> under a policy, with its time: nothing when the
  observation is rejected as a whole, has no value for \<open>k\<close>, or its source is not authorised.
\<close>

definition well_formed :: "(jstr \<Rightarrow> int option) \<Rightarrow> authority_policy \<Rightarrow> incoming_observation \<Rightarrow> bool" where
  "well_formed host p ob \<longleftrightarrow> \<not> policy_rejected (Some p) ob \<and> \<not> header_rejected host None ob
     \<and> \<not> measured_in_future host ob
     \<and> (case plain_object (io_values ob) of None \<Rightarrow> False | Some es \<Rightarrow> es \<noteq> [] \<and> \<not> list_ex bad_entry es)"

definition candidate ::
  "(jstr \<Rightarrow> int option) \<Rightarrow> authority_policy \<Rightarrow> jstr \<Rightarrow> incoming_observation \<Rightarrow> (int \<times> observed_field) option" where
  "candidate host p k ob =
     (if \<not> well_formed host p ob then None
      else case (plain_object (io_values ob), plain_object (ap_allowedSources p), date_parse host (orderAt ob)) of
        (Some es, Some allowedBy, Some t) \<Rightarrow>
          (case obj_get es k of
             Some v \<Rightarrow> if source_allowed allowedBy (io_sourceId ob) k then Some (t, new_field ob v) else None
           | None \<Rightarrow> None)
      | _ \<Rightarrow> None)"

text \<open>A field with the time it is ordered by.\<close>

definition timed :: "(jstr \<Rightarrow> int option) \<Rightarrow> observed_field option \<Rightarrow> (int \<times> observed_field) option" where
  "timed host f = (case f of None \<Rightarrow> None
     | Some x \<Rightarrow> map_option (\<lambda>t. (t, x)) (date_parse host (of_orderAt x)))"

definition newer :: "(int \<times> 'a) option \<Rightarrow> (int \<times> 'a) option \<Rightarrow> (int \<times> 'a) option" where
  "newer old c = (case c of None \<Rightarrow> old | Some new \<Rightarrow>
     (case old of None \<Rightarrow> Some new | Some o' \<Rightarrow> if fst new \<le> fst o' then old else Some new))"

definition orderable :: "(jstr \<Rightarrow> int option) \<Rightarrow> observed_field option \<Rightarrow> bool" where
  "orderable host f = (case f of None \<Rightarrow> True | Some x \<Rightarrow> date_parse host (of_orderAt x) \<noteq> None)"

lemma merge_entry_field:
  assumes "orderable host (obj_get (mg_fields m) k)" "date_parse host (orderAt ob) = Some t"
  shows "orderable host (obj_get (mg_fields (merge_entry host ab ob m (key, v))) k)
    \<and> timed host (obj_get (mg_fields (merge_entry host ab ob m (key, v))) k)
      = newer (timed host (obj_get (mg_fields m) k))
          (if key = k \<and> source_allowed ab (io_sourceId ob) k then Some (t, new_field ob v) else None)"
  using assms
  by (cases "obj_get (mg_fields m) k")
    (auto simp: merge_entry_def newer_def timed_def orderable_def store_simps new_field_def time_le_def
      split: option.splits if_splits)

lemma newer_assoc_le: "fst c \<le> t \<Longrightarrow> newer (newer old (Some (t, x))) (Some c) = newer old (Some (t, x))"
  by (auto simp: newer_def split: option.splits)

lemma newer_None [simp]: "newer old None = old"
  by (simp add: newer_def)

lemma merge_entries_field:
  assumes "orderable host (obj_get (mg_fields m) k)" "date_parse host (orderAt ob) = Some t"
  shows "orderable host (obj_get (mg_fields (foldl (merge_entry host ab ob) m es)) k)
    \<and> timed host (obj_get (mg_fields (foldl (merge_entry host ab ob) m es)) k)
      = newer (timed host (obj_get (mg_fields m) k))
          (case obj_get es k of None \<Rightarrow> None
           | Some v \<Rightarrow> if source_allowed ab (io_sourceId ob) k then Some (t, new_field ob v) else None)"
  using assms(1)
proof (induction es arbitrary: m)
  case Nil
  then show ?case by (simp add: obj_get_def)
next
  case (Cons e es)
  obtain key v where e: "e = (key, v)" by (cases e)
  note step = merge_entry_field [OF Cons.prems assms(2), of ab key v]
  note IH = Cons.IH [OF conjunct1 [OF step]]
  show ?case
    using IH step by (auto simp: e obj_get_def newer_assoc_le split: option.splits)
qed

text \<open>\<open>Date.parse\<close> of the order timestamp of a well-formed observation is a number.\<close>

lemma well_formed_order: "well_formed host p ob \<Longrightarrow> \<exists>t. date_parse host (orderAt ob) = Some t"
  by (auto simp: well_formed_def header_rejected_def validDate_def orderAt_def split: option.splits)

definition state_of :: "jstr \<Rightarrow> observation_state option \<Rightarrow> bool" where
  "state_of dev st = (case st of None \<Rightarrow> True | Some s \<Rightarrow> os_deviceId s = dev)"

lemma process_unless_well_formed:
  "state_of (ap_deviceId p) st \<Longrightarrow> \<not> well_formed host p ob
    \<Longrightarrow> od_state (processDeviceObservation host st ob (Some p)) = st"
  by (auto simp: processDeviceObservation_def well_formed_def header_rejected_def invalid_def state_of_def
      policy_rejected_def Let_def split: option.splits)

lemma process_well_formed:
  assumes "state_of (ap_deviceId p) st" "well_formed host p ob"
    and "plain_object (io_values ob) = Some es" "plain_object (ap_allowedSources p) = Some ab"
  shows "od_state (processDeviceObservation host st ob (Some p))
    = Some \<lparr>os_deviceId = io_deviceId ob, os_fields = mg_fields (merge_entries host ab ob st es)\<rparr>"
proof -
  have h: "\<not> header_rejected host st ob" "\<not> policy_rejected (Some p) ob" "\<not> measured_in_future host ob"
    "es \<noteq> []" "\<not> list_ex bad_entry es"
    using assms by (auto simp: well_formed_def header_rejected_def policy_rejected_def state_of_def split: option.splits)
  show ?thesis unfolding processDeviceObservation_def using h assms(3,4) by (simp add: Let_def)
qed

lemma process_field:
  fixes host st p k ob
  assumes "state_of (ap_deviceId p) st" "orderable host (stored_field st k)"
  defines "st' \<equiv> od_state (processDeviceObservation host st ob (Some p))"
  shows "state_of (ap_deviceId p) st'" and "orderable host (stored_field st' k)"
    and "timed host (stored_field st' k) = newer (timed host (stored_field st k)) (candidate host p k ob)"
proof -
  have "state_of (ap_deviceId p) st' \<and> orderable host (stored_field st' k)
    \<and> timed host (stored_field st' k) = newer (timed host (stored_field st k)) (candidate host p k ob)"
  proof (cases "well_formed host p ob")
    case False
    then show ?thesis
      using assms process_unless_well_formed [OF assms(1) False] by (simp add: candidate_def)
  next
    case True
    then obtain es ab t where
      o: "plain_object (io_values ob) = Some es" "plain_object (ap_allowedSources p) = Some ab"
        "date_parse host (orderAt ob) = Some t" "ap_deviceId p = io_deviceId ob"
      using well_formed_order [OF True] by (auto simp: well_formed_def policy_rejected_def split: option.splits)
    have s: "st' = Some \<lparr>os_deviceId = io_deviceId ob, os_fields = mg_fields (merge_entries host ab ob st es)\<rparr>"
      unfolding st'_def by (rule process_well_formed [OF assms(1) True o(1,2)])
    let ?m = "\<lparr>mg_fields = (case st of Some st \<Rightarrow> os_fields st | None \<Rightarrow> []),
        mg_updated = [], mg_ignored = [], mg_unauthorized = []\<rparr>"
    have m: "obj_get (mg_fields ?m) k = stored_field st k"
      by (simp add: stored_field_def store_simps split: option.split)
    have c: "candidate host p k ob = (case obj_get es k of None \<Rightarrow> None
        | Some v \<Rightarrow> if source_allowed ab (io_sourceId ob) k then Some (t, new_field ob v) else None)"
      using True o by (simp add: candidate_def split: option.splits)
    show ?thesis
      using merge_entries_field [of host ?m k ob t ab es] assms(2) o m
      by (simp add: s c stored_field_def state_of_def merge_entries_def)
  qed
  then show "state_of (ap_deviceId p) st'" "orderable host (stored_field st' k)"
    "timed host (stored_field st' k) = newer (timed host (stored_field st k)) (candidate host p k ob)"
    by simp_all
qed

subsection \<open>Any sequence of observations\<close>

definition observe_all ::
  "(jstr \<Rightarrow> int option) \<Rightarrow> authority_policy \<Rightarrow> incoming_observation list \<Rightarrow> observation_state option" where
  "observe_all host p obs =
     foldl (\<lambda>st ob. od_state (processDeviceObservation host st ob (Some p))) None obs"

lemma observe_all_field:
  "state_of (ap_deviceId p) (observe_all host p obs) \<and> orderable host (stored_field (observe_all host p obs) k)
   \<and> timed host (stored_field (observe_all host p obs) k) = foldl newer None (map (candidate host p k) obs)"
proof (induction obs rule: rev_induct)
  case Nil
  then show ?case by (simp add: observe_all_def state_of_def stored_field_def orderable_def timed_def)
next
  case (snoc ob obs)
  have e: "observe_all host p (obs @ [ob])
      = od_state (processDeviceObservation host (observe_all host p obs) ob (Some p))"
    by (simp add: observe_all_def)
  show ?case
    using process_field [of p "observe_all host p obs" host k ob] snoc unfolding e by simp
qed

lemma orderable_timed: "orderable host f \<Longrightarrow> f = map_option snd (timed host f)"
  by (auto simp: orderable_def timed_def split: option.splits)

text \<open>The newest of a list of timed values, the first of equals.\<close>

definition newest :: "(int \<times> 'a) list \<Rightarrow> (int \<times> 'a) option" where
  "newest cs = find (\<lambda>c. list_all (\<lambda>c'. fst c' \<le> fst c) cs) cs"

lemma newest_None: "newest cs = None \<longleftrightarrow> cs = []"
proof (cases "cs = []")
  case False
  then have "Max (fst ` set cs) \<in> fst ` set cs" by simp
  then obtain c where "c \<in> set cs" "fst c = Max (fst ` set cs)" by force
  moreover have "fst c' \<le> Max (fst ` set cs)" if "c' \<in> set cs" for c' using that by simp
  ultimately have "\<exists>c \<in> set cs. \<forall>c' \<in> set cs. fst c' \<le> fst c" by metis
  then show ?thesis using False by (force simp: newest_def find_None_iff list_all_iff)
qed (simp add: newest_def)

lemma newest_Some: "newest cs = Some c \<Longrightarrow> c \<in> set cs \<and> (\<forall>c' \<in> set cs. fst c' \<le> fst c)"
  unfolding newest_def by (drule find_SomeD) (simp add: list_all_iff)

lemma newest_snoc: "newest (cs @ [c]) = newer (newest cs) (Some c)"
proof (cases "newest cs")
  case None
  then have "cs = []" by (simp add: newest_None)
  then show ?thesis by (simp add: newest_def newer_def)
next
  case (Some m)
  note m = newest_Some [OF Some]
  let ?P = "\<lambda>cs c. list_all (\<lambda>c'. fst c' \<le> fst c) cs"
  show ?thesis
  proof (cases "fst c \<le> fst m")
    case True
    have "find (?P (cs @ [c])) cs = find (?P cs) cs"
      using m True by (intro find_cong) (auto simp: list_all_iff intro: order_trans)
    then show ?thesis using Some True by (simp add: newest_def find_snoc newer_def)
  next
    case False
    have "find (?P (cs @ [c])) cs = None"
      using m False by (auto simp: find_None_iff list_all_iff)
    moreover have "?P (cs @ [c]) c" using m False by (auto simp: list_all_iff)
    ultimately show ?thesis using Some False by (simp add: newest_def find_snoc newer_def)
  qed
qed

lemma foldl_newer: "foldl newer None (map f obs) = newest (List.map_filter f obs)"
proof (induction obs rule: rev_induct)
  case (snoc ob obs)
  then show ?case
    by (cases "f ob") (simp_all add: List.map_filter_def newest_snoc)
qed (simp add: newest_def List.map_filter_def)

lemma newest_perm:
  assumes "mset cs = mset ds" "distinct (map fst cs)"
  shows "newest cs = newest ds"
proof (cases "newest cs")
  case None
  then show ?thesis using assms(1) by (simp add: newest_None)
next
  case (Some c)
  then have "cs \<noteq> []" by (auto simp: newest_def)
  then have "ds \<noteq> []" using assms(1) by auto
  then obtain d where d: "newest ds = Some d" using newest_None by blast
  have s: "set cs = set ds" using assms(1) by (rule mset_eq_setD)
  have "fst c = fst d" "c \<in> set cs" "d \<in> set cs"
    using newest_Some [OF Some] newest_Some [OF d] s by (auto intro: order_antisym)
  then have "c = d" using assms(2) by (metis eq_key_imp_eq_value prod.collapse)
  with Some d show ?thesis by simp
qed

lemma mset_map_filter: "mset xs = mset ys \<Longrightarrow> mset (List.map_filter f xs) = mset (List.map_filter f ys)"
  by (simp add: List.map_filter_def)

text \<open>
  C6.  After any sequence of observations of a device, each field holds the newest of the candidates
  the observations offered for it (the first to arrive among those of equal time), and nothing when
  none was offered: rejected observations, unauthorised sources and stale values leave no trace.
\<close>

theorem newest_authorised_value_wins:
  "stored_field (observe_all host p obs) k
     = map_option snd (find (\<lambda>c. list_all (\<lambda>c'. fst c' \<le> fst c) (List.map_filter (candidate host p k) obs))
         (List.map_filter (candidate host p k) obs))"
  using observe_all_field [of p host obs k] orderable_timed
  by (simp add: foldl_newer newest_def) metis

text \<open>
  C7.  The order of arrival does not matter: two sequences of the same observations leave the same
  field, provided the candidates for it carry distinct times.
\<close>

theorem arrival_order_irrelevant:
  assumes "mset obs = mset obs'" "distinct (map fst (List.map_filter (candidate host p k) obs))"
  shows "stored_field (observe_all host p obs) k = stored_field (observe_all host p obs') k"
proof -
  have "newest (List.map_filter (candidate host p k) obs) = newest (List.map_filter (candidate host p k) obs')"
    using assms by (intro newest_perm mset_map_filter)
  then show ?thesis
    using observe_all_field [of p host obs k] observe_all_field [of p host obs' k]
      orderable_timed [of host "stored_field (observe_all host p obs) k"]
      orderable_timed [of host "stored_field (observe_all host p obs') k"]
    by (simp add: foldl_newer)
qed

subsection \<open>What the pipeline writes\<close>

lemma merge_entry_source:
  assumes "obj_get (mg_fields (merge_entry host ab ob m (key, v))) k = Some f" "obj_get (mg_fields m) k \<noteq> Some f"
  shows "key = k \<and> f = new_field ob v \<and> source_allowed ab (io_sourceId ob) k
    \<and> (case obj_get (mg_fields m) k of None \<Rightarrow> True
       | Some old \<Rightarrow> \<not> time_le (date_parse host (orderAt ob)) (date_parse host (of_orderAt old)))"
  using assms by (auto simp: merge_entry_def store_simps split: if_splits option.splits)

text \<open>
  The first entry that changes a field decides it: a later one of the same observation has the same
  time and is ignored.
\<close>

lemma merge_entries_source:
  assumes "obj_get (mg_fields (foldl (merge_entry host ab ob) m es)) k = Some f"
    and "obj_get (mg_fields m) k \<noteq> Some f" and t: "date_parse host (orderAt ob) = Some t"
  shows "\<exists>v. (k, v) \<in> set es \<and> f = new_field ob v \<and> source_allowed ab (io_sourceId ob) k
    \<and> (case obj_get (mg_fields m) k of None \<Rightarrow> True
       | Some old \<Rightarrow> \<not> time_le (date_parse host (orderAt ob)) (date_parse host (of_orderAt old)))"
  using assms(1,2)
proof (induction es arbitrary: f rule: rev_induct)
  case (snoc e es)
  obtain key v where e: "e = (key, v)" by (cases e)
  let ?m = "foldl (merge_entry host ab ob) m es"
  show ?case
  proof (cases "obj_get (mg_fields ?m) k = Some f")
    case True
    from snoc.IH [OF this snoc.prems(2)] show ?thesis by auto
  next
    case False
    from snoc.prems(1) False
    have s: "key = k" "f = new_field ob v" "source_allowed ab (io_sourceId ob) k"
      and le: "case obj_get (mg_fields ?m) k of None \<Rightarrow> True
        | Some old \<Rightarrow> \<not> time_le (date_parse host (orderAt ob)) (date_parse host (of_orderAt old))"
      using merge_entry_source [of host ab ob ?m key v k f] by (simp_all add: e)
    have "obj_get (mg_fields ?m) k = obj_get (mg_fields m) k"
    proof (rule ccontr)
      assume n: "obj_get (mg_fields ?m) k \<noteq> obj_get (mg_fields m) k"
      have keeps: "obj_get (mg_fields m) k \<noteq> None \<Longrightarrow> obj_get (mg_fields (foldl (merge_entry host ab ob) m xs)) k \<noteq> None"
        for xs by (induction xs rule: rev_induct) (auto simp: merge_entry_def store_simps split: prod.splits)
      obtain g where g: "obj_get (mg_fields ?m) k = Some g"
        using n keeps [of es] by (cases "obj_get (mg_fields ?m) k") auto
      with n obtain w where "g = new_field ob w"
        using snoc.IH [of g] by auto
      then have "of_orderAt g = orderAt ob" by (simp add: new_field_def)
      with le g t show False by (simp add: time_le_def)
    qed
    with s le e show ?thesis by auto
  qed
qed simp

lemma process_source:
  assumes "stored_field (od_state (processDeviceObservation host st ob (Some p))) k = Some f"
    and "stored_field st k \<noteq> Some f"
  shows "\<exists>es ab v. io_values ob = JObj es \<and> ap_allowedSources p = JObj ab \<and> ap_deviceId p = io_deviceId ob
    \<and> (k, v) \<in> set es \<and> validValue v \<and> f = new_field ob v \<and> source_allowed ab (io_sourceId ob) k
    \<and> (case stored_field st k of None \<Rightarrow> True
       | Some old \<Rightarrow> \<not> time_le (date_parse host (orderAt ob)) (date_parse host (of_orderAt old)))"
proof -
  have ok: "\<not> policy_rejected (Some p) ob" "\<not> header_rejected host st ob"
    using assms by (auto simp: processDeviceObservation_def invalid_def split: if_splits)
  from ok obtain ab where ab: "ap_allowedSources p = JObj ab" "ap_deviceId p = io_deviceId ob"
    by (auto simp: policy_rejected_def)
  from ok obtain t where t: "date_parse host (orderAt ob) = Some t"
    by (auto simp: header_rejected_def validDate_def orderAt_def split: option.splits)
  from assms ok obtain es where es: "io_values ob = JObj es" "\<not> list_ex bad_entry es"
    "od_state (processDeviceObservation host st ob (Some p))
      = Some \<lparr>os_deviceId = io_deviceId ob, os_fields = mg_fields (merge_entries host ab ob st es)\<rparr>"
    by (auto simp: processDeviceObservation_def invalid_def ab Let_def split: if_splits option.splits)
  let ?m = "\<lparr>mg_fields = (case st of Some st \<Rightarrow> os_fields st | None \<Rightarrow> []),
        mg_updated = [], mg_ignored = [], mg_unauthorized = []\<rparr>"
  have m: "obj_get (mg_fields ?m) k = stored_field st k"
    by (simp add: stored_field_def store_simps split: option.split)
  have "obj_get (mg_fields (foldl (merge_entry host ab ob) ?m es)) k = Some f"
    using assms(1) es(3) by (simp add: stored_field_def merge_entries_def)
  from merge_entries_source [OF this _ t] obtain v
    where v: "(k, v) \<in> set es" "f = new_field ob v" "source_allowed ab (io_sourceId ob) k"
      "case stored_field st k of None \<Rightarrow> True
       | Some old \<Rightarrow> \<not> time_le (date_parse host (orderAt ob)) (date_parse host (of_orderAt old))"
    using assms(2) unfolding m by auto
  moreover have "validValue v" using v(1) es(2) by (auto simp: list_ex_iff bad_entry_def)
  ultimately show ?thesis using es(1) ab by auto
qed

lemma decode_fields_values:
  "(k, v) \<in> set (fst (foldl (decode_field raw) acc es))
    \<Longrightarrow> (k, v) \<in> set (fst acc) \<or> (\<exists>m. (k, m) \<in> set es \<and> mapped_value raw m = Some v)"
proof (induction es arbitrary: acc)
  case (Cons e es)
  have put: "(k, v) \<in> set (obj_put ob f w) \<Longrightarrow> (k, v) \<in> set ob \<or> (k = f \<and> v = w)" for ob f and w :: jval
    using set_obj_put [of ob f w] by auto
  obtain f m where e: "e = (f, m)" by (cases e)
  from Cons.IH [of "decode_field raw acc e"] Cons.prems show ?case
    by (auto simp: e decode_field_def dest!: put split: option.splits)
qed simp

lemma decode_Some:
  assumes "dc_observation (decodeObservationProfile b c payload) = Some ob"
  obtains es raw where "validBinding b" "ab_selector b = JStr (ic_selector c)" "ab_fields b = JObj es"
    "payload = JObj raw"
    "ob = \<lparr>io_deviceId = text_of (ab_deviceId b), io_sourceId = text_of (ab_sourceId b),
           io_evidenceId = ic_evidenceId c, io_receivedAt = ic_receivedAt c,
           io_measuredAt = None, io_values = JObj (fst (foldl (decode_field raw) ([], []) es))\<rparr>"
    "dc_rejectedFields (decodeObservationProfile b c payload) = snd (foldl (decode_field raw) ([], []) es)"
proof -
  have v: "validBinding b" "ab_selector b = JStr (ic_selector c)"
    using assms by (auto simp: decodeObservationProfile_def rejected_def split: if_splits)
  then obtain es where es: "ab_fields b = JObj es"
    by (auto simp: validBinding_def split: option.splits)
  obtain raw where raw: "payload = JObj raw"
    using assms v by (auto simp: decodeObservationProfile_def rejected_def split: if_splits option.splits)
  obtain vs rej where f: "foldl (decode_field raw) ([], []) es = (vs, rej)" by fastforce
  show ?thesis
    using assms v es raw f by (intro that) (auto simp: decodeObservationProfile_def rejected_def split: if_splits)
qed

text \<open>
  C8.  Provenance of what the pipeline writes: a field whose stored value changes was mapped by the
  approved binding, read from the payload's own property with the declared type, carries the binding's
  source and the context's receive time and evidence, its source is authorised for the field by the
  policy of the same device, and a value it replaces is not of the same or a later time.  Nothing in
  the payload chooses the device, the source or the time.
\<close>

theorem pipeline_field_provenance:
  assumes "stored_field (rs_state (processObservationPipeline host i)) k = Some f"
    and "stored_field (pi_currentState i) k \<noteq> Some f"
  shows "\<exists>b p es m raw v ab. pi_binding i = Some b \<and> pi_policy i = Some p
    \<and> ab_selector b = JStr (ic_selector (pi_context i)) \<and> ap_deviceId p = text_of (ab_deviceId b)
    \<and> ab_fields b = JObj es \<and> (k, m) \<in> set es \<and> pi_payload i = JObj raw
    \<and> mapped_value raw m = Some v \<and> validValue v
    \<and> f = \<lparr>of_value = v, of_sourceId = text_of (ab_sourceId b), of_evidenceId = ic_evidenceId (pi_context i),
           of_receivedAt = ic_receivedAt (pi_context i), of_measuredAt = None,
           of_orderAt = ic_receivedAt (pi_context i)\<rparr>
    \<and> ap_allowedSources p = JObj ab \<and> source_allowed ab (text_of (ab_sourceId b)) k
    \<and> (case stored_field (pi_currentState i) k of None \<Rightarrow> True
       | Some old \<Rightarrow> \<not> time_le (date_parse host (ic_receivedAt (pi_context i))) (date_parse host (of_orderAt old)))"
proof -
  let ?c = "pi_context i"
  obtain b p ob where bp: "pi_binding i = Some b" "pi_policy i = Some p"
    and ob: "dc_observation (decodeObservationProfile b ?c (pi_payload i)) = Some ob"
    and st: "rs_state (processObservationPipeline host i)
      = od_state (processDeviceObservation host (pi_currentState i) ob (Some p))"
    using assms by (auto simp: processObservationPipeline_def Let_def split: option.splits bool.splits)
  from ob obtain es raw where d: "ab_selector b = JStr (ic_selector ?c)" "ab_fields b = JObj es"
    "pi_payload i = JObj raw"
    and o: "ob = \<lparr>io_deviceId = text_of (ab_deviceId b), io_sourceId = text_of (ab_sourceId b),
           io_evidenceId = ic_evidenceId ?c, io_receivedAt = ic_receivedAt ?c,
           io_measuredAt = None, io_values = JObj (fst (foldl (decode_field raw) ([], []) es))\<rparr>"
    by (rule decode_Some)
  obtain es' ab v where s': "io_values ob = JObj es'" "(k, v) \<in> set es'"
      and s: "ap_allowedSources p = JObj ab" "ap_deviceId p = io_deviceId ob" "validValue v" "f = new_field ob v"
        "source_allowed ab (io_sourceId ob) k"
        "case stored_field (pi_currentState i) k of None \<Rightarrow> True
         | Some old \<Rightarrow> \<not> time_le (date_parse host (orderAt ob)) (date_parse host (of_orderAt old))"
    using process_source [OF assms(1) [unfolded st] assms(2)] by blast
  have kv: "(k, v) \<in> set (fst (foldl (decode_field raw) ([], []) es))" using s' by (simp add: o)
  have ob_eqs: "io_deviceId ob = text_of (ab_deviceId b)" "io_sourceId ob = text_of (ab_sourceId b)"
    "orderAt ob = ic_receivedAt ?c"
    by (simp_all add: o orderAt_def)
  from decode_fields_values [OF kv] obtain m where "(k, m) \<in> set es" "mapped_value raw m = Some v" by auto
  moreover have "f = \<lparr>of_value = v, of_sourceId = text_of (ab_sourceId b), of_evidenceId = ic_evidenceId ?c,
      of_receivedAt = ic_receivedAt ?c, of_measuredAt = None, of_orderAt = ic_receivedAt ?c\<rparr>"
    by (simp add: s(4) new_field_def o orderAt_def)
  ultimately show ?thesis using bp d s(1-3,5,6) unfolding ob_eqs by blast
qed

subsection \<open>Every declared field is accounted for\<close>

lemma mset_keys_obj_put:
  "k \<notin> fst ` set ob \<Longrightarrow> mset (map fst (obj_put ob k v)) = add_mset k (mset (map fst ob))"
proof -
  have "mset (map fst (insert_index i k v xs)) = add_mset k (mset (map fst xs))" for i and xs :: "'a jobj"
    by (induction xs) (auto split: option.splits)
  then show "k \<notin> fst ` set ob \<Longrightarrow> ?thesis" by (auto simp: obj_put_def split: option.split)
qed

lemma decode_fields_keys:
  assumes "distinct (map fst es)" "fst ` set (fst acc) \<inter> fst ` set es = {}"
  shows "mset (map fst (fst (foldl (decode_field raw) acc es)) @ snd (foldl (decode_field raw) acc es))
    = mset (map fst (fst acc) @ snd acc @ map fst es)"
  using assms
proof (induction es arbitrary: acc)
  case (Cons e es)
  obtain f m where e: "e = (f, m)" by (cases e)
  show ?case
  proof (cases "mapped_value raw m")
    case None
    then show ?thesis
      using Cons.IH [of "decode_field raw acc e"] Cons.prems by (simp add: e decode_field_def)
  next
    case (Some v)
    then show ?thesis
      using Cons.IH [of "decode_field raw acc e"] Cons.prems
      by (simp add: e decode_field_def store_simps mset_keys_obj_put [simplified])
  qed
qed simp

lemma merge_entries_keys:
  "mset (mg_updated (foldl (merge_entry host ab ob) m es) @ mg_ignored (foldl (merge_entry host ab ob) m es))
   = mset (mg_updated m @ mg_ignored m @ map fst es)"
proof (induction es arbitrary: m)
  case (Cons e es)
  have "mset (mg_updated (merge_entry host ab ob m e) @ mg_ignored (merge_entry host ab ob m e))
      = add_mset (fst e) (mset (mg_updated m @ mg_ignored m))"
    by (cases e) (simp add: merge_entry_def)
  with Cons show ?case by simp
qed simp

lemma process_keys:
  assumes "od_accepted (processDeviceObservation host st ob pol)"
  shows "\<exists>es. io_values ob = JObj es \<and> mset (od_updatedKeys (processDeviceObservation host st ob pol)
      @ od_ignoredKeys (processDeviceObservation host st ob pol)) = mset (map fst es)"
  using assms merge_entries_keys
  by (auto simp: processDeviceObservation_def invalid_def Let_def merge_entries_def
      split: if_splits option.splits)

text \<open>
  C9.  An accepted pipeline run accounts for every field the binding declares exactly once: it is
  updated, ignored (unauthorised or stale) or rejected by the decoder.
\<close>

theorem pipeline_accounts_for_every_field:
  assumes "rs_accepted (processObservationPipeline host i)" "pi_binding i = Some b"
    and "ab_fields b = JObj es" "distinct (map fst es)"
  shows "mset (rs_updatedKeys (processObservationPipeline host i)
      @ rs_ignoredKeys (processObservationPipeline host i)
      @ rs_rejectedFields (processObservationPipeline host i)) = mset (map fst es)"
proof -
  let ?d = "decodeObservationProfile b (pi_context i) (pi_payload i)"
  from assms(1,2) obtain p ob where p: "pi_policy i = Some p" and ob: "dc_observation ?d = Some ob" "dc_accepted ?d"
    and acc: "od_accepted (processDeviceObservation host (pi_currentState i) ob (Some p))"
    by (auto simp: processObservationPipeline_def Let_def split: option.splits bool.splits)
  let ?r = "processDeviceObservation host (pi_currentState i) ob (Some p)"
  from ob(1) obtain raw where o: "io_values ob = JObj (fst (foldl (decode_field raw) ([], []) es))"
    and rej: "dc_rejectedFields ?d = snd (foldl (decode_field raw) ([], []) es)"
    using assms(3) by (elim decode_Some) simp
  have "mset (od_updatedKeys ?r @ od_ignoredKeys ?r)
      = mset (map fst (fst (foldl (decode_field raw) ([], []) es)))"
    using process_keys [OF acc] o by simp
  with decode_fields_keys [OF assms(4), of "([], [])" raw]
  have "mset (od_updatedKeys ?r @ od_ignoredKeys ?r @ dc_rejectedFields ?d) = mset (map fst es)"
    by (simp add: rej flip: add.assoc)
  then show ?thesis
    using assms(2) p ob by (simp add: processObservationPipeline_def Let_def)
qed

subsection \<open>Concrete instances\<close>

text \<open>A host that reads the length of a text as its time.\<close>

definition length_host :: "jstr \<Rightarrow> int option" where
  "length_host s = Some (int (length s))"

definition demo_binding :: approved_binding where
  "demo_binding =
     \<lparr>ab_deviceId = JStr (js ''meter''), ab_sourceId = JStr (js ''lab''), ab_selector = JStr (js ''topic''),
      ab_fields = JObj [(js ''power'', JObj [(js ''rawKey'', JStr (js ''p'')), (js ''type'', JStr (js ''number''))]),
                        (js ''relay'', JObj [(js ''rawKey'', JStr (js ''r'')), (js ''type'', JStr (js ''boolean''))])]\<rparr>"

definition demo_policy :: authority_policy where
  "demo_policy =
     \<lparr>ap_deviceId = js ''meter'',
      ap_allowedSources = JObj [(js ''power'', JArr [JStr (js ''lab'')])]\<rparr>"

definition demo_input :: pipeline_input where
  "demo_input =
     \<lparr>pi_binding = Some demo_binding, pi_policy = Some demo_policy,
      pi_context = \<lparr>ic_selector = js ''topic'', ic_receivedAt = js ''a'', ic_evidenceId = None\<rparr>,
      pi_payload = JObj [(js ''p'', JNum (Fin 7)), (js ''r'', JStr (js ''on''))], pi_currentState = None\<rparr>"

definition demo_observation :: "jstr \<Rightarrow> jnum \<Rightarrow> incoming_observation" where
  "demo_observation t x =
     \<lparr>io_deviceId = js ''meter'', io_sourceId = js ''lab'', io_evidenceId = None, io_receivedAt = t,
      io_measuredAt = None, io_values = JObj [(js ''power'', JNum x)]\<rparr>"

theorem arrival_order_irrelevant_witness:
  "stored_field (observe_all length_host demo_policy [demo_observation (js ''a'') (Fin 1), demo_observation (js ''ab'') (Fin 2)]) (js ''power'')
   = stored_field (observe_all length_host demo_policy [demo_observation (js ''ab'') (Fin 2), demo_observation (js ''a'') (Fin 1)]) (js ''power'')"
proof -
  have "distinct (map fst (List.map_filter (candidate length_host demo_policy (js ''power''))
      [demo_observation (js ''a'') (Fin 1), demo_observation (js ''ab'') (Fin 2)]))" by code_simp
  then show ?thesis by (rule arrival_order_irrelevant [rotated]) simp
qed

theorem pipeline_field_provenance_witness:
  "ap_deviceId demo_policy = text_of (ab_deviceId demo_binding)
   \<and> stored_field (rs_state (processObservationPipeline length_host demo_input)) (js ''power'') \<noteq> None"
proof -
  have n: "stored_field (rs_state (processObservationPipeline length_host demo_input)) (js ''power'') \<noteq> None"
    by code_simp
  then obtain f where f: "stored_field (rs_state (processObservationPipeline length_host demo_input)) (js ''power'') = Some f"
    by auto
  have "stored_field (pi_currentState demo_input) (js ''power'') \<noteq> Some f"
    by (simp add: demo_input_def stored_field_def)
  from pipeline_field_provenance [OF f this] n show ?thesis by (auto simp: demo_input_def)
qed

theorem pipeline_accounts_for_every_field_witness:
  "mset (rs_updatedKeys (processObservationPipeline length_host demo_input)
      @ rs_ignoredKeys (processObservationPipeline length_host demo_input)
      @ rs_rejectedFields (processObservationPipeline length_host demo_input)) = {#js ''power'', js ''relay''#}"
proof -
  have a: "rs_accepted (processObservationPipeline length_host demo_input)" by code_simp
  have b: "pi_binding demo_input = Some demo_binding" by (simp add: demo_input_def)
  have c: "ab_fields demo_binding = JObj [(js ''power'', JObj [(js ''rawKey'', JStr (js ''p'')), (js ''type'', JStr (js ''number''))]),
                        (js ''relay'', JObj [(js ''rawKey'', JStr (js ''r'')), (js ''type'', JStr (js ''boolean''))])]"
    by (simp add: demo_binding_def)
  show ?thesis using pipeline_accounts_for_every_field [OF a b c] by simp
qed

end
