(* ===== verification/JsUri.thy ===== *)
theory JsUri
  imports JsValue
begin

text \<open>
  \<open>encodeURIComponent\<close>: unreserved characters stand for themselves, every other code point is the
  percent-encoding of its UTF-8 bytes, an unpaired surrogate throws.  The lemmas show that the
  encoding is injective and never contains a colon, so colon-separated encodings can be told apart.
\<close>

definition unreserved :: "nat \<Rightarrow> bool" where
  "unreserved c \<longleftrightarrow> (48 \<le> c \<and> c \<le> 57) \<or> (65 \<le> c \<and> c \<le> 90) \<or> (97 \<le> c \<and> c \<le> 122)
     \<or> c \<in> {33, 39, 40, 41, 42, 45, 46, 95, 126}"

fun code_points :: "jstr \<Rightarrow> nat list result" where
  "code_points [] = Inr []"
| "code_points (c # s) =
     (if low_surrogate c then Inl URIError
      else if high_surrogate c then
        (case s of d # r \<Rightarrow>
           if low_surrogate d
           then and_then (code_points r) (\<lambda>ps. Inr (((c - 55296) * 1024 + (d - 56320) + 65536) # ps))
           else Inl URIError
         | [] \<Rightarrow> Inl URIError)
      else and_then (code_points s) (\<lambda>ps. Inr (c # ps)))"

definition utf8 :: "nat \<Rightarrow> nat list" where
  "utf8 p =
     (if p < 128 then [p]
      else if p < 2048 then [192 + p div 64, 128 + p mod 64]
      else if p < 65536 then [224 + p div 4096, 128 + p div 64 mod 64, 128 + p mod 64]
      else [240 + p div 262144, 128 + p div 4096 mod 64, 128 + p div 64 mod 64, 128 + p mod 64])"

definition upper_hex :: "nat \<Rightarrow> nat" where
  "upper_hex d = (if d < 10 then 48 + d else 55 + d)"

definition percent_byte :: "nat \<Rightarrow> jstr" where
  "percent_byte b = [37, upper_hex (b div 16), upper_hex (b mod 16)]"

definition encode_point :: "nat \<Rightarrow> jstr" where
  "encode_point p = (if unreserved p then [p] else concat (map percent_byte (utf8 p)))"

definition encodeURIComponent :: "jstr \<Rightarrow> jstr result" where
  "encodeURIComponent s = and_then (code_points s) (\<lambda>ps. Inr (concat (map encode_point ps)))"

text \<open>The code units of code points, which read the text back.\<close>

definition point_units :: "nat \<Rightarrow> jstr" where
  "point_units p =
     (if p < 65536 then [p] else [55296 + (p - 65536) div 1024, 56320 + (p - 65536) mod 1024])"

lemma surrogate_pair:
  assumes "high_surrogate c" "low_surrogate d"
  shows "point_units ((c - 55296) * 1024 + (d - 56320) + 65536) = [c, d]"
proof -
  obtain a where c: "c = 55296 + a" using assms(1) nat_le_iff_add by (auto simp: high_surrogate_def)
  obtain b where d: "d = 56320 + b" using assms(2) nat_le_iff_add by (auto simp: low_surrogate_def)
  have "b < 1024" using assms(2) by (simp add: low_surrogate_def d)
  then show ?thesis by (simp add: point_units_def c d)
qed

lemma code_points_units:
  "code_points s = Inr ps \<Longrightarrow> list_all (\<lambda>c. c < 65536) s \<Longrightarrow> concat (map point_units ps) = s"
proof (induction s arbitrary: ps rule: code_points.induct)
  case (2 c s)
  show ?case
  proof (cases "high_surrogate c")
    case True
    with "2.prems"(1) obtain d r q where s: "s = d # r" "low_surrogate d" "\<not> low_surrogate c"
      and q: "code_points r = Inr q" "ps = ((c - 55296) * 1024 + (d - 56320) + 65536) # q"
      by (auto simp: and_then_Inr_iff split: if_splits list.splits)
    have "concat (map point_units q) = r"
      using "2.IH"(1) [OF s(3) True s(1,2) q(1)] "2.prems"(2) s by simp
    then show ?thesis by (simp add: q(2) surrogate_pair [OF True s(2)] s(1))
  next
    case False
    with "2.prems"(1) obtain q where q: "\<not> low_surrogate c" "code_points s = Inr q" "ps = c # q"
      by (auto simp: and_then_Inr_iff split: if_splits)
    have "concat (map point_units q) = s" using "2.IH"(2) [OF q(1) False q(2)] "2.prems"(2) by simp
    moreover have "point_units c = [c]" using "2.prems"(2) by (simp add: point_units_def)
    ultimately show ?thesis by (simp add: q(3))
  qed
qed simp

lemma code_points_bound:
  "code_points s = Inr ps \<Longrightarrow> list_all (\<lambda>c. c < 65536) s \<Longrightarrow> list_all (\<lambda>p. p < 1114112) ps"
proof (induction s arbitrary: ps rule: code_points.induct)
  case (2 c s)
  then show ?case
    by (auto simp: and_then_Inr_iff high_surrogate_def low_surrogate_def split: if_splits list.splits)
qed simp

subsection \<open>Injectivity\<close>

fun utf8_point :: "nat list \<Rightarrow> nat" where
  "utf8_point [a] = a"
| "utf8_point [a, b] = (a - 192) * 64 + (b - 128)"
| "utf8_point [a, b, c] = (a - 224) * 4096 + (b - 128) * 64 + (c - 128)"
| "utf8_point [a, b, c, d] = (a - 240) * 262144 + (b - 128) * 4096 + (c - 128) * 64 + (d - 128)"
| "utf8_point _ = 0"

lemma radix64: "(p :: nat) div 4096 * 4096 + p div 64 mod 64 * 64 + p mod 64 = p"
proof -
  have "p div 4096 = p div 64 div 64" by (simp add: div_mult2_eq [symmetric])
  then have "p div 4096 * 64 + p div 64 mod 64 = p div 64" by (simp only: div_mult_mod_eq)
  moreover have "p div 64 * 64 + p mod 64 = p" by (rule div_mult_mod_eq)
  ultimately show ?thesis by linarith
qed

lemma radix64_long: "(p :: nat) div 262144 * 262144 + p div 4096 mod 64 * 4096 + p div 64 mod 64 * 64 + p mod 64 = p"
proof -
  have "p div 262144 = p div 4096 div 64" by (simp add: div_mult2_eq [symmetric])
  then have "p div 262144 * 64 + p div 4096 mod 64 = p div 4096" by (simp only: div_mult_mod_eq)
  with radix64 [of p] show ?thesis by linarith
qed

lemma utf8_point_utf8: "utf8_point (utf8 p) = p"
  using radix64 [of p] radix64_long [of p] by (auto simp: utf8_def)

definition utf8_length :: "nat \<Rightarrow> nat" where
  "utf8_length b = (if b < 128 then 1 else if b < 224 then 2 else if b < 240 then 3 else 4)"

lemma utf8_shape:
  assumes "p < 1114112"
  obtains b bs where "utf8 p = b # bs" "length (utf8 p) = utf8_length b" "list_all (\<lambda>x. x < 256) (utf8 p)"
proof -
  have b: "p < 2048 \<Longrightarrow> p div 64 < 32" "p < 65536 \<Longrightarrow> p div 4096 < 16" "p div 262144 < 5" using assms by auto
  consider "p < 128" | "128 \<le> p" "p < 2048" | "2048 \<le> p" "p < 65536" | "65536 \<le> p" by linarith
  then show thesis by cases (use b in \<open>force simp: utf8_def utf8_length_def intro: that\<close>)+
qed

lemma upper_hex_inj: "a < 16 \<Longrightarrow> b < 16 \<Longrightarrow> upper_hex a = upper_hex b \<longleftrightarrow> a = b"
  by (auto simp: upper_hex_def split: if_splits)

lemma percent_byte_inj:
  assumes "a < 256" "b < 256" "percent_byte a = percent_byte b"
  shows "a = b"
proof -
  have "a div 16 = b div 16" "a mod 16 = b mod 16"
    using assms by (simp_all add: percent_byte_def upper_hex_inj less_mult_imp_div_less)
  then show ?thesis by (metis div_mult_mod_eq)
qed

lemma percent_bytes_inj:
  "concat (map percent_byte bs) @ r = concat (map percent_byte cs) @ r' \<Longrightarrow> length bs = length cs
   \<Longrightarrow> list_all (\<lambda>x. x < 256) bs \<Longrightarrow> list_all (\<lambda>x. x < 256) cs \<Longrightarrow> bs = cs"
proof (induction bs cs rule: list_induct2')
  case (4 b bs c cs)
  then have "percent_byte b = percent_byte c" by (simp add: percent_byte_def)
  with 4 show ?case using percent_byte_inj [of b c] by simp
qed auto

lemma encode_point_prefix:
  assumes "encode_point p @ r = encode_point q @ r'" "p < 1114112" "q < 1114112"
  shows "p = q"
proof -
  have un: "\<not> unreserved 37" by (simp add: unreserved_def)
  obtain b bs where p: "utf8 p = b # bs" "length (utf8 p) = utf8_length b" "list_all (\<lambda>x. x < 256) (utf8 p)"
    by (rule utf8_shape [OF assms(2)])
  obtain c cs where q: "utf8 q = c # cs" "length (utf8 q) = utf8_length c" "list_all (\<lambda>x. x < 256) (utf8 q)"
    by (rule utf8_shape [OF assms(3)])
  show ?thesis
  proof (cases "unreserved p \<or> unreserved q")
    case True
    then show ?thesis using assms(1) un p(1) q(1) by (auto simp: encode_point_def percent_byte_def split: if_splits)
  next
    case False
    then have e: "concat (map percent_byte (utf8 p)) @ r = concat (map percent_byte (utf8 q)) @ r'"
      using assms(1) by (simp add: encode_point_def)
    then have "percent_byte b = percent_byte c" by (simp add: p(1) q(1) percent_byte_def)
    then have "b = c" using percent_byte_inj p(1,3) q(1,3) by simp
    then have "utf8 p = utf8 q" using percent_bytes_inj [OF e] p q by simp
    then show ?thesis by (metis utf8_point_utf8)
  qed
qed

lemma encode_point_not_Nil [simp]: "encode_point p \<noteq> []"
  by (simp add: encode_point_def utf8_def percent_byte_def)

lemma encode_points_inj:
  "concat (map encode_point ps) = concat (map encode_point qs)
   \<Longrightarrow> list_all (\<lambda>p. p < 1114112) ps \<Longrightarrow> list_all (\<lambda>p. p < 1114112) qs \<Longrightarrow> ps = qs"
proof (induction ps arbitrary: qs)
  case Nil
  then show ?case by (cases qs) auto
next
  case (Cons p ps)
  then obtain q qs' where qs: "qs = q # qs'" by (cases qs) auto
  have "p = q" using Cons.prems encode_point_prefix [of p "concat (map encode_point ps)" q] by (simp add: qs)
  with Cons show ?case by (simp add: qs)
qed

definition utf16 :: "jstr \<Rightarrow> bool" where
  "utf16 s = list_all (\<lambda>c. c < 65536) s"

lemma encodeURIComponent_inj:
  assumes "encodeURIComponent s = Inr e" "encodeURIComponent t = Inr e" "utf16 s" "utf16 t"
  shows "s = t"
proof -
  obtain ps qs where p: "code_points s = Inr ps" "code_points t = Inr qs"
    "concat (map encode_point ps) = concat (map encode_point qs)"
    using assms(1,2) by (auto simp: encodeURIComponent_def and_then_Inr_iff)
  have "ps = qs"
    using encode_points_inj [OF p(3)] code_points_bound p(1,2) assms(3,4) by (simp add: utf16_def)
  then show ?thesis using code_points_units p(1,2) assms(3,4) unfolding utf16_def by metis
qed

lemma encode_no_colon: "encodeURIComponent s = Inr e \<Longrightarrow> 58 \<notin> set e"
proof -
  have "58 \<notin> set (encode_point p)" for p
    by (auto simp: encode_point_def percent_byte_def upper_hex_def unreserved_def)
  then show "encodeURIComponent s = Inr e \<Longrightarrow> ?thesis"
    by (auto simp: encodeURIComponent_def and_then_Inr_iff)
qed

text \<open>Parts without a colon, joined by colons, are read off again.\<close>

lemma colon_split: "58 \<notin> set a \<Longrightarrow> 58 \<notin> set c \<Longrightarrow> a @ (58 :: nat) # b = c @ 58 # d \<Longrightarrow> a = c \<and> b = d"
proof (induction a arbitrary: c)
  case Nil
  then show ?case by (cases c) auto
next
  case (Cons x a)
  then show ?case by (cases c) auto
qed

end
