(* ===== verification/Investigator.thy ===== *)
theory Investigator
  imports JsValue
begin

text \<open>
  Execution diagnosis: the stages and outcomes of an execution trace
  (\<open>apps/api/src/app/modules/devices/device-registry.types.ts\<close>), the diagnosis record
  (\<open>investigation/device-execution-diagnosis.ts\<close>) and the investigator that classifies a trace
  (\<open>investigation/device-execution-investigator.ts\<close>).  The lemma pins the diagnosis of a failure to
  the last recorded stage.
\<close>

datatype stage_name = Requested | Published | Reported | Verified | Settling | SettledStage | Mismatched
  | StaleStage | TransportFailed | PreWriteFailed | TimedOutStage | DriftedStage | SupersededStage

datatype stage_status = Complete | Active | FailedStatus | Warning

record trace_stage =
  st_stage :: stage_name
  st_status :: stage_status
  st_observedAt :: jstr
  st_message :: jstr
  st_evidence :: "jval jobj option"

datatype outcome = Running | Settled | Failed | TimedOut | Drifted | Superseded

datatype diagnosis_category = Success | AckMissing | MappingMismatch | VerificationFailed | TransportFailure
  | DeviceOffline | UnknownCategory

datatype diagnosis_stage = CommandStage | TransportStage | TelemetryStage | MatchingStage | VerificationStage
  | SettlingStage

datatype evidence_status = EvSuccess | EvWarning | EvError

record evidence =
  ev_label :: jstr
  ev_value :: jstr
  ev_status :: evidence_status

record suspect =
  su_title :: jstr
  su_confidence :: jnum
  su_explanation :: jstr

record recommendation =
  re_id :: jstr
  re_label :: jstr

record diagnosis =
  dg_category :: diagnosis_category
  dg_stage :: diagnosis_stage
  dg_confidence :: jnum
  dg_summary :: jstr
  dg_evidence :: "evidence list"
  dg_suspects :: "suspect list"
  dg_recommendations :: "recommendation list"

text \<open>The one piece of evidence every diagnosis carries.\<close>

definition device_evidence :: "jstr \<Rightarrow> evidence_status \<Rightarrow> evidence list" where
  "device_evidence dev status = [\<lparr>ev_label = js ''Device'', ev_value = dev, ev_status = status\<rparr>]"

definition running :: "jstr \<Rightarrow> diagnosis" where
  "running dev =
     \<lparr>dg_category = UnknownCategory, dg_stage = SettlingStage, dg_confidence = Fin 1,
      dg_summary = js ''Execution is still in progress.'', dg_evidence = device_evidence dev EvWarning,
      dg_suspects = [], dg_recommendations = []\<rparr>"

definition settled :: "jstr \<Rightarrow> diagnosis" where
  "settled dev =
     \<lparr>dg_category = Success, dg_stage = SettlingStage, dg_confidence = Fin 1,
      dg_summary = js ''Execution completed successfully.'', dg_evidence = device_evidence dev EvSuccess,
      dg_suspects = [], dg_recommendations = []\<rparr>"

definition timedOut :: "jstr \<Rightarrow> diagnosis" where
  "timedOut dev =
     \<lparr>dg_category = AckMissing, dg_stage = TelemetryStage, dg_confidence = fl (95 / 100),
      dg_summary = js ''No matching state confirmation arrived before the deadline. The command outcome is unknown.'',
      dg_evidence = device_evidence dev EvWarning,
      dg_suspects =
        [\<lparr>su_title = js ''Delivery or confirmation could not be verified'', su_confidence = Fin 0,
          su_explanation = js ''A timeout alone cannot tell whether delivery failed, the device rejected the command, or confirmation was lost. Check the current connection without retrying the switch.''\<rparr>],
      dg_recommendations =
        [\<lparr>re_id = js ''inspect-mqtt'', re_label = js ''Inspect MQTT telemetry''\<rparr>,
         \<lparr>re_id = js ''inspect-device'', re_label = js ''Inspect device mapping''\<rparr>]\<rparr>"

definition failed :: "jstr \<Rightarrow> trace_stage list \<Rightarrow> diagnosis" where
  "failed dev stages =
     (let failureStage = (if stages = [] then None else Some (st_stage (last stages)));
          isMismatch = (failureStage = Some Mismatched);
          isPreWrite = (failureStage = Some PreWriteFailed)
      in \<lparr>dg_category = (if isMismatch then VerificationFailed
                         else if isPreWrite then UnknownCategory else TransportFailure),
          dg_stage = (if isMismatch then VerificationStage else if isPreWrite then CommandStage else TransportStage),
          dg_confidence = (if isPreWrite then Fin 1 else fl (9 / 10)),
          dg_summary = (if isMismatch then js ''Fresh device readback did not match the requested state.''
                        else if isPreWrite then js ''Execution was rejected before the device write was attempted.''
                        else js ''Command transport failed before successful reconciliation.''),
          dg_evidence = device_evidence dev EvError, dg_suspects = [], dg_recommendations = []\<rparr>)"

definition drifted :: "jstr \<Rightarrow> diagnosis" where
  "drifted dev =
     \<lparr>dg_category = VerificationFailed, dg_stage = VerificationStage, dg_confidence = fl (9 / 10),
      dg_summary = js ''The device initially matched the expected state but later drifted.'',
      dg_evidence = device_evidence dev EvWarning, dg_suspects = [], dg_recommendations = []\<rparr>"

definition superseded :: "jstr \<Rightarrow> diagnosis" where
  "superseded dev =
     \<lparr>dg_category = UnknownCategory, dg_stage = CommandStage, dg_confidence = Fin 1,
      dg_summary = js ''This execution was replaced by a newer command before completion.'',
      dg_evidence = device_evidence dev EvWarning, dg_suspects = [], dg_recommendations = []\<rparr>"

fun investigate :: "outcome \<Rightarrow> jstr \<Rightarrow> trace_stage list \<Rightarrow> diagnosis" where
  "investigate Running dev _ = running dev"
| "investigate Settled dev _ = settled dev"
| "investigate TimedOut dev _ = timedOut dev"
| "investigate Failed dev stages = failed dev stages"
| "investigate Drifted dev _ = drifted dev"
| "investigate Superseded dev _ = superseded dev"

lemmas diagnosis_defs = running_def settled_def timedOut_def failed_def drifted_def superseded_def

lemma investigate_category:
  "dg_category (investigate out dev stages) =
     (case out of Running \<Rightarrow> UnknownCategory | Settled \<Rightarrow> Success | TimedOut \<Rightarrow> AckMissing
      | Drifted \<Rightarrow> VerificationFailed | Superseded \<Rightarrow> UnknownCategory
      | Failed \<Rightarrow> if stages = [] then TransportFailure
          else (case st_stage (last stages) of Mismatched \<Rightarrow> VerificationFailed
                | PreWriteFailed \<Rightarrow> UnknownCategory | _ \<Rightarrow> TransportFailure))"
  by (cases out) (auto simp: diagnosis_defs Let_def split: stage_name.split)

end
