(* ===== verification/CommandTracker.thy ===== *)
theory CommandTracker
  imports JsUri Investigator
begin

text \<open>
  The in-memory device command tracker,
  \<open>apps/api/src/app/modules/devices/commands/in-memory-device-command-tracker.ts\<close> with the interface
  types of \<open>device-command-tracker.ts\<close>: pending commands, acknowledgement by telemetry, settling,
  timeouts, drift, and the execution traces that document them.

  The state is the record \<open>tracker\<close>: the three maps, the sequence counter and the entries handed to
  the operational log (without a log sink they are dropped).  A method is a function from its
  arguments and the state to the new state and its result; the readings of the clock it takes are
  arguments, integral milliseconds as \<open>Date.now()\<close> gives them, one for each call of \<open>clock.now()\<close>.
  The settings are an argument, read from the environment at every call.  Mutation of a trace object
  is the replacement of its entry in the map; the copies the code makes of value objects are the
  values themselves.  The sequence counter counts commands and is taken to stay below \<open>2^53\<close>.
\<close>

subsection \<open>Data\<close>

datatype device_action = TurnOn | TurnOff | ReadAction | SetTargetTemperature | SetMode
  | SetFlowTemperature | Open | Close | Capture | Analyze

fun device_action_str :: "device_action \<Rightarrow> jstr" where
  "device_action_str TurnOn = js ''turn_on''"
| "device_action_str TurnOff = js ''turn_off''"
| "device_action_str ReadAction = js ''read''"
| "device_action_str SetTargetTemperature = js ''set_target_temperature''"
| "device_action_str SetMode = js ''set_mode''"
| "device_action_str SetFlowTemperature = js ''set_flow_temperature''"
| "device_action_str Open = js ''open''"
| "device_action_str Close = js ''close''"
| "device_action_str Capture = js ''capture''"
| "device_action_str Analyze = js ''analyze''"

record command_scope =
  cs_tenantId :: jstr
  cs_siteId :: jstr

datatype command_status = Pending | Acked | NoAck | CommandFailed

record device_command =
  cm_id :: jstr
  cm_action :: device_action
  cm_status :: command_status
  cm_requestedAt :: jstr
  cm_expectedValues :: "jval jobj"
  cm_message :: "jstr option"

record tracked_command = device_command +
  cm_expiresAt :: jnum
  cm_displayUntil :: jnum

datatype actor_type = UserActor | AssistantActor | AutomationActor | SystemActor | TechnicianActor

record actor =
  ac_type :: actor_type
  ac_id :: "jstr option"
  ac_name :: "jstr option"

record execution_trace =
  tr_id :: jstr
  tr_commandId :: jstr
  tr_deviceId :: jstr
  tr_tenantId :: jstr
  tr_siteId :: jstr
  tr_actor :: actor
  tr_intent :: "jstr option"
  tr_action :: device_action
  tr_expectedValues :: "jval jobj"
  tr_requestedAt :: jstr
  tr_completedAt :: "jstr option"
  tr_outcome :: outcome
  tr_durationMs :: "jnum option"
  tr_diagnosis :: diagnosis
  tr_stages :: "trace_stage list"

record tracked_trace = execution_trace +
  tr_expiresAt :: jnum
  tr_settlingUntil :: "jnum option"
  tr_lastVerifiedValues :: "jval jobj option"

record command_request =
  cr_scope :: command_scope
  cr_action :: device_action
  cr_expectedValues :: "jval jobj"
  cr_message :: "jstr option"
  cr_ttlMs :: "jnum option"
  cr_actor :: "actor option"

record tracker_settings =
  ackTimeoutMs :: jnum
  settleWindowMs :: jnum
  traceLimit :: jnum

datatype log_level = LogInfo | LogWarn | LogError

record log_entry =
  le_level :: log_level
  le_source :: jstr
  le_event :: jstr
  le_message :: jstr
  le_deviceId :: jstr
  le_status :: jstr
  le_details :: "jval jobj"

record tracker =
  tk_commands :: "(jstr \<times> tracked_command) list"
  tk_traces :: "(jstr \<times> tracked_trace) list"
  tk_latest :: "(jstr \<times> jstr) list"
  tk_sequence :: int
  tk_log :: "log_entry list"

definition empty_tracker :: tracker where
  "empty_tracker = \<lparr>tk_commands = [], tk_traces = [], tk_latest = [], tk_sequence = 0, tk_log = []\<rparr>"

subsection \<open>Helpers\<close>

definition scopedCommandKey :: "jstr \<Rightarrow> command_scope \<Rightarrow> jstr result" where
  "scopedCommandKey dev sc =
     (if dev = [] \<or> cs_tenantId sc = [] \<or> cs_siteId sc = []
      then throw ''A command requires a complete tenant/site/device identity.''
      else and_then (encodeURIComponent (cs_tenantId sc)) (\<lambda>t.
           and_then (encodeURIComponent (cs_siteId sc)) (\<lambda>s.
           and_then (encodeURIComponent dev) (\<lambda>d. Inr (t @ [58] @ s @ [58] @ d)))))"

definition trace_scope :: "('a) execution_trace_scheme \<Rightarrow> command_scope" where
  "trace_scope tr = \<lparr>cs_tenantId = tr_tenantId tr, cs_siteId = tr_siteId tr\<rparr>"

text \<open>\<open>actual[key] === value\<close>; the values compared are primitives, an inherited property never equals one.\<close>

definition valuesMatch :: "jval jobj \<Rightarrow> jval jobj \<Rightarrow> bool" where
  "valuesMatch expected actual = list_all (\<lambda>(k, v). same_primitive (own actual k) v) expected"

definition commandForState :: "tracked_command \<Rightarrow> device_command" where
  "commandForState c =
     \<lparr>cm_id = cm_id c, cm_action = cm_action c, cm_status = cm_status c, cm_requestedAt = cm_requestedAt c,
      cm_expectedValues = cm_expectedValues c, cm_message = cm_message c\<rparr>"

text \<open>The public trace has no \<open>intent\<close>.\<close>

definition publicExecutionTrace :: "tracked_trace \<Rightarrow> execution_trace" where
  "publicExecutionTrace tr =
     \<lparr>tr_id = tr_id tr, tr_commandId = tr_commandId tr, tr_deviceId = tr_deviceId tr,
      tr_tenantId = tr_tenantId tr, tr_siteId = tr_siteId tr, tr_actor = tr_actor tr, tr_intent = None,
      tr_action = tr_action tr, tr_expectedValues = tr_expectedValues tr,
      tr_requestedAt = tr_requestedAt tr, tr_completedAt = tr_completedAt tr, tr_outcome = tr_outcome tr,
      tr_durationMs = tr_durationMs tr, tr_diagnosis = tr_diagnosis tr, tr_stages = tr_stages tr\<rparr>"

definition make_stage ::
  "stage_name \<Rightarrow> stage_status \<Rightarrow> jstr \<Rightarrow> jstr \<Rightarrow> jval jobj option \<Rightarrow> trace_stage" where
  "make_stage name status t msg ev =
     \<lparr>st_stage = name, st_status = status, st_observedAt = t, st_message = msg, st_evidence = ev\<rparr>"

definition appendTraceStage :: "tracked_trace \<Rightarrow> trace_stage \<Rightarrow> tracked_trace" where
  "appendTraceStage tr st =
     (if tr_stages tr \<noteq> [] \<and> st_stage (last (tr_stages tr)) = st_stage st
         \<and> st_status (last (tr_stages tr)) = st_status st
      then tr else tr\<lparr>tr_stages := tr_stages tr @ [st]\<rparr>)"

text \<open>The last active stage of a name, searched from the end.\<close>

definition active_index :: "stage_name \<Rightarrow> trace_stage list \<Rightarrow> nat option" where
  "active_index name sts =
     find (\<lambda>n. st_stage (sts ! n) = name \<and> st_status (sts ! n) = Active) (rev [0..<length sts])"

definition replaceActiveTraceStage :: "tracked_trace \<Rightarrow> stage_name \<Rightarrow> trace_stage \<Rightarrow> tracked_trace" where
  "replaceActiveTraceStage tr name st =
     (case active_index name (tr_stages tr) of
        Some n \<Rightarrow> tr\<lparr>tr_stages := (tr_stages tr)[n := st]\<rparr>
      | None \<Rightarrow> appendTraceStage tr st)"

definition completeTrace :: "(jstr \<Rightarrow> int option) \<Rightarrow> tracked_trace \<Rightarrow> outcome \<Rightarrow> jstr \<Rightarrow> tracked_trace" where
  "completeTrace host tr out t =
     tr\<lparr>tr_outcome := out, tr_completedAt := Some t,
        tr_durationMs :=
          (case (date_parse host (tr_requestedAt tr), date_parse host t) of
             (Some a, Some b) \<Rightarrow> Some (jmax (Fin 0) (jsub (Fin (of_int b)) (Fin (of_int a))))
           | _ \<Rightarrow> None)\<rparr>"

definition completeExecutionTrace ::
  "(jstr \<Rightarrow> int option) \<Rightarrow> tracked_trace \<Rightarrow> outcome \<Rightarrow> jstr \<Rightarrow> tracked_trace" where
  "completeExecutionTrace host tr out t =
     (let tr' = completeTrace host tr out t
      in tr'\<lparr>tr_diagnosis := investigate out (tr_deviceId tr) (tr_stages tr)\<rparr>)"

definition put_trace :: "tracker \<Rightarrow> tracked_trace \<Rightarrow> tracker" where
  "put_trace s tr = s\<lparr>tk_traces := map_set (tk_traces s) (tr_commandId tr) tr\<rparr>"

definition put_command :: "tracker \<Rightarrow> jstr \<Rightarrow> tracked_command \<Rightarrow> tracker" where
  "put_command s key c = s\<lparr>tk_commands := map_set (tk_commands s) key c\<rparr>"

definition record_log :: "tracker \<Rightarrow> log_entry \<Rightarrow> tracker" where
  "record_log s e = s\<lparr>tk_log := tk_log s @ [e]\<rparr>"

text \<open>\<open>settlingUntil\<close> is falsy when it is null, zero or \<open>NaN\<close>.\<close>

definition settling_armed :: "tracked_trace \<Rightarrow> bool" where
  "settling_armed tr = (case tr_settlingUntil tr of None \<Rightarrow> False | Some x \<Rightarrow> truthy (JNum x))"

definition now_num :: "int \<Rightarrow> jnum" where
  "now_num now = Fin (of_int now)"

text \<open>\<open>new Date(x).toISOString()\<close>.\<close>

definition iso_of_num :: "jnum \<Rightarrow> jstr result" where
  "iso_of_num x = to_iso (time_clip x)"

subsection \<open>Refreshing\<close>

text \<open>One trace of the refresh loop: settled, timed out, or left alone.\<close>

definition refresh_trace :: "(jstr \<Rightarrow> int option) \<Rightarrow> int \<Rightarrow> tracked_trace \<Rightarrow> tracked_trace result" where
  "refresh_trace host now tr =
     (if tr_outcome tr \<noteq> Running then Inr tr
      else if settling_armed tr \<and> jle (the (tr_settlingUntil tr)) (now_num now)
      then and_then (iso_of_num (the (tr_settlingUntil tr))) (\<lambda>completedAt.
        let tr1 = replaceActiveTraceStage tr Settling
              (make_stage Settling Complete completedAt
                (js ''The stability window completed without contradictory telemetry.'')
                (Some [(js ''settleWindowCompletedAt'', JStr completedAt)]));
            tr2 = appendTraceStage tr1
              (make_stage SettledStage Complete completedAt
                (js ''The device remained at the requested state.'') None)
        in Inr (completeExecutionTrace host tr2 Settled completedAt))
      else if \<not> settling_armed tr \<and> jless (tr_expiresAt tr) (now_num now)
      then and_then (iso_of_num (tr_expiresAt tr)) (\<lambda>completedAt.
        let tr1 = appendTraceStage tr
              (make_stage TimedOutStage FailedStatus completedAt
                (js ''No matching telemetry arrived before the acknowledgement deadline.'')
                (Some [(js ''expectedValues'', JObj (tr_expectedValues tr))]))
        in Inr (completeExecutionTrace host tr1 TimedOut completedAt))
      else Inr tr)"

text \<open>The loop over the map's values; a throw leaves the remaining traces untouched.\<close>

fun refresh_list ::
  "(jstr \<Rightarrow> int option) \<Rightarrow> int \<Rightarrow> (jstr \<times> tracked_trace) list \<Rightarrow> (jstr \<times> tracked_trace) list \<times> unit result" where
  "refresh_list host now [] = ([], Inr ())"
| "refresh_list host now ((k, tr) # r) =
     (case refresh_trace host now tr of
        Inl e \<Rightarrow> ((k, tr) # r, Inl e)
      | Inr tr' \<Rightarrow> (let (r', res) = refresh_list host now r in ((k, tr') # r', res)))"

definition refreshExecutionTraces :: "(jstr \<Rightarrow> int option) \<Rightarrow> int \<Rightarrow> tracker \<Rightarrow> tracker \<times> unit result" where
  "refreshExecutionTraces host now s =
     (let (ts, res) = refresh_list host now (tk_traces s) in (s\<lparr>tk_traces := ts\<rparr>, res))"

definition expected_json :: "('a) device_command_scheme \<Rightarrow> jval" where
  "expected_json c = JStr (json_record (cm_expectedValues c))"

definition refreshDeviceCommand :: "int \<Rightarrow> jstr \<Rightarrow> jstr \<Rightarrow> tracker \<Rightarrow> tracker" where
  "refreshDeviceCommand now key dev s =
     (case map_get (tk_commands s) key of
        None \<Rightarrow> s
      | Some c \<Rightarrow>
          if cm_status c = Pending \<and> jless (cm_expiresAt c) (now_num now)
          then record_log
            (put_command s key
              (c\<lparr>cm_status := NoAck,
                 cm_message := Some (js ''Command was published, but no matching telemetry arrived.''),
                 cm_displayUntil := jadd (now_num now) (Fin 30000)\<rparr>))
            \<lparr>le_level = LogWarn, le_source = js ''device-registry'', le_event = js ''command.no_ack'',
             le_message = dev @ js '' did not report the requested state after command publish.'',
             le_deviceId = dev, le_status = js ''no_ack'',
             le_details = [(js ''action'', JStr (device_action_str (cm_action c))),
                           (js ''expected'', expected_json c)]\<rparr>
          else if cm_status c \<noteq> Pending \<and> jless (cm_displayUntil c) (now_num now)
          then s\<lparr>tk_commands := map_remove (tk_commands s) key\<rparr>
          else s)"

text \<open>
  \<open>trimExecutionTraces\<close>: newest requests first (a stable sort), everything past the limit is
  forgotten.  Request times are printed by \<open>toISOString\<close>, so they always parse.
\<close>

definition request_time :: "(jstr \<Rightarrow> int option) \<Rightarrow> ('a) execution_trace_scheme \<Rightarrow> int" where
  "request_time host tr = (case date_parse host (tr_requestedAt tr) of Some t \<Rightarrow> t | None \<Rightarrow> 0)"

definition newest_first :: "(jstr \<Rightarrow> int option) \<Rightarrow> tracked_trace list \<Rightarrow> tracked_trace list" where
  "newest_first host trs = sort_key (\<lambda>tr. - request_time host tr) trs"

definition forget_step :: "tracker \<times> unit result \<Rightarrow> tracked_trace \<Rightarrow> tracker \<times> unit result" where
  "forget_step st tr =
     (case st of (s, Inl e) \<Rightarrow> (s, Inl e)
      | (s, Inr _) \<Rightarrow>
          let s1 = s\<lparr>tk_traces := map_remove (tk_traces s) (tr_commandId tr)\<rparr>
          in attempt s1 (scopedCommandKey (tr_deviceId tr) (trace_scope tr)) (\<lambda>key.
            if map_get (tk_latest s1) key = Some (tr_commandId tr)
            then (s1\<lparr>tk_latest := map_remove (tk_latest s1) key\<rparr>, Inr ())
            else (s1, Inr ())))"

definition trimExecutionTraces ::
  "(jstr \<Rightarrow> int option) \<Rightarrow> tracker_settings \<Rightarrow> tracker \<Rightarrow> tracker \<times> unit result" where
  "trimExecutionTraces host cfg s =
     foldl forget_step (s, Inr ())
       (slice_from (traceLimit cfg) (newest_first host (map snd (tk_traces s))))"

subsection \<open>Operations\<close>

definition getCommand ::
  "int \<Rightarrow> jstr \<Rightarrow> command_scope \<Rightarrow> tracker \<Rightarrow> tracker \<times> device_command option result" where
  "getCommand now dev sc s =
     attempt s (scopedCommandKey dev sc) (\<lambda>key.
       let s1 = refreshDeviceCommand now key dev s
       in (s1, Inr (map_option commandForState (map_get (tk_commands s1) key))))"

definition truthy_or :: "jnum option \<Rightarrow> jnum \<Rightarrow> jnum" where
  "truthy_or x d = (case x of Some v \<Rightarrow> if truthy (JNum v) then v else d | None \<Rightarrow> d)"

definition supersede :: "(jstr \<Rightarrow> int option) \<Rightarrow> device_action \<Rightarrow> jstr \<Rightarrow> tracked_trace \<Rightarrow> tracked_trace" where
  "supersede host action requestedAt tr =
     (let tr1 = replaceActiveTraceStage tr Settling
            (make_stage Settling Warning requestedAt
              (js ''Stability window interrupted by a newer command.'') None);
          tr2 = appendTraceStage tr1
            (make_stage SupersededStage Complete requestedAt
              (js ''A newer command replaced this execution before completion.'')
              (Some [(js ''supersededByAction'', JStr (device_action_str action))]))
      in completeExecutionTrace host tr2 Superseded requestedAt)"

definition new_command :: "tracker_settings \<Rightarrow> int \<Rightarrow> jstr \<Rightarrow> int \<Rightarrow> command_request \<Rightarrow> jstr \<Rightarrow> tracked_command" where
  "new_command cfg now dev seq cr requestedAt =
     \<lparr>cm_id = dev @ [58] @ device_action_str (cr_action cr) @ [58] @ int_str now @ [58] @ int_str seq,
      cm_action = cr_action cr, cm_status = Pending, cm_requestedAt = requestedAt,
      cm_expectedValues = cr_expectedValues cr, cm_message = cr_message cr,
      cm_expiresAt = jadd (now_num now) (truthy_or (cr_ttlMs cr) (ackTimeoutMs cfg)),
      cm_displayUntil = jadd (jadd (now_num now) (ackTimeoutMs cfg)) (Fin 30000)\<rparr>"

definition new_trace :: "jstr \<Rightarrow> command_request \<Rightarrow> tracked_command \<Rightarrow> tracked_trace" where
  "new_trace dev cr c =
     \<lparr>tr_id = cm_id c, tr_commandId = cm_id c, tr_deviceId = dev,
      tr_tenantId = cs_tenantId (cr_scope cr), tr_siteId = cs_siteId (cr_scope cr),
      tr_actor = (case cr_actor cr of Some a \<Rightarrow> a
        | None \<Rightarrow> \<lparr>ac_type = SystemActor, ac_id = None, ac_name = Some (js ''Energrid Control Service'')\<rparr>),
      tr_intent = Some (case cr_message cr of Some m \<Rightarrow> if m = [] then js ''Device command execution'' else m
        | None \<Rightarrow> js ''Device command execution''),
      tr_action = cr_action cr, tr_expectedValues = cr_expectedValues cr,
      tr_requestedAt = cm_requestedAt c, tr_completedAt = None, tr_outcome = Running, tr_durationMs = None,
      tr_diagnosis = investigate Running dev [],
      tr_stages = [make_stage Requested Complete (cm_requestedAt c)
        (js ''Command was accepted by the Energrid control service.'')
        (Some [(js ''expectedValues'', JObj (cr_expectedValues cr))])],
      tr_expiresAt = cm_expiresAt c, tr_settlingUntil = None, tr_lastVerifiedValues = None\<rparr>"

definition supersede_latest :: "(jstr \<Rightarrow> int option) \<Rightarrow> jstr \<Rightarrow> device_action \<Rightarrow> jstr \<Rightarrow> tracker \<Rightarrow> tracker" where
  "supersede_latest host key action requestedAt s =
     (case map_get (tk_latest s) key of
        Some prev \<Rightarrow> if prev = [] then s else
          (case map_get (tk_traces s) prev of
             Some tr \<Rightarrow> if tr_outcome tr = Running then put_trace s (supersede host action requestedAt tr) else s
           | None \<Rightarrow> s)
      | None \<Rightarrow> s)"

definition markDeviceCommandPending ::
  "(jstr \<Rightarrow> int option) \<Rightarrow> tracker_settings \<Rightarrow> int \<Rightarrow> jstr \<Rightarrow> command_request \<Rightarrow> tracker
    \<Rightarrow> tracker \<times> device_command result" where
  "markDeviceCommandPending host cfg now dev cr s =
     attempt s (to_iso (Some now)) (\<lambda>requestedAt.
     attempt s (scopedCommandKey dev (cr_scope cr)) (\<lambda>key.
       let s1 = supersede_latest host key (cr_action cr) requestedAt s;
           c = new_command cfg now dev (tk_sequence s1 + 1) cr requestedAt;
           s2 = put_command (s1\<lparr>tk_sequence := tk_sequence s1 + 1\<rparr>) key c;
           tr = new_trace dev cr c;
           s3 = put_trace s2 tr;
           s4 = s3\<lparr>tk_latest := map_set (tk_latest s3) key (tr_commandId tr)\<rparr>
       in case trimExecutionTraces host cfg s4 of
            (s5, Inl e) \<Rightarrow> (s5, Inl e)
          | (s5, Inr _) \<Rightarrow>
              (record_log s5
                 \<lparr>le_level = LogInfo, le_source = js ''device-control'', le_event = js ''command.pending'',
                  le_message = dev @ [32] @ device_action_str (cr_action cr) @ js '' requested; preparing transport.'',
                  le_deviceId = dev, le_status = js ''pending'',
                  le_details = [(js ''action'', JStr (device_action_str (cr_action cr))),
                                (js ''expected'', expected_json c)]\<rparr>,
               Inr (commandForState c))))"

definition markDeviceCommandPublished ::
  "int \<Rightarrow> jstr \<Rightarrow> jstr \<Rightarrow> jval jobj \<Rightarrow> tracker \<Rightarrow> tracker \<times> execution_trace option result" where
  "markDeviceCommandPublished now dev commandId ev s =
     (case map_get (tk_traces s) commandId of
        None \<Rightarrow> (s, Inr None)
      | Some tr \<Rightarrow>
          if tr_deviceId tr \<noteq> dev then (s, Inr None)
          else if tr_outcome tr \<noteq> Running then (s, Inr (Some (publicExecutionTrace tr)))
          else attempt s (to_iso (Some now)) (\<lambda>observedAt.
            let tr' = appendTraceStage tr
                  (make_stage Published Complete observedAt
                    (js ''Command was published to the configured transport.'') (Some ev))
            in (put_trace s tr', Inr (Some (publicExecutionTrace tr')))))"

definition failCurrentCommand ::
  "jstr \<Rightarrow> jstr \<Rightarrow> tracked_command \<Rightarrow> jstr \<Rightarrow> int \<Rightarrow> tracker \<Rightarrow> tracker \<times> tracked_command" where
  "failCurrentCommand dev key c message now s =
     (let failed = c\<lparr>cm_status := CommandFailed, cm_message := Some message, cm_expiresAt := now_num now,
                     cm_displayUntil := jadd (now_num now) (Fin 30000)\<rparr>
      in (record_log (put_command s key failed)
            \<lparr>le_level = LogError, le_source = js ''device-control'', le_event = js ''command.failed'',
             le_message = dev @ [32] @ device_action_str (cm_action c) @ js '' failed: '' @ message,
             le_deviceId = dev, le_status = js ''failed'',
             le_details = [(js ''commandId'', JStr (cm_id c)),
                           (js ''action'', JStr (device_action_str (cm_action c))),
                           (js ''expected'', expected_json c)]\<rparr>,
          failed))"

definition markDeviceCommandTransportFailed ::
  "(jstr \<Rightarrow> int option) \<Rightarrow> int \<Rightarrow> jstr \<Rightarrow> jstr \<Rightarrow> jstr \<Rightarrow> tracker \<Rightarrow> tracker \<times> execution_trace option result" where
  "markDeviceCommandTransportFailed host now dev commandId message s =
     (case map_get (tk_traces s) commandId of
        None \<Rightarrow> (s, Inr None)
      | Some tr \<Rightarrow>
          if tr_deviceId tr \<noteq> dev then (s, Inr None)
          else attempt s (scopedCommandKey dev (trace_scope tr)) (\<lambda>key.
            case map_get (tk_commands s) key of
              None \<Rightarrow> (s, Inr (Some (publicExecutionTrace tr)))
            | Some c \<Rightarrow>
                if tr_outcome tr \<noteq> Running \<or> cm_id c \<noteq> commandId \<or> cm_status c \<noteq> Pending
                then (s, Inr (Some (publicExecutionTrace tr)))
                else attempt s (to_iso (Some now)) (\<lambda>observedAt.
                  let tr1 = appendTraceStage tr (make_stage TransportFailed FailedStatus observedAt message None);
                      s1 = fst (failCurrentCommand dev key c message now s);
                      tr2 = completeExecutionTrace host tr1 Failed observedAt
                  in (put_trace s1 tr2, Inr (Some (publicExecutionTrace tr2))))))"

datatype failure_reason = PreWrite | ReadbackMismatch

definition markDeviceCommandFailed ::
  "(jstr \<Rightarrow> int option) \<Rightarrow> int \<Rightarrow> jstr \<Rightarrow> jstr \<Rightarrow> failure_reason \<Rightarrow> jstr \<Rightarrow> tracker
    \<Rightarrow> tracker \<times> device_command option result" where
  "markDeviceCommandFailed host now dev commandId reason message s =
     (case map_get (tk_traces s) commandId of
        None \<Rightarrow> (s, Inr None)
      | Some tr \<Rightarrow> attempt s (scopedCommandKey dev (trace_scope tr)) (\<lambda>key.
          case map_get (tk_commands s) key of
            None \<Rightarrow> (s, Inr None)
          | Some c \<Rightarrow>
              if cm_id c \<noteq> commandId \<or> cm_status c \<noteq> Pending \<or> tr_deviceId tr \<noteq> dev \<or> tr_outcome tr \<noteq> Running
              then (s, Inr None)
              else attempt s (to_iso (Some now)) (\<lambda>observedAt.
                let tr1 = appendTraceStage tr
                      (make_stage (if reason = PreWrite then PreWriteFailed else Mismatched) FailedStatus
                        observedAt message None);
                    (s1, failed) = failCurrentCommand dev key c message now s
                in (put_trace s1 (completeExecutionTrace host tr1 Failed observedAt),
                    Inr (Some (commandForState failed))))))"

text \<open>The query operations; they refresh the traces first.\<close>

definition getExecutionTraces ::
  "(jstr \<Rightarrow> int option) \<Rightarrow> int \<Rightarrow> command_scope \<Rightarrow> jnum \<Rightarrow> tracker \<Rightarrow> tracker \<times> execution_trace list result" where
  "getExecutionTraces host now sc limit s =
     (case refreshExecutionTraces host now s of
        (s1, Inl e) \<Rightarrow> (s1, Inl e)
      | (s1, Inr _) \<Rightarrow>
          (s1, Inr (map publicExecutionTrace
             (slice_to (jmax (Fin 1) limit)
               (newest_first host
                 (filter (\<lambda>tr. tr_tenantId tr = cs_tenantId sc \<and> tr_siteId tr = cs_siteId sc)
                   (map snd (tk_traces s1))))))))"

definition getLatestExecutionTrace ::
  "(jstr \<Rightarrow> int option) \<Rightarrow> int \<Rightarrow> jstr \<Rightarrow> command_scope \<Rightarrow> tracker \<Rightarrow> tracker \<times> execution_trace option result" where
  "getLatestExecutionTrace host now dev sc s =
     (case refreshExecutionTraces host now s of
        (s1, Inl e) \<Rightarrow> (s1, Inl e)
      | (s1, Inr _) \<Rightarrow> attempt s1 (scopedCommandKey dev sc) (\<lambda>key.
          case map_get (tk_latest s1) key of
            None \<Rightarrow> (s1, Inr None)
          | Some commandId \<Rightarrow>
              if commandId = [] then (s1, Inr None)
              else (s1, Inr (map_option publicExecutionTrace (map_get (tk_traces s1) commandId)))))"

definition observePossibleDrift ::
  "(jstr \<Rightarrow> int option) \<Rightarrow> jstr \<Rightarrow> jval jobj \<Rightarrow> jstr \<Rightarrow> tracker \<Rightarrow> tracker" where
  "observePossibleDrift host key vals observedAt s =
     (case map_get (tk_latest s) key of
        None \<Rightarrow> s
      | Some commandId \<Rightarrow> if commandId = [] then s else
          (case map_get (tk_traces s) commandId of
             None \<Rightarrow> s
           | Some tr \<Rightarrow>
               if tr_outcome tr \<noteq> Running then s
               else if \<not> settling_armed tr then s
               else if valuesMatch (tr_expectedValues tr) vals then s
               else put_trace s (completeExecutionTrace host
                 (appendTraceStage tr
                   (make_stage DriftedStage FailedStatus observedAt
                     (js ''Device moved away from the requested state during settling.'')
                     (Some [(js ''expectedValues'', JObj (tr_expectedValues tr)), (js ''observedValues'', JObj vals)])))
                 Drifted observedAt)))"

definition update_trace :: "tracker \<Rightarrow> tracked_trace option \<Rightarrow> (tracked_trace \<Rightarrow> tracked_trace) \<Rightarrow> tracker" where
  "update_trace s tr f = (case tr of Some x \<Rightarrow> put_trace s (f x) | None \<Rightarrow> s)"

text \<open>The evidence of a match: reported, verified, then waiting for the settle window.\<close>

definition verify_trace ::
  "tracker_settings \<Rightarrow> int \<Rightarrow> jstr \<Rightarrow> jval jobj \<Rightarrow> jval jobj \<Rightarrow> jstr \<Rightarrow> jstr option \<Rightarrow> jstr option
    \<Rightarrow> tracked_trace \<Rightarrow> tracked_trace" where
  "verify_trace cfg now nowIso expected vals observedAt evidenceId reason tr =
     (let text_or_null = (\<lambda>t. case t of Some s \<Rightarrow> JStr s | None \<Rightarrow> Null);
          tr1 = appendTraceStage tr
            (make_stage Reported Complete observedAt (js ''Matching device telemetry was received.'')
              (Some [(js ''reportedValues'', JObj vals),
                     (js ''sourceReason'', case reason of Some r \<Rightarrow> if r = [] then Null else JStr r | None \<Rightarrow> Null),
                     (js ''commandId'', text_or_null evidenceId)]));
          tr2 = appendTraceStage tr1
            (make_stage Verified Complete nowIso
              (js ''Registry verified that observed values matched the request.'')
              (Some [(js ''expectedValues'', JObj expected), (js ''reportedValues'', JObj vals)]));
          settleMs = settleWindowMs cfg;
          tr3 = tr2\<lparr>tr_settlingUntil := Some (jadd (now_num now) settleMs),
                    tr_lastVerifiedValues := Some vals\<rparr>
      in appendTraceStage tr3
           (make_stage Settling Active nowIso
             (js ''Waiting '' @ num_str settleMs @ js ''ms to ensure the device remains stable.'')
             (Some [(js ''settleWindowMs'', JNum settleMs)])))"

text \<open>
  Telemetry for a pending command: \<open>now2\<close> is the reading taken for the stage it appends or for the
  acknowledgement.
\<close>

definition observe_pending ::
  "(jstr \<Rightarrow> int option) \<Rightarrow> tracker_settings \<Rightarrow> int \<Rightarrow> jstr \<Rightarrow> jstr \<Rightarrow> jval jobj \<Rightarrow> jstr \<Rightarrow> jstr option
    \<Rightarrow> jstr option \<Rightarrow> tracked_command \<Rightarrow> tracker \<Rightarrow> tracker \<times> unit result" where
  "observe_pending host cfg now key dev vals observedAt evidenceId reason c s =
     (let trace = map_get (tk_traces s) (cm_id c)
      in if evidenceId \<noteq> None \<and> evidenceId \<noteq> Some [] \<and> evidenceId \<noteq> Some (cm_id c) then (s, Inr ())
         else if time_less (date_parse host observedAt) (date_parse host (cm_requestedAt c))
         then (case trace of
             None \<Rightarrow> (s, Inr ())
           | Some _ \<Rightarrow> attempt s (to_iso (Some now)) (\<lambda>t.
               (update_trace s trace (\<lambda>tr. appendTraceStage tr
                 (make_stage StaleStage Warning t
                   (js ''Telemetry was older than the command and could not verify it.'')
                   (Some [(js ''telemetryObservedAt'', JStr observedAt), (js ''requestedAt'', JStr (cm_requestedAt c))]))),
                Inr ())))
         else if \<not> valuesMatch (cm_expectedValues c) vals
         then (if trace \<noteq> None \<and> evidenceId = Some (cm_id c)
               then attempt s (to_iso (Some now)) (\<lambda>t.
                 (update_trace s trace (\<lambda>tr. appendTraceStage tr
                   (make_stage Mismatched Warning t
                     (js ''Device reported state, but it did not match the requested values.'')
                     (Some [(js ''expectedValues'', JObj (cm_expectedValues c)),
                            (js ''reportedValues'', JObj vals),
                            (js ''reason'', case reason of Some r \<Rightarrow> if r = [] then Null else JStr r | None \<Rightarrow> Null)]))),
                  Inr ()))
               else (s, Inr ()))
         else attempt s (to_iso (Some now)) (\<lambda>nowIso.
           let s1 = put_command s key
                 (c\<lparr>cm_status := Acked, cm_message := Some (js ''Device reported the requested state.''),
                    cm_displayUntil := jadd (now_num now) (Fin 5000)\<rparr>);
               s2 = update_trace s1 trace
                 (verify_trace cfg now nowIso (cm_expectedValues c) vals observedAt evidenceId reason)
           in (record_log s2
                 \<lparr>le_level = LogInfo, le_source = js ''device-registry'', le_event = js ''command.acked'',
                  le_message = dev @ js '' reported the requested state.'', le_deviceId = dev,
                  le_status = js ''acked'',
                  le_details = [(js ''action'', JStr (device_action_str (cm_action c))),
                                (js ''expected'', expected_json c), (js ''commandId'', JStr (cm_id c))]\<rparr>,
               Inr ())))"

text \<open>
  \<open>now0\<close> and \<open>now1\<close> are the readings of the two refreshes.
\<close>

definition observeTelemetry ::
  "(jstr \<Rightarrow> int option) \<Rightarrow> tracker_settings \<Rightarrow> int \<Rightarrow> int \<Rightarrow> int \<Rightarrow> jstr \<Rightarrow> jval jobj \<Rightarrow> jstr \<Rightarrow> jstr option
    \<Rightarrow> command_scope \<Rightarrow> jstr option \<Rightarrow> tracker \<Rightarrow> tracker \<times> unit result" where
  "observeTelemetry host cfg now0 now1 now2 dev vals observedAt evidenceId sc reason s =
     attempt s (scopedCommandKey dev sc) (\<lambda>key.
       case refreshExecutionTraces host now1 (refreshDeviceCommand now0 key dev s) of
         (s1, Inl e) \<Rightarrow> (s1, Inl e)
       | (s1, Inr _) \<Rightarrow>
           (case map_get (tk_commands s1) key of
              Some c \<Rightarrow>
                if cm_status c \<noteq> Pending then (observePossibleDrift host key vals observedAt s1, Inr ())
                else observe_pending host cfg now2 key dev vals observedAt evidenceId reason c s1
            | None \<Rightarrow> (observePossibleDrift host key vals observedAt s1, Inr ())))"

subsection \<open>Runs\<close>

text \<open>
  One call of a method, with whatever arguments, settings and clock readings; it may throw.  A
  tracker is reachable when it arises from the empty one by such calls.
\<close>

inductive tracker_step :: "(jstr \<Rightarrow> int option) \<Rightarrow> tracker \<Rightarrow> tracker \<Rightarrow> bool" for host where
  getCommand: "tracker_step host s (fst (getCommand now dev sc s))"
| pending: "tracker_step host s (fst (markDeviceCommandPending host cfg now dev cr s))"
| published: "tracker_step host s (fst (markDeviceCommandPublished now dev cid ev s))"
| transportFailed: "tracker_step host s (fst (markDeviceCommandTransportFailed host now dev cid msg s))"
| failed: "tracker_step host s (fst (markDeviceCommandFailed host now dev cid why msg s))"
| traces: "tracker_step host s (fst (getExecutionTraces host now sc limit s))"
| latest: "tracker_step host s (fst (getLatestExecutionTrace host now dev sc s))"
| telemetry: "tracker_step host s
    (fst (observeTelemetry host cfg now0 now1 now2 dev vals observedAt evidenceId sc reason s))"

inductive tracker_reachable :: "(jstr \<Rightarrow> int option) \<Rightarrow> tracker \<Rightarrow> bool" for host where
  start: "tracker_reachable host empty_tracker"
| step: "tracker_reachable host s \<Longrightarrow> tracker_step host s s' \<Longrightarrow> tracker_reachable host s'"

subsection \<open>How a trace may change\<close>

definition stage_names :: "('a) execution_trace_scheme \<Rightarrow> stage_name list" where
  "stage_names tr = map st_stage (tr_stages tr)"

text \<open>What every trace of a tracker satisfies.\<close>

definition trace_ok :: "tracked_trace \<Rightarrow> bool" where
  "trace_ok tr \<longleftrightarrow> tr_id tr = tr_commandId tr
     \<and> (tr_outcome tr = Running \<longleftrightarrow> tr_completedAt tr = None)
     \<and> stage_names tr \<noteq> [] \<and> hd (stage_names tr) = Requested
     \<and> (tr_settlingUntil tr \<noteq> None \<longrightarrow> Verified \<in> set (stage_names tr))
     \<and> (tr_outcome tr = Settled \<longrightarrow> Verified \<in> set (stage_names tr) \<and> SettledStage \<in> set (stage_names tr))"

definition same_identity :: "tracked_trace \<Rightarrow> tracked_trace \<Rightarrow> bool" where
  "same_identity tr tr' \<longleftrightarrow> tr_commandId tr' = tr_commandId tr \<and> tr_deviceId tr' = tr_deviceId tr
     \<and> tr_tenantId tr' = tr_tenantId tr \<and> tr_siteId tr' = tr_siteId tr
     \<and> tr_requestedAt tr' = tr_requestedAt tr \<and> tr_expectedValues tr' = tr_expectedValues tr"

definition same_verdict :: "tracked_trace \<Rightarrow> tracked_trace \<Rightarrow> bool" where
  "same_verdict tr tr' \<longleftrightarrow> tr_outcome tr' = tr_outcome tr \<and> tr_completedAt tr' = tr_completedAt tr
     \<and> tr_durationMs tr' = tr_durationMs tr \<and> tr_diagnosis tr' = tr_diagnosis tr"

definition evolves :: "tracked_trace \<Rightarrow> tracked_trace \<Rightarrow> bool" where
  "evolves tr tr' \<longleftrightarrow> same_identity tr tr' \<and> (tr_outcome tr \<noteq> Running \<longrightarrow> same_verdict tr tr')
     \<and> (trace_ok tr \<longrightarrow> trace_ok tr')"

lemma evolves_refl [simp]: "evolves tr tr"
  by (simp add: evolves_def same_identity_def same_verdict_def)

lemma evolves_trans: "evolves a b \<Longrightarrow> evolves b c \<Longrightarrow> evolves a c"
  by (auto simp: evolves_def same_identity_def same_verdict_def)

lemma append_stage_names:
  "stage_names (appendTraceStage tr st) = stage_names tr
   \<or> stage_names (appendTraceStage tr st) = stage_names tr @ [st_stage st]"
  "st_stage st \<in> set (stage_names (appendTraceStage tr st))"
  by (auto simp: appendTraceStage_def stage_names_def intro: rev_image_eqI [OF last_in_set])

lemma append_stage_fields [simp]:
  "tr_id (appendTraceStage tr st) = tr_id tr"
  "tr_commandId (appendTraceStage tr st) = tr_commandId tr"
  "tr_deviceId (appendTraceStage tr st) = tr_deviceId tr"
  "tr_tenantId (appendTraceStage tr st) = tr_tenantId tr"
  "tr_siteId (appendTraceStage tr st) = tr_siteId tr"
  "tr_requestedAt (appendTraceStage tr st) = tr_requestedAt tr"
  "tr_expectedValues (appendTraceStage tr st) = tr_expectedValues tr"
  "tr_outcome (appendTraceStage tr st) = tr_outcome tr"
  "tr_completedAt (appendTraceStage tr st) = tr_completedAt tr"
  "tr_durationMs (appendTraceStage tr st) = tr_durationMs tr"
  "tr_diagnosis (appendTraceStage tr st) = tr_diagnosis tr"
  "tr_settlingUntil (appendTraceStage tr st) = tr_settlingUntil tr"
  by (simp_all add: appendTraceStage_def)

lemma evolves_append [simp]: "evolves tr (appendTraceStage tr st)"
proof -
  have "trace_ok tr \<Longrightarrow> trace_ok (appendTraceStage tr st)"
    using append_stage_names(1) [where tr = tr and st = st] by (auto simp: trace_ok_def)
  then show ?thesis by (simp add: evolves_def same_identity_def same_verdict_def)
qed

lemma active_index_Some:
  "active_index name sts = Some n \<Longrightarrow> n < length sts \<and> st_stage (sts ! n) = name"
  unfolding active_index_def by (drule find_SomeD) auto

lemma replace_stage_names:
  assumes "st_stage st = name"
  shows "stage_names (replaceActiveTraceStage tr name st) = stage_names tr
    \<or> stage_names (replaceActiveTraceStage tr name st) = stage_names tr @ [name]"
proof (cases "active_index name (tr_stages tr)")
  case None
  then show ?thesis using append_stage_names(1) [where tr = tr and st = st] assms by (simp add: replaceActiveTraceStage_def)
next
  case (Some n)
  have "map st_stage ((tr_stages tr)[n := st]) = map st_stage (tr_stages tr)"
    using active_index_Some [OF Some] assms by (simp add: map_update list_update_same_conv)
  then show ?thesis by (simp add: replaceActiveTraceStage_def Some stage_names_def)
qed

lemma evolves_replace: "st_stage st = name \<Longrightarrow> evolves tr (replaceActiveTraceStage tr name st)"
proof -
  let ?tr = "replaceActiveTraceStage tr name st"
  assume "st_stage st = name"
  note n = replace_stage_names [OF this, of tr]
  have f: "tr_id ?tr = tr_id tr" "tr_outcome ?tr = tr_outcome tr" "tr_completedAt ?tr = tr_completedAt tr"
    "tr_settlingUntil ?tr = tr_settlingUntil tr" "same_identity tr ?tr" "same_verdict tr ?tr"
    by (auto simp: replaceActiveTraceStage_def same_identity_def same_verdict_def split: option.split)
  have "tr_commandId ?tr = tr_commandId tr" using f(5) by (simp add: same_identity_def)
  then have "trace_ok tr \<Longrightarrow> trace_ok ?tr" using n f by (auto simp: trace_ok_def)
  then show ?thesis using f by (simp add: evolves_def)
qed

lemma replace_outcome [simp]: "tr_outcome (replaceActiveTraceStage tr name st) = tr_outcome tr"
  by (simp add: replaceActiveTraceStage_def split: option.split)

lemma complete_fields [simp]:
  "tr_outcome (completeExecutionTrace host tr out t) = out"
  "stage_names (completeExecutionTrace host tr out t) = stage_names tr"
  by (simp_all add: completeExecutionTrace_def completeTrace_def stage_names_def Let_def)

text \<open>A running trace may be completed; as settled only with both stages recorded.\<close>

lemma evolves_complete:
  assumes "tr_outcome tr = Running" "out \<noteq> Running"
    and "out = Settled \<Longrightarrow> trace_ok tr \<Longrightarrow> Verified \<in> set (stage_names tr) \<and> SettledStage \<in> set (stage_names tr)"
  shows "evolves tr (completeExecutionTrace host tr out t)"
proof -
  let ?tr = "completeExecutionTrace host tr out t"
  have "same_identity tr ?tr" "tr_id ?tr = tr_id tr" "tr_completedAt ?tr = Some t"
    "tr_settlingUntil ?tr = tr_settlingUntil tr"
    by (simp_all add: completeExecutionTrace_def completeTrace_def same_identity_def Let_def)
  then show ?thesis using assms by (auto simp: evolves_def trace_ok_def same_identity_def)
qed

lemma evolves_complete_append:
  assumes "tr_outcome tr = Running" "out \<noteq> Running" "out \<noteq> Settled"
  shows "evolves tr (completeExecutionTrace host (appendTraceStage tr st) out t)"
  by (rule evolves_trans [OF evolves_append evolves_complete]) (use assms in simp_all)

lemma evolves_supersede: "tr_outcome tr = Running \<Longrightarrow> evolves tr (supersede host action t tr)"
  unfolding supersede_def Let_def
  by (rule evolves_trans [OF evolves_replace evolves_complete_append]) (simp_all add: make_stage_def)

lemma evolves_refresh: "refresh_trace host now tr = Inr tr' \<Longrightarrow> evolves tr tr'"
proof -
  assume r: "refresh_trace host now tr = Inr tr'"
  show ?thesis
  proof (cases "tr_outcome tr = Running \<and> settling_armed tr \<and> jle (the (tr_settlingUntil tr)) (now_num now)")
    case True
    with r obtain t where t: "tr' = completeExecutionTrace host
        (appendTraceStage (replaceActiveTraceStage tr Settling (make_stage Settling Complete t
            (js ''The stability window completed without contradictory telemetry.'')
            (Some [(js ''settleWindowCompletedAt'', JStr t)])))
          (make_stage SettledStage Complete t (js ''The device remained at the requested state.'') None)) Settled t"
      by (auto simp: refresh_trace_def and_then_Inr_iff Let_def)
    define a where "a = replaceActiveTraceStage tr Settling (make_stage Settling Complete t
            (js ''The stability window completed without contradictory telemetry.'')
            (Some [(js ''settleWindowCompletedAt'', JStr t)]))"
    define b where "b = appendTraceStage a
          (make_stage SettledStage Complete t (js ''The device remained at the requested state.'') None)"
    have ab: "evolves tr a" "evolves a b"
      unfolding a_def b_def by (rule evolves_replace) (simp_all add: make_stage_def)
    have names: "set (stage_names tr) \<subseteq> set (stage_names a)" "set (stage_names a) \<subseteq> set (stage_names b)"
      "SettledStage \<in> set (stage_names b)"
      using replace_stage_names [of "make_stage Settling Complete t
            (js ''The stability window completed without contradictory telemetry.'')
            (Some [(js ''settleWindowCompletedAt'', JStr t)])" Settling tr]
        append_stage_names [where tr = a
          and st = "make_stage SettledStage Complete t (js ''The device remained at the requested state.'') None"]
      by (auto simp: a_def b_def make_stage_def)
    have run: "tr_outcome b = Running" using True by (simp add: a_def b_def)
    have "Verified \<in> set (stage_names b)" if "trace_ok tr"
      using that True names by (auto simp: trace_ok_def settling_armed_def split: option.splits)
    then have "evolves tr tr'" if "trace_ok tr"
      using that names(3) evolves_trans [OF ab] evolves_complete [OF run, of Settled host t]
      by (metis evolves_trans a_def b_def t outcome.distinct(1))
    moreover have "same_identity tr tr'" "tr_outcome tr = Running"
      using evolves_trans [OF ab] True
      by (auto simp: t evolves_def same_identity_def completeExecutionTrace_def completeTrace_def Let_def
          simp flip: a_def b_def)
    ultimately show ?thesis by (auto simp: evolves_def)
  next
    case False
    with r show ?thesis
      by (auto simp: refresh_trace_def and_then_Inr_iff Let_def intro: evolves_complete_append split: if_splits)
  qed
qed

lemma evolves_verify: "evolves tr (verify_trace cfg now t expected vals observedAt ev why tr)"
proof -
  define st where "st = make_stage Verified Complete t
      (js ''Registry verified that observed values matched the request.'')
      (Some [(js ''expectedValues'', JObj expected), (js ''reportedValues'', JObj vals)])"
  have v: "st_stage st = Verified" by (simp add: st_def make_stage_def)
  have arm: "evolves a ((appendTraceStage a st)\<lparr>tr_settlingUntil := u, tr_lastVerifiedValues := w\<rparr>)" for a u w
  proof -
    let ?b = "(appendTraceStage a st)\<lparr>tr_settlingUntil := u, tr_lastVerifiedValues := w\<rparr>"
    have n: "stage_names ?b = stage_names (appendTraceStage a st)" by (simp add: stage_names_def)
    have "Verified \<in> set (stage_names ?b)" using append_stage_names(2) [where tr = a and st = st] by (simp add: n v)
    then have "trace_ok a \<Longrightarrow> trace_ok ?b"
      using append_stage_names(1) [where tr = a and st = st] by (auto simp: trace_ok_def n)
    then show ?thesis by (simp add: evolves_def same_identity_def same_verdict_def)
  qed
  show ?thesis
    unfolding verify_trace_def Let_def st_def [symmetric]
    by (rule evolves_trans [OF evolves_append evolves_trans [OF arm evolves_append]])
qed

subsection \<open>The abstract lifecycle\<close>

text \<open>
  What a call does to the executions, in three kinds of moves: traces evolve in place, an execution
  starts for a device whose latest execution is no longer running, a trace is forgotten.
\<close>

definition entry_evolves :: "jstr \<times> tracked_trace \<Rightarrow> jstr \<times> tracked_trace \<Rightarrow> bool" where
  "entry_evolves e e' \<longleftrightarrow> fst e' = fst e \<and> evolves (snd e) (snd e')"

definition numbered :: "jstr \<Rightarrow> int \<Rightarrow> bool" where
  "numbered cid n \<longleftrightarrow> 0 \<le> n \<and> (\<exists>p. cid = p @ [58] @ int_str n)"

inductive lifecycle_move :: "tracker \<Rightarrow> tracker \<Rightarrow> bool" where
  evolve: "list_all2 entry_evolves (tk_traces s) (tk_traces s') \<Longrightarrow> tk_latest s' = tk_latest s
    \<Longrightarrow> tk_sequence s' = tk_sequence s \<Longrightarrow> lifecycle_move s s'"
| start: "scopedCommandKey (tr_deviceId tr) (trace_scope tr) = Inr key
    \<Longrightarrow> (\<And>cid old. map_get (tk_latest s) key = Some cid \<Longrightarrow> map_get (tk_traces s) cid = Some old
          \<Longrightarrow> tr_outcome old \<noteq> Running)
    \<Longrightarrow> tr_outcome tr = Running \<Longrightarrow> trace_ok tr \<Longrightarrow> numbered (tr_commandId tr) (tk_sequence s + 1)
    \<Longrightarrow> tk_traces s' = map_set (tk_traces s) (tr_commandId tr) tr
    \<Longrightarrow> tk_latest s' = map_set (tk_latest s) key (tr_commandId tr)
    \<Longrightarrow> tk_sequence s' = tk_sequence s + 1 \<Longrightarrow> lifecycle_move s s'"
| forget: "tk_traces s' = map_remove (tk_traces s) cid
    \<Longrightarrow> tk_latest s' = tk_latest s
        \<or> map_get (tk_latest s) key = Some cid \<and> tk_latest s' = map_remove (tk_latest s) key
    \<Longrightarrow> tk_sequence s' = tk_sequence s \<Longrightarrow> lifecycle_move s s'"

abbreviation lifecycle_moves :: "tracker \<Rightarrow> tracker \<Rightarrow> bool" where
  "lifecycle_moves \<equiv> lifecycle_move\<^sup>*\<^sup>*"

lemma numbered_unique: "numbered cid m \<Longrightarrow> numbered cid n \<Longrightarrow> m = n"
proof -
  have t: "takeWhile (\<lambda>c. c \<noteq> 58) (rev (p @ [58] @ int_str k)) = rev (int_str k)" if "0 \<le> k" for p k
  proof -
    have "\<forall>c \<in> set (rev (int_str k)). c \<noteq> 58"
      using int_str_digits [OF that] by (auto simp: list_all_iff is_digit_def)
    then show ?thesis
      using takeWhile_append2 [of "rev (int_str k)" "\<lambda>c. c \<noteq> 58" "58 # rev p"] by simp
  qed
  assume "numbered cid m" "numbered cid n"
  then obtain p q where "cid = p @ [58] @ int_str m" "cid = q @ [58] @ int_str n" "0 \<le> m" "0 \<le> n"
    unfolding numbered_def by blast
  then have "rev (int_str m) = rev (int_str n)" using t [of m p] t [of n q] by metis
  then show ?thesis by simp
qed

definition tracker_inv :: "tracker \<Rightarrow> bool" where
  "tracker_inv s \<longleftrightarrow> distinct (map fst (tk_traces s)) \<and> 0 \<le> tk_sequence s
     \<and> (\<forall>cid tr. map_get (tk_traces s) cid = Some tr \<longrightarrow>
          tr_commandId tr = cid \<and> trace_ok tr
        \<and> (\<exists>n. numbered cid n \<and> n \<le> tk_sequence s)
        \<and> (\<exists>key. scopedCommandKey (tr_deviceId tr) (trace_scope tr) = Inr key
             \<and> (tr_outcome tr = Running \<longrightarrow> map_get (tk_latest s) key = Some cid)))"

lemma tracker_invD:
  assumes "tracker_inv s" "map_get (tk_traces s) cid = Some tr"
  obtains n key where "tr_commandId tr = cid" "trace_ok tr" "numbered cid n" "n \<le> tk_sequence s"
    "scopedCommandKey (tr_deviceId tr) (trace_scope tr) = Inr key"
    "tr_outcome tr = Running \<Longrightarrow> map_get (tk_latest s) key = Some cid"
  using assms unfolding tracker_inv_def by blast

lemma evolve_lookup:
  "list_all2 entry_evolves xs ys \<Longrightarrow>
     (case map_get xs k of None \<Rightarrow> map_get ys k = None | Some a \<Rightarrow> \<exists>b. map_get ys k = Some b \<and> evolves a b)"
proof (induction rule: list_all2_induct)
  case (Cons e xs e' ys)
  then show ?case by (cases e; cases e') (auto simp: entry_evolves_def map_get_def split: option.splits)
qed (simp add: map_get_def)

lemma evolve_lookup_back:
  "list_all2 entry_evolves xs ys \<Longrightarrow> map_get ys k = Some b \<Longrightarrow> \<exists>a. map_get xs k = Some a \<and> evolves a b"
  using evolve_lookup [of xs ys k] by (cases "map_get xs k") auto

lemma evolve_keys: "list_all2 entry_evolves xs ys \<Longrightarrow> map fst ys = map fst xs"
  by (induction rule: list_all2_induct) (auto simp: entry_evolves_def)

lemma evolves_running: "evolves a b \<Longrightarrow> tr_outcome b = Running \<Longrightarrow> tr_outcome a = Running"
  by (auto simp: evolves_def same_verdict_def)

lemma evolves_identity:
  "evolves a b \<Longrightarrow> tr_commandId b = tr_commandId a \<and> tr_deviceId b = tr_deviceId a \<and> trace_scope b = trace_scope a"
  by (simp add: evolves_def same_identity_def trace_scope_def)

lemma evolves_ok: "evolves a b \<Longrightarrow> trace_ok a \<Longrightarrow> trace_ok b"
  by (simp add: evolves_def)

lemma move_evolve_inv:
  assumes inv: "tracker_inv s" and ev: "list_all2 entry_evolves (tk_traces s) (tk_traces s')"
    and same: "tk_latest s' = tk_latest s" "tk_sequence s' = tk_sequence s"
  shows "tracker_inv s'"
proof -
  have "tr_commandId b = cid \<and> trace_ok b \<and> (\<exists>n. numbered cid n \<and> n \<le> tk_sequence s')
      \<and> (\<exists>key. scopedCommandKey (tr_deviceId b) (trace_scope b) = Inr key
           \<and> (tr_outcome b = Running \<longrightarrow> map_get (tk_latest s') key = Some cid))"
    if b: "map_get (tk_traces s') cid = Some b" for cid b
  proof -
    obtain a where a: "map_get (tk_traces s) cid = Some a" "evolves a b"
      using evolve_lookup_back [OF ev b] by blast
    from tracker_invD [OF inv a(1)] show ?thesis
      using evolves_identity [OF a(2)] evolves_ok [OF a(2)] evolves_running [OF a(2)]
      unfolding same by metis
  qed
  moreover have "distinct (map fst (tk_traces s'))" "0 \<le> tk_sequence s'"
    using inv evolve_keys [OF ev] same by (simp_all add: tracker_inv_def)
  ultimately show ?thesis by (simp add: tracker_inv_def)
qed

lemma move_inv: "lifecycle_move s s' \<Longrightarrow> tracker_inv s \<Longrightarrow> tracker_inv s'"
proof (induction rule: lifecycle_move.induct)
  case (evolve s s')
  then show ?case using move_evolve_inv by blast
next
  case (start tr key s s')
  have "tr_commandId b = cid \<and> trace_ok b \<and> (\<exists>n. numbered cid n \<and> n \<le> tk_sequence s')
      \<and> (\<exists>k. scopedCommandKey (tr_deviceId b) (trace_scope b) = Inr k
           \<and> (tr_outcome b = Running \<longrightarrow> map_get (tk_latest s') k = Some cid))"
    if b: "map_get (tk_traces s') cid = Some b" for cid b
  proof (cases "cid = tr_commandId tr")
    case True
    then have "b = tr" using b start by (simp add: store_simps)
    then show ?thesis using True start by (auto simp: store_simps)
  next
    case False
    then have b': "map_get (tk_traces s) cid = Some b" using b start by (simp add: store_simps)
    from tracker_invD [OF start.prems this] obtain n k where k: "tr_commandId b = cid" "trace_ok b"
      "numbered cid n" "n \<le> tk_sequence s" "scopedCommandKey (tr_deviceId b) (trace_scope b) = Inr k"
      "tr_outcome b = Running \<Longrightarrow> map_get (tk_latest s) k = Some cid" by metis
    have "k \<noteq> key" if "tr_outcome b = Running" using that k(6) start(2) b' by blast
    then show ?thesis using k start by (force simp: store_simps)
  qed
  moreover have "distinct (map fst (tk_traces s'))" "0 \<le> tk_sequence s'"
    using start by (simp_all add: tracker_inv_def distinct_map_set)
  ultimately show ?case by (simp add: tracker_inv_def)
next
  case (forget s' s cid key)
  have "tr_commandId b = k \<and> trace_ok b \<and> (\<exists>n. numbered k n \<and> n \<le> tk_sequence s')
      \<and> (\<exists>key'. scopedCommandKey (tr_deviceId b) (trace_scope b) = Inr key'
           \<and> (tr_outcome b = Running \<longrightarrow> map_get (tk_latest s') key' = Some k))"
    if b: "map_get (tk_traces s') k = Some b" for k b
  proof -
    have kb: "map_get (tk_traces s) k = Some b" "k \<noteq> cid"
      using b forget(1) by (auto simp: store_simps split: if_splits)
    from tracker_invD [OF forget.prems kb(1)] show ?thesis
      using forget(2,3) kb(2) by (metis map_get_remove option.inject)
  qed
  moreover have "distinct (map fst (tk_traces s'))" "0 \<le> tk_sequence s'"
    using forget by (simp_all add: tracker_inv_def distinct_map_remove)
  ultimately show ?case by (simp add: tracker_inv_def)
qed

lemma moves_inv: "lifecycle_moves s s' \<Longrightarrow> tracker_inv s \<Longrightarrow> tracker_inv s'"
  by (induction rule: rtranclp_induct) (auto intro: move_inv)

text \<open>Every call is a sequence of moves.\<close>

lemma move_evolve_one:
  assumes "map_get (tk_traces s) (tr_commandId tr') = Some tr" "evolves tr tr'"
    and "tk_traces s' = map_set (tk_traces s) (tr_commandId tr') tr'"
    and "tk_latest s' = tk_latest s" "tk_sequence s' = tk_sequence s"
  shows "lifecycle_move s s'"
proof (rule lifecycle_move.evolve)
  have "list_all2 entry_evolves xs (replace_entry k tr' xs)" if "map_of xs k = Some tr" for xs k
    using that assms(2)
    by (induction xs) (auto simp: entry_evolves_def list_all2_same split: if_splits)
  moreover have "tr_commandId tr' \<in> fst ` set (tk_traces s)"
    using assms(1) by (metis map_get_def map_of_eq_None_iff option.distinct(1))
  ultimately show "list_all2 entry_evolves (tk_traces s) (tk_traces s')"
    using assms(1,3) by (simp add: map_set_def map_get_def)
qed (use assms in simp_all)

lemma move_same_traces:
  "tk_traces s' = tk_traces s \<Longrightarrow> tk_latest s' = tk_latest s \<Longrightarrow> tk_sequence s' = tk_sequence s
    \<Longrightarrow> lifecycle_move s s'"
  by (rule lifecycle_move.evolve) (simp_all add: list_all2_same entry_evolves_def)

lemma put_trace_move:
  assumes "tracker_inv s" "map_get (tk_traces s) cid = Some tr" "evolves tr tr'"
  shows "lifecycle_move s (put_trace s tr')"
proof -
  have "tr_commandId tr' = cid"
    using tracker_invD [OF assms(1,2)] evolves_identity [OF assms(3)] by metis
  then show ?thesis
    using assms by (intro move_evolve_one [of s tr' tr]) (simp_all add: put_trace_def)
qed

lemma refresh_list_evolves: "list_all2 entry_evolves xs (fst (refresh_list host now xs))"
proof (induction xs)
  case (Cons e xs)
  obtain k tr where e: "e = (k, tr)" by (cases e)
  show ?case
    using Cons evolves_refresh [of host now tr]
    by (auto simp: e entry_evolves_def list_all2_same split: sum.split prod.splits)
qed simp

lemma refresh_traces_move: "lifecycle_move s (fst (refreshExecutionTraces host now s))"
  using refresh_list_evolves [of "tk_traces s" host now]
  by (auto simp: refreshExecutionTraces_def split: prod.splits intro: lifecycle_move.evolve)

lemma refresh_command_move: "lifecycle_move s (refreshDeviceCommand now key dev s)"
  by (rule move_same_traces)
    (auto simp: refreshDeviceCommand_def put_command_def record_log_def split: option.split)

lemma forget_step_moves:
  "lifecycle_moves s (fst st) \<Longrightarrow> lifecycle_moves s (fst (forget_step st tr))"
proof -
  assume m: "lifecycle_moves s (fst st)"
  have "lifecycle_moves (fst st) (fst (forget_step st tr))"
  proof (cases "snd st")
    case (Inl e)
    then show ?thesis by (cases st) (simp add: forget_step_def)
  next
    case (Inr u)
    obtain s0 where st: "st = (s0, Inr u)" using Inr by (cases st) auto
    let ?s1 = "s0\<lparr>tk_traces := map_remove (tk_traces s0) (tr_commandId tr)\<rparr>"
    have m1: "lifecycle_move s0 ?s1" by (rule lifecycle_move.forget [where cid = "tr_commandId tr"]) simp_all
    show ?thesis
    proof (cases "scopedCommandKey (tr_deviceId tr) (trace_scope tr)")
      case (Inl e)
      then show ?thesis using m1 by (auto simp: st forget_step_def Let_def)
    next
      case (Inr key)
      have "lifecycle_move s0 (?s1\<lparr>tk_latest := map_remove (tk_latest ?s1) key\<rparr>)"
        if "map_get (tk_latest s0) key = Some (tr_commandId tr)"
        by (rule lifecycle_move.forget [where cid = "tr_commandId tr" and key = key]) (use that in simp_all)
      then show ?thesis using Inr m1 by (auto simp: st forget_step_def Let_def)
    qed
  qed
  with m show ?thesis by simp
qed

lemma trim_moves: "lifecycle_moves s (fst (trimExecutionTraces host cfg s))"
proof -
  have "lifecycle_moves s (fst st) \<Longrightarrow> lifecycle_moves s (fst (foldl forget_step st trs))" for st trs
  proof (induction trs arbitrary: st)
    case (Cons tr trs)
    from Cons.IH [OF forget_step_moves [OF Cons.prems]] show ?case by simp
  qed simp
  then show ?thesis by (simp add: trimExecutionTraces_def)
qed

lemma supersede_move: "tracker_inv s \<Longrightarrow> lifecycle_moves s (supersede_latest host key action t s)"
  by (auto simp: supersede_latest_def intro!: r_into_rtranclp put_trace_move evolves_supersede split: option.split)

text \<open>After superseding, the latest execution of the device is not running.\<close>

lemma supersede_done:
  assumes "tracker_inv s" "map_get (tk_latest s') key = Some cid" "map_get (tk_traces s') cid = Some old"
    and s': "s' = supersede_latest host key action t s"
  shows "tr_outcome old \<noteq> Running"
proof -
  have l: "map_get (tk_latest s) key = Some cid"
    using assms(2) by (auto simp: s' supersede_latest_def put_trace_def split: option.splits if_splits)
  have super: "tr_outcome (supersede host action t tr) = Superseded" for tr by (simp add: supersede_def Let_def)
  show ?thesis
  proof (cases "map_get (tk_traces s) cid")
    case None
    then show ?thesis using assms(3) by (auto simp: s' supersede_latest_def l split: if_splits)
  next
    case (Some tr)
    obtain n where n: "numbered cid n" "tr_commandId tr = cid" using tracker_invD [OF assms(1) Some] by metis
    then have "cid \<noteq> []" by (auto simp: numbered_def)
    moreover have "tr_commandId (supersede host action t tr) = cid" if "tr_outcome tr = Running"
      using evolves_identity [OF evolves_supersede [OF that]] n(2) by simp
    ultimately show ?thesis
      using assms(3) Some by (auto simp: s' supersede_latest_def l put_trace_def store_simps super split: if_splits)
  qed
qed

lemma new_command_numbered: "0 \<le> n \<Longrightarrow> numbered (cm_id (new_command cfg now dev n cr t)) n"
proof -
  assume "0 \<le> n"
  moreover have "cm_id (new_command cfg now dev n cr t)
      = (dev @ [58] @ device_action_str (cr_action cr) @ [58] @ int_str now) @ [58] @ int_str n"
    by (simp add: new_command_def)
  ultimately show ?thesis unfolding numbered_def by blast
qed

lemma new_trace_ok: "trace_ok (new_trace dev cr c)"
  by (simp add: trace_ok_def new_trace_def stage_names_def make_stage_def)

lemma pending_moves:
  assumes inv: "tracker_inv s"
  shows "lifecycle_moves s (fst (markDeviceCommandPending host cfg now dev cr s))"
proof (cases "to_iso (Some now)")
  case (Inr t)
  show ?thesis
  proof (cases "scopedCommandKey dev (cr_scope cr)")
    case (Inr key)
    define s1 where "s1 = supersede_latest host key (cr_action cr) t s"
    define c where "c = new_command cfg now dev (tk_sequence s1 + 1) cr t"
    define tr where "tr = new_trace dev cr c"
    define s3 where "s3 = put_trace (put_command (s1\<lparr>tk_sequence := tk_sequence s1 + 1\<rparr>) key c) tr"
    define s4 where "s4 = s3\<lparr>tk_latest := map_set (tk_latest s3) key (tr_commandId tr)\<rparr>"
    have m1: "lifecycle_moves s s1" unfolding s1_def by (rule supersede_move [OF inv])
    have inv1: "tracker_inv s1" by (rule moves_inv [OF m1 inv])
    have sc: "scopedCommandKey (tr_deviceId tr) (trace_scope tr) = Inr key"
      using Inr by (cases "cr_scope cr") (simp add: tr_def new_trace_def trace_scope_def)
    have "lifecycle_move s1 s4"
    proof (rule lifecycle_move.start [OF sc])
      show "tr_outcome old \<noteq> Running"
        if "map_get (tk_latest s1) key = Some cid" "map_get (tk_traces s1) cid = Some old" for cid old
        using supersede_done [OF inv that s1_def] .
      show "numbered (tr_commandId tr) (tk_sequence s1 + 1)"
        using new_command_numbered [of "tk_sequence s1 + 1"] inv1
        by (simp add: tr_def new_trace_def c_def tracker_inv_def)
    qed (simp_all add: tr_def new_trace_ok s4_def s3_def put_trace_def put_command_def, simp add: new_trace_def)
    with m1 have m4: "lifecycle_moves s s4" by simp
    obtain s5 res where trim: "trimExecutionTraces host cfg s4 = (s5, res)" by (cases "trimExecutionTraces host cfg s4")
    have "lifecycle_moves s4 s5" using trim_moves [of s4 host cfg] trim by simp
    moreover have "lifecycle_move s5 (record_log s5 e)" for e by (rule move_same_traces) (simp_all add: record_log_def)
    moreover have "fst (markDeviceCommandPending host cfg now dev cr s) = s5
        \<or> (\<exists>e. fst (markDeviceCommandPending host cfg now dev cr s) = record_log s5 e)"
      using trim unfolding s4_def s3_def tr_def c_def s1_def
      by (auto simp: markDeviceCommandPending_def \<open>to_iso (Some now) = Inr t\<close> Inr Let_def split: sum.split)
    ultimately show ?thesis using m4 by (metis rtranclp.rtrancl_into_rtrancl rtranclp_trans)
  qed (simp add: markDeviceCommandPending_def Inr)
qed (simp add: markDeviceCommandPending_def)

lemma attempt_moves:
  "(\<And>a. r = Inr a \<Longrightarrow> lifecycle_moves s (fst (f a))) \<Longrightarrow> lifecycle_moves s (fst (attempt s r f))"
  by (cases r) auto

lemma if_moves:
  "(c \<Longrightarrow> lifecycle_moves s (fst a)) \<Longrightarrow> (\<not> c \<Longrightarrow> lifecycle_moves s (fst b))
    \<Longrightarrow> lifecycle_moves s (fst (if c then a else b))"
  by simp

lemma published_moves:
  assumes "tracker_inv s"
  shows "lifecycle_moves s (fst (markDeviceCommandPublished now dev cid ev s))"
proof -
  have "lifecycle_move s (put_trace s (appendTraceStage tr st))" if "map_get (tk_traces s) cid = Some tr" for tr st
    using assms that by (rule put_trace_move) simp
  then show ?thesis
    by (auto simp: markDeviceCommandPublished_def Let_def intro!: attempt_moves split: option.split)
qed

lemma fail_and_complete_moves:
  assumes "tracker_inv s" "map_get (tk_traces s) cid = Some tr" "tr_outcome tr = Running"
  shows "lifecycle_moves s (put_trace (fst (failCurrentCommand dev key c msg now s))
    (completeExecutionTrace host (appendTraceStage tr st) Failed t))"
proof -
  let ?s1 = "fst (failCurrentCommand dev key c msg now s)"
  have same: "tk_traces ?s1 = tk_traces s" "tk_latest ?s1 = tk_latest s" "tk_sequence ?s1 = tk_sequence s"
    by (simp_all add: failCurrentCommand_def Let_def put_command_def record_log_def)
  have m: "lifecycle_move s ?s1" by (rule move_same_traces) (simp_all add: same)
  have "lifecycle_move ?s1 (put_trace ?s1 (completeExecutionTrace host (appendTraceStage tr st) Failed t))"
    by (rule put_trace_move [OF move_inv [OF m assms(1)]])
      (use assms in \<open>auto simp: same intro: evolves_complete_append\<close>)
  with m show ?thesis by simp
qed

lemma transport_failed_moves:
  assumes "tracker_inv s"
  shows "lifecycle_moves s (fst (markDeviceCommandTransportFailed host now dev cid msg s))"
  using fail_and_complete_moves [OF assms]
  by (auto simp: markDeviceCommandTransportFailed_def Let_def intro!: attempt_moves split: option.split)

lemma failed_moves:
  assumes "tracker_inv s"
  shows "lifecycle_moves s (fst (markDeviceCommandFailed host now dev cid why msg s))"
  using fail_and_complete_moves [OF assms]
  by (auto simp: markDeviceCommandFailed_def Let_def case_prod_beta intro!: attempt_moves split: option.split)

lemma traces_moves: "lifecycle_moves s (fst (getExecutionTraces host now sc limit s))"
  using refresh_traces_move [of s host now]
  by (auto simp: getExecutionTraces_def split: prod.split sum.split)

lemma latest_moves: "lifecycle_moves s (fst (getLatestExecutionTrace host now dev sc s))"
  using refresh_traces_move [of s host now]
  by (cases "refreshExecutionTraces host now s"; cases "scopedCommandKey dev sc")
    (auto simp: getLatestExecutionTrace_def split: sum.split option.split)

lemma get_command_moves: "lifecycle_moves s (fst (getCommand now dev sc s))"
  by (cases "scopedCommandKey dev sc") (auto simp: getCommand_def Let_def refresh_command_move)

lemma drift_moves: "tracker_inv s \<Longrightarrow> lifecycle_moves s (observePossibleDrift host key vals t s)"
  by (auto simp: observePossibleDrift_def intro!: r_into_rtranclp put_trace_move evolves_complete_append
      split: option.split)

lemma observe_pending_moves:
  assumes inv: "tracker_inv s"
  shows "lifecycle_moves s (fst (observe_pending host cfg now key dev vals observedAt ev why c s))"
proof -
  have upd: "lifecycle_moves s0 (update_trace s0 (map_get (tk_traces s0) cid) f)"
    if "tracker_inv s0" "\<And>tr. evolves tr (f tr)" for s0 cid f
    using put_trace_move [OF that(1)] that(2) by (auto simp: update_trace_def split: option.split)
  have note_stage: "lifecycle_moves s (update_trace s x (\<lambda>tr. appendTraceStage tr st))"
    if "x = map_get (tk_traces s) cid" for x cid st
    unfolding that by (rule upd [OF inv evolves_append])
  have ack: "lifecycle_moves s (record_log (update_trace (put_command s key d) (map_get (tk_traces s) cid)
      (verify_trace cfg now t ex vals observedAt ev why)) e)" for d cid t ex e
  proof -
    have "lifecycle_move s (put_command s key d)" by (rule move_same_traces) (simp_all add: put_command_def)
    moreover from move_inv [OF this inv]
    have "lifecycle_moves (put_command s key d) (update_trace (put_command s key d) (map_get (tk_traces s) cid)
        (verify_trace cfg now t ex vals observedAt ev why))"
      using upd [of "put_command s key d" "verify_trace cfg now t ex vals observedAt ev why" cid] evolves_verify
      by (simp add: put_command_def)
    moreover have "lifecycle_move x (record_log x e)" for x by (rule move_same_traces) (simp_all add: record_log_def)
    ultimately show ?thesis by (meson converse_rtranclp_into_rtranclp rtranclp.rtrancl_into_rtrancl)
  qed
  show ?thesis
  proof (cases "map_get (tk_traces s) (cm_id c)")
    case None
    show ?thesis
      unfolding observe_pending_def Let_def None
      by (intro if_moves attempt_moves) (simp_all add: ack [of _ "cm_id c", unfolded None])
  next
    case (Some tr)
    show ?thesis
      unfolding observe_pending_def Let_def Some
      by (intro if_moves attempt_moves; simp only: option.case fst_conv; (intro attempt_moves)?;
          simp add: ack [of _ "cm_id c", unfolded Some] note_stage [OF Some [symmetric]])
  qed
qed

lemma telemetry_moves:
  assumes inv: "tracker_inv s"
  shows "lifecycle_moves s (fst (observeTelemetry host cfg now0 now1 now2 dev vals observedAt ev sc why s))"
proof (cases "scopedCommandKey dev sc")
  case (Inr key)
  obtain s1 res where r: "refreshExecutionTraces host now1 (refreshDeviceCommand now0 key dev s) = (s1, res)"
    by fastforce
  have m: "lifecycle_moves s s1"
    using refresh_command_move [of s now0 key dev] refresh_traces_move [of "refreshDeviceCommand now0 key dev s" host now1]
    by (simp add: r)
  note inv1 = moves_inv [OF m inv]
  show ?thesis
    using m rtranclp_trans [OF m drift_moves [OF inv1]] rtranclp_trans [OF m observe_pending_moves [OF inv1]]
    by (auto simp: observeTelemetry_def Inr r split: sum.split option.split)
qed (simp add: observeTelemetry_def)

lemma step_moves: "tracker_step host s s' \<Longrightarrow> tracker_inv s \<Longrightarrow> lifecycle_moves s s'"
  by (induction rule: tracker_step.induct)
    (auto intro: get_command_moves pending_moves published_moves transport_failed_moves failed_moves
      traces_moves latest_moves telemetry_moves)

lemma reachable_inv: "tracker_reachable host s \<Longrightarrow> tracker_inv s"
proof (induction rule: tracker_reachable.induct)
  case start
  show ?case by (simp add: tracker_inv_def empty_tracker_def store_simps)
next
  case (step s s')
  then show ?case using step_moves moves_inv by blast
qed

lemma steps_moves: "(tracker_step host)\<^sup>*\<^sup>* s s' \<Longrightarrow> tracker_inv s \<Longrightarrow> lifecycle_moves s s' \<and> tracker_inv s'"
  by (induction rule: rtranclp_induct) (auto dest: step_moves intro: moves_inv)

text \<open>
  C10.  In every state the tracker can reach, whatever calls, settings and clock readings led there,
  the running executions of a device (a tenant, a site and a device id) are at most one: it is the
  device's latest.  An execution is running exactly while it has no completion time, its first stage
  is the request, and it is settled only after its values were verified.
\<close>

theorem at_most_one_running_execution:
  assumes "tracker_reachable host s" "map_get (tk_traces s) cid = Some tr"
  shows "tr_commandId tr = cid \<and> tr_id tr = cid
    \<and> (tr_outcome tr = Running \<longleftrightarrow> tr_completedAt tr = None)
    \<and> tr_stages tr \<noteq> [] \<and> st_stage (hd (tr_stages tr)) = Requested
    \<and> (tr_outcome tr = Settled \<longrightarrow> Verified \<in> set (map st_stage (tr_stages tr)))
    \<and> (\<forall>cid' tr'. map_get (tk_traces s) cid' = Some tr' \<and> tr_outcome tr = Running \<and> tr_outcome tr' = Running
         \<and> tr_deviceId tr' = tr_deviceId tr \<and> tr_tenantId tr' = tr_tenantId tr \<and> tr_siteId tr' = tr_siteId tr
         \<longrightarrow> cid' = cid)"
proof -
  note inv = reachable_inv [OF assms(1)]
  have t: "tr_commandId tr = cid" "trace_ok tr" using tracker_invD [OF inv assms(2)] by metis+
  have run: "\<exists>key. scopedCommandKey (tr_deviceId u) (trace_scope u) = Inr key
      \<and> map_get (tk_latest s) key = Some k"
    if "map_get (tk_traces s) k = Some u" "tr_outcome u = Running" for k u
    using tracker_invD [OF inv that(1)] that(2) by metis
  have "cid' = cid" if "map_get (tk_traces s) cid' = Some tr'" "tr_outcome tr = Running" "tr_outcome tr' = Running"
    "tr_deviceId tr' = tr_deviceId tr" "trace_scope tr' = trace_scope tr" for cid' tr'
    using run [OF assms(2) that(2)] run [OF that(1,3)] that(4,5) by auto
  then show ?thesis
    using t by (auto simp: trace_ok_def stage_names_def trace_scope_def hd_map)
qed

definition settled_verdict :: "jstr \<Rightarrow> tracked_trace \<Rightarrow> tracker \<Rightarrow> bool" where
  "settled_verdict cid tr s \<longleftrightarrow> (\<exists>n. numbered cid n \<and> n \<le> tk_sequence s)
     \<and> (\<forall>tr'. map_get (tk_traces s) cid = Some tr' \<longrightarrow> same_verdict tr tr')"

lemma move_keeps_verdict:
  assumes "lifecycle_move s s'" "tracker_inv s" "settled_verdict cid tr s" "tr_outcome tr \<noteq> Running"
  shows "settled_verdict cid tr s'"
  using assms(1)
proof (cases rule: lifecycle_move.cases)
  case evolve
  have "same_verdict tr b" if b: "map_get (tk_traces s') cid = Some b" for b
  proof -
    obtain a where a: "map_get (tk_traces s) cid = Some a" "evolves a b"
      using evolve_lookup_back [OF evolve(1) b] by blast
    then have "same_verdict tr a" using assms(3) by (simp add: settled_verdict_def)
    with a(2) assms(4) show ?thesis by (auto simp: evolves_def same_verdict_def)
  qed
  then show ?thesis using assms(3) evolve(3) by (auto simp: settled_verdict_def)
next
  case (start tr0 key)
  obtain n where n: "numbered cid n" "n \<le> tk_sequence s" using assms(3) by (auto simp: settled_verdict_def)
  then have "cid \<noteq> tr_commandId tr0" using start(5) numbered_unique by fastforce
  then show ?thesis using assms(3) start n by (auto simp: settled_verdict_def store_simps)
next
  case (forget k key)
  then show ?thesis using assms(3) by (auto simp: settled_verdict_def store_simps split: if_splits)
qed

lemma moves_keep_verdict:
  "lifecycle_moves s s' \<Longrightarrow> tracker_inv s \<Longrightarrow> settled_verdict cid tr s \<Longrightarrow> tr_outcome tr \<noteq> Running
    \<Longrightarrow> settled_verdict cid tr s'"
proof (induction rule: rtranclp_induct)
  case (step t u)
  then show ?case using move_keeps_verdict moves_inv by blast
qed

text \<open>
  C11.  A completed execution is final: whatever calls follow, as long as it is remembered it keeps
  its outcome, completion time, duration and diagnosis; its command id is never given to another.
\<close>

theorem completed_execution_is_final:
  assumes "tracker_reachable host s" "(tracker_step host)\<^sup>*\<^sup>* s s'"
    and "map_get (tk_traces s) cid = Some tr" "tr_outcome tr \<noteq> Running"
    and "map_get (tk_traces s') cid = Some tr'"
  shows "tr_outcome tr' = tr_outcome tr \<and> tr_completedAt tr' = tr_completedAt tr
    \<and> tr_durationMs tr' = tr_durationMs tr \<and> tr_diagnosis tr' = tr_diagnosis tr"
proof -
  note inv = reachable_inv [OF assms(1)]
  have "settled_verdict cid tr s"
    using tracker_invD [OF inv assms(3)] assms(3) by (auto simp: settled_verdict_def same_verdict_def)
  then have "settled_verdict cid tr s'"
    using moves_keep_verdict steps_moves [OF assms(2) inv] inv assms(4) by blast
  with assms(5) show ?thesis by (simp add: settled_verdict_def same_verdict_def)
qed

subsection \<open>Acknowledgement and isolation\<close>

lemma refresh_command_unacked:
  "map_get (tk_commands (refreshDeviceCommand now key dev s)) k = Some c' \<Longrightarrow> cm_status c' \<noteq> NoAck
    \<Longrightarrow> map_get (tk_commands s) k = Some c'"
  by (auto simp: refreshDeviceCommand_def record_log_def put_command_def store_simps split: option.splits if_splits)

lemma refresh_command_pending:
  "map_get (tk_commands (refreshDeviceCommand now key dev s)) key = Some c \<Longrightarrow> cm_status c = Pending
    \<Longrightarrow> map_get (tk_commands s) key = Some c \<and> \<not> jless (cm_expiresAt c) (now_num now)"
  by (auto simp: refreshDeviceCommand_def record_log_def put_command_def store_simps split: option.splits if_splits)

lemma refresh_command_other:
  "k \<noteq> key \<Longrightarrow> map_get (tk_commands (refreshDeviceCommand now key dev s)) k = map_get (tk_commands s) k"
  by (auto simp: refreshDeviceCommand_def record_log_def put_command_def store_simps split: option.splits)

lemma commands_unchanged [simp]:
  "tk_commands (fst (refreshExecutionTraces host now s)) = tk_commands s"
  "tk_commands (put_trace s tr) = tk_commands s"
  "tk_commands (update_trace s x f) = tk_commands s"
  "tk_commands (record_log s e) = tk_commands s"
  "tk_commands (supersede_latest host key action t s) = tk_commands s"
  "tk_commands (observePossibleDrift host key vals t s) = tk_commands s"
  by (simp_all add: refreshExecutionTraces_def put_trace_def update_trace_def record_log_def supersede_latest_def
      observePossibleDrift_def split: prod.split option.split)

lemma trim_commands [simp]: "tk_commands (fst (trimExecutionTraces host cfg s)) = tk_commands s"
proof -
  have f: "tk_commands (fst (forget_step st tr)) = tk_commands (fst st)" for st tr
    by (cases st; cases "snd st"; cases "scopedCommandKey (tr_deviceId tr) (trace_scope tr)")
      (auto simp: forget_step_def Let_def)
  have "tk_commands (fst (foldl forget_step st trs)) = tk_commands (fst st)" for st trs
    by (induction trs arbitrary: st) (simp_all add: f)
  then show ?thesis by (simp add: trimExecutionTraces_def)
qed

lemma pending_commands:
  "tk_commands (fst (markDeviceCommandPending host cfg now dev cr s)) = tk_commands s
   \<or> (\<exists>key t n. scopedCommandKey dev (cr_scope cr) = Inr key
        \<and> tk_commands (fst (markDeviceCommandPending host cfg now dev cr s))
          = map_set (tk_commands s) key (new_command cfg now dev n cr t))"
proof (cases "to_iso (Some now)")
  case (Inr t)
  show ?thesis
  proof (cases "scopedCommandKey dev (cr_scope cr)")
    case (Inr key)
    define s1 where "s1 = supersede_latest host key (cr_action cr) t s"
    define c where "c = new_command cfg now dev (tk_sequence s1 + 1) cr t"
    define s3 where "s3 = put_trace (put_command (s1\<lparr>tk_sequence := tk_sequence s1 + 1\<rparr>) key c) (new_trace dev cr c)"
    define s4 where "s4 = s3\<lparr>tk_latest := map_set (tk_latest s3) key (tr_commandId (new_trace dev cr c))\<rparr>"
    have c: "tk_commands s4 = map_set (tk_commands s) key c"
      by (simp add: s4_def s3_def put_command_def s1_def)
    obtain s5 res where trim: "trimExecutionTraces host cfg s4 = (s5, res)" by (cases "trimExecutionTraces host cfg s4")
    have "tk_commands s5 = tk_commands s4" using trim_commands [of host cfg s4] trim by simp
    moreover have "tk_commands (fst (markDeviceCommandPending host cfg now dev cr s)) = tk_commands s5"
      using trim unfolding s4_def s3_def c_def s1_def
      by (auto simp: markDeviceCommandPending_def \<open>to_iso (Some now) = Inr t\<close> Inr Let_def split: sum.split)
    ultimately show ?thesis using c Inr unfolding c_def by metis
  qed (simp add: markDeviceCommandPending_def Inr)
qed (simp add: markDeviceCommandPending_def)

lemma observe_pending_commands:
  "tk_commands (fst (observe_pending host cfg now key dev vals observedAt ev why c s)) = tk_commands s
   \<or> (valuesMatch (cm_expectedValues c) vals
      \<and> \<not> time_less (date_parse host observedAt) (date_parse host (cm_requestedAt c))
      \<and> (ev = None \<or> ev = Some [] \<or> ev = Some (cm_id c))
      \<and> (\<exists>c'. cm_id c' = cm_id c \<and> tk_commands (fst (observe_pending host cfg now key dev vals observedAt ev why c s))
          = map_set (tk_commands s) key c'))"
proof -
  have att: "tk_commands (fst (attempt s r f)) = tk_commands s"
    if "\<And>a. tk_commands (fst (f a)) = tk_commands s" for r :: "jstr result" and f :: "jstr \<Rightarrow> tracker \<times> unit result"
    using that by (cases r) auto
  show ?thesis
  proof (cases "(ev \<noteq> None \<and> ev \<noteq> Some [] \<and> ev \<noteq> Some (cm_id c))
      \<or> time_less (date_parse host observedAt) (date_parse host (cm_requestedAt c))
      \<or> \<not> valuesMatch (cm_expectedValues c) vals")
    case True
    then show ?thesis
      by (auto simp: observe_pending_def Let_def att split: option.split)
  next
    case False
    then have e: "ev = None \<or> ev = Some [] \<or> ev = Some (cm_id c)" by blast
    show ?thesis
    proof (cases "to_iso (Some now)")
      case (Inl x)
      then show ?thesis using False by (auto simp: observe_pending_def Let_def)
    next
      case (Inr t)
      define d where "d = c\<lparr>cm_status := Acked, cm_message := Some (js ''Device reported the requested state.''),
        cm_displayUntil := jadd (now_num now) (Fin 5000)\<rparr>"
      have "tk_commands (fst (observe_pending host cfg now key dev vals observedAt ev why c s))
          = map_set (tk_commands s) key d"
        using False Inr by (auto simp: observe_pending_def Let_def put_command_def d_def)
      moreover have "cm_id d = cm_id c" by (simp add: d_def)
      ultimately show ?thesis using False e by blast
    qed
  qed
qed

lemma telemetry_commands:
  assumes "map_get (tk_commands (fst (observeTelemetry host cfg now0 now1 now2 dev vals observedAt ev sc why s))) key = Some c'"
    and "map_get (tk_commands s) key \<noteq> Some c'" "cm_status c' = Acked"
  shows "\<exists>c. scopedCommandKey dev sc = Inr key \<and> map_get (tk_commands s) key = Some c \<and> cm_status c = Pending
    \<and> cm_id c' = cm_id c \<and> \<not> jless (cm_expiresAt c) (now_num now0) \<and> valuesMatch (cm_expectedValues c) vals
    \<and> \<not> time_less (date_parse host observedAt) (date_parse host (cm_requestedAt c))
    \<and> (ev = None \<or> ev = Some [] \<or> ev = Some (cm_id c))"
proof -
  obtain k where k: "scopedCommandKey dev sc = Inr k"
    using assms by (cases "scopedCommandKey dev sc") (auto simp: observeTelemetry_def)
  obtain s1 res where r: "refreshExecutionTraces host now1 (refreshDeviceCommand now0 k dev s) = (s1, res)"
    by fastforce
  have s1: "tk_commands s1 = tk_commands (refreshDeviceCommand now0 k dev s)"
    using commands_unchanged(1) [of host now1 "refreshDeviceCommand now0 k dev s"] r by simp
  have old: "map_get (tk_commands s1) key \<noteq> Some c'"
    using refresh_command_unacked [of now0 k dev s key c'] assms(2,3) by (auto simp: s1)
  then obtain c where c: "map_get (tk_commands s1) k = Some c" "cm_status c = Pending"
    and op: "fst (observeTelemetry host cfg now0 now1 now2 dev vals observedAt ev sc why s)
      = fst (observe_pending host cfg now2 k dev vals observedAt ev why c s1)"
    using assms(1) by (cases res; auto simp: observeTelemetry_def k r split: option.splits if_splits)
  from observe_pending_commands [of host cfg now2 k dev vals observedAt ev why c s1] assms(1) old
  obtain d where d: "valuesMatch (cm_expectedValues c) vals"
    "\<not> time_less (date_parse host observedAt) (date_parse host (cm_requestedAt c))"
    "ev = None \<or> ev = Some [] \<or> ev = Some (cm_id c)" "cm_id d = cm_id c"
    "tk_commands (fst (observe_pending host cfg now2 k dev vals observedAt ev why c s1)) = map_set (tk_commands s1) k d"
    unfolding op by auto
  have "key = k" "c' = d" using assms(1) old by (auto simp: op d(5) store_simps split: if_splits)
  with c d k refresh_command_pending [of now0 k dev s c] show ?thesis by (auto simp: s1)
qed

lemma fail_commands:
  "tk_commands (fst (failCurrentCommand dev key c msg now s)) = map_set (tk_commands s) key
     (c\<lparr>cm_status := CommandFailed, cm_message := Some msg, cm_expiresAt := now_num now,
        cm_displayUntil := jadd (now_num now) (Fin 30000)\<rparr>)"
  by (simp add: failCurrentCommand_def Let_def put_command_def)

text \<open>A call is quiet when it acknowledges nothing.\<close>

definition quiet :: "tracker \<Rightarrow> tracker \<Rightarrow> bool" where
  "quiet s s' \<longleftrightarrow> (\<forall>k c'. map_get (tk_commands s') k = Some c' \<and> cm_status c' = Acked \<longrightarrow>
     map_get (tk_commands s) k = Some c')"

lemma quiet_same: "tk_commands s' = tk_commands s \<Longrightarrow> quiet s s'"
  by (simp add: quiet_def)

lemma quiet_put: "tk_commands s' = map_set (tk_commands s) k c \<Longrightarrow> cm_status c \<noteq> Acked \<Longrightarrow> quiet s s'"
  by (auto simp: quiet_def store_simps)

lemma quiet_attempt: "(\<And>a. quiet s (fst (f a))) \<Longrightarrow> quiet s (fst (attempt s r f))"
  by (cases r) (auto simp: quiet_def)

lemma quiet_if: "quiet s (fst a) \<Longrightarrow> quiet s (fst b) \<Longrightarrow> quiet s (fst (if c then a else b))"
  by simp

lemma quiet_option:
  "quiet s (fst a) \<Longrightarrow> (\<And>x. quiet s (fst (f x))) \<Longrightarrow> quiet s (fst (case y of None \<Rightarrow> a | Some x \<Rightarrow> f x))"
  by (cases y) auto

lemmas quiet_intros = quiet_option quiet_if quiet_attempt

lemma quiet_fail: "quiet s (put_trace (fst (failCurrentCommand dev key c msg now s)) tr)"
  by (rule quiet_put [where k = key]) (simp add: fail_commands, cases c, simp)

lemma quiet_calls:
  "quiet s (fst (getCommand now dev sc s))"
  "quiet s (fst (markDeviceCommandPending host cfg now dev cr s))"
  "quiet s (fst (markDeviceCommandPublished now dev cid evd s))"
  "quiet s (fst (markDeviceCommandTransportFailed host now dev cid msg s))"
  "quiet s (fst (markDeviceCommandFailed host now dev cid why msg s))"
  "quiet s (fst (getExecutionTraces host now sc limit s))"
  "quiet s (fst (getLatestExecutionTrace host now dev sc s))"
proof -
  have same: "quiet s s" by (simp add: quiet_same)
  have refr: "quiet s s1" if "refreshExecutionTraces host now s = (s1, res)" for s1 res
    using commands_unchanged(1) [of host now s] that by (simp add: quiet_same)
  show "quiet s (fst (getCommand now dev sc s))"
    unfolding getCommand_def Let_def
    by (intro quiet_attempt) (auto simp: quiet_def dest: refresh_command_unacked)
  show "quiet s (fst (markDeviceCommandPending host cfg now dev cr s))"
    using pending_commands [of host cfg now dev cr s]
    by (auto intro: quiet_same quiet_put simp: new_command_def)
  show "quiet s (fst (markDeviceCommandPublished now dev cid evd s))"
    unfolding markDeviceCommandPublished_def Let_def by (intro quiet_intros) (simp_all add: quiet_same)
  show "quiet s (fst (markDeviceCommandTransportFailed host now dev cid msg s))"
    unfolding markDeviceCommandTransportFailed_def Let_def
    by (intro quiet_intros) (simp_all add: same quiet_fail)
  show "quiet s (fst (markDeviceCommandFailed host now dev cid why msg s))"
    unfolding markDeviceCommandFailed_def Let_def case_prod_beta
    by (intro quiet_intros) (simp_all add: same quiet_fail)
  show "quiet s (fst (getExecutionTraces host now sc limit s))"
    using refr by (auto simp: getExecutionTraces_def split: prod.split sum.split)
  show "quiet s (fst (getLatestExecutionTrace host now dev sc s))"
  proof -
    obtain s1 res where r: "refreshExecutionTraces host now s = (s1, res)" by fastforce
    have "tk_commands (fst (getLatestExecutionTrace host now dev sc s)) = tk_commands s1"
      by (cases "scopedCommandKey dev sc")
        (auto simp: getLatestExecutionTrace_def r split: sum.split option.split)
    moreover have "tk_commands s1 = tk_commands s" using commands_unchanged(1) [of host now s] r by simp
    ultimately show ?thesis by (simp add: quiet_same)
  qed
qed

lemma step_quiet_or_telemetry:
  assumes "tracker_step host s s'"
  shows "quiet s s' \<or> (\<exists>cfg now0 now1 now2 dev vals observedAt ev sc why.
    s' = fst (observeTelemetry host cfg now0 now1 now2 dev vals observedAt ev sc why s))"
  using assms
proof (cases rule: tracker_step.cases)
  case (telemetry cfg now0 now1 now2 dev vals observedAt ev sc why)
  then show ?thesis by blast
qed (simp_all add: quiet_calls)

text \<open>
  C12.  No command is acknowledged without evidence: when a call leaves a device's command newly
  acknowledged, the call is telemetry for that device, the command was pending and not yet expired,
  the reported values equal every expected value, the report is not older than the request, and the
  command id it cites, if any, is this command's.
\<close>

theorem acknowledgement_needs_evidence:
  assumes "tracker_step host s s'" "map_get (tk_commands s') key = Some c'" "cm_status c' = Acked"
    and "map_get (tk_commands s) key \<noteq> Some c'"
  shows "\<exists>cfg now0 now1 now2 dev vals observedAt ev sc why c.
      s' = fst (observeTelemetry host cfg now0 now1 now2 dev vals observedAt ev sc why s)
    \<and> scopedCommandKey dev sc = Inr key \<and> map_get (tk_commands s) key = Some c \<and> cm_status c = Pending
    \<and> cm_id c' = cm_id c \<and> \<not> jless (cm_expiresAt c) (now_num now0) \<and> valuesMatch (cm_expectedValues c) vals
    \<and> \<not> time_less (date_parse host observedAt) (date_parse host (cm_requestedAt c))
    \<and> (ev = None \<or> ev = Some [] \<or> ev = Some (cm_id c))"
  using step_quiet_or_telemetry [OF assms(1)]
proof
  assume "quiet s s'"
  then show ?thesis using assms(2-4) unfolding quiet_def by blast
next
  assume "\<exists>cfg now0 now1 now2 dev vals observedAt ev sc why.
    s' = fst (observeTelemetry host cfg now0 now1 now2 dev vals observedAt ev sc why s)"
  then obtain cfg now0 now1 now2 dev vals observedAt ev sc why
    where t: "s' = fst (observeTelemetry host cfg now0 now1 now2 dev vals observedAt ev sc why s)" by blast
  from telemetry_commands [OF assms(2) [unfolded t] assms(4,3)] t show ?thesis by blast
qed

lemma scopedCommandKey_inj:
  assumes "scopedCommandKey dev sc = Inr key" "scopedCommandKey dev' sc' = Inr key"
    and "list_all utf16 [dev, cs_tenantId sc, cs_siteId sc, dev', cs_tenantId sc', cs_siteId sc']"
  shows "dev' = dev \<and> cs_tenantId sc' = cs_tenantId sc \<and> cs_siteId sc' = cs_siteId sc"
proof -
  obtain t s d where k: "encodeURIComponent (cs_tenantId sc) = Inr t" "encodeURIComponent (cs_siteId sc) = Inr s"
    "encodeURIComponent dev = Inr d" "key = t @ 58 # s @ 58 # d"
    using assms(1) by (auto simp: scopedCommandKey_def and_then_Inr_iff split: if_splits)
  obtain t' s' d' where k': "encodeURIComponent (cs_tenantId sc') = Inr t'" "encodeURIComponent (cs_siteId sc') = Inr s'"
    "encodeURIComponent dev' = Inr d'" "key = t' @ 58 # s' @ 58 # d'"
    using assms(2) by (auto simp: scopedCommandKey_def and_then_Inr_iff split: if_splits)
  have "t @ 58 # s @ 58 # d = t' @ 58 # s' @ 58 # d'" using k(4) k'(4) by simp
  note outer = colon_split [OF encode_no_colon [OF k(1)] encode_no_colon [OF k'(1)] this]
  note inner = colon_split [OF encode_no_colon [OF k(2)] encode_no_colon [OF k'(2)] conjunct2 [OF outer]]
  have "t = t' \<and> s = s' \<and> d = d'" using outer inner by simp
  then show ?thesis
    using encodeURIComponent_inj k(1-3) k'(1-3) assms(3) by simp
qed

lemma telemetry_other_commands:
  assumes "scopedCommandKey dev sc = Inr key" "k \<noteq> key"
  shows "map_get (tk_commands (fst (observeTelemetry host cfg now0 now1 now2 dev vals observedAt ev sc why s))) k
    = map_get (tk_commands s) k"
proof -
  obtain s1 res where r: "refreshExecutionTraces host now1 (refreshDeviceCommand now0 key dev s) = (s1, res)"
    by fastforce
  have s1: "map_get (tk_commands s1) k = map_get (tk_commands s) k"
    using commands_unchanged(1) [of host now1 "refreshDeviceCommand now0 key dev s"] r
      refresh_command_other [OF assms(2), of now0 dev s] by simp
  have p: "map_get (tk_commands (fst (observe_pending host cfg now2 key dev vals observedAt ev why c s1))) k
      = map_get (tk_commands s1) k" for c
    using observe_pending_commands [of host cfg now2 key dev vals observedAt ev why c s1] assms(2)
    by (auto simp: store_simps)
  show ?thesis
    by (cases res) (auto simp: observeTelemetry_def assms(1) r s1 p split: option.split)
qed

text \<open>
  C13.  Devices of different tenants, sites or ids have different keys, and a request, a report or a
  query for one of them leaves the command of every other one as it is.
\<close>

theorem devices_are_isolated:
  assumes "scopedCommandKey dev sc = Inr key" "scopedCommandKey dev' sc' = Inr key'"
    and "list_all utf16 [dev, cs_tenantId sc, cs_siteId sc, dev', cs_tenantId sc', cs_siteId sc']"
    and "(dev', cs_tenantId sc', cs_siteId sc') \<noteq> (dev, cs_tenantId sc, cs_siteId sc)"
  shows "key' \<noteq> key
    \<and> map_get (tk_commands (fst (observeTelemetry host cfg nowA nowB nowC dev vals observedAt ev sc why s))) key'
        = map_get (tk_commands s) key'
    \<and> map_get (tk_commands (fst (markDeviceCommandPending host cfg nowA dev (cr\<lparr>cr_scope := sc\<rparr>) s))) key'
        = map_get (tk_commands s) key'
    \<and> map_get (tk_commands (fst (getCommand nowA dev sc s))) key' = map_get (tk_commands s) key'"
proof -
  have n: "key' \<noteq> key" using scopedCommandKey_inj [OF assms(1) _ assms(3)] assms(2,4) by auto
  have "map_get (tk_commands (fst (markDeviceCommandPending host cfg nowA dev (cr\<lparr>cr_scope := sc\<rparr>) s))) key'
      = map_get (tk_commands s) key'"
    using pending_commands [of host cfg nowA dev "cr\<lparr>cr_scope := sc\<rparr>" s] assms(1) n
    by (auto simp: store_simps)
  moreover have "map_get (tk_commands (fst (getCommand nowA dev sc s))) key' = map_get (tk_commands s) key'"
    using refresh_command_other [OF n] by (simp add: getCommand_def assms(1) Let_def)
  ultimately show ?thesis using n telemetry_other_commands [OF assms(1) n] by blast
qed

subsection \<open>Concrete runs\<close>

definition no_host :: "jstr \<Rightarrow> int option" where
  "no_host _ = None"

definition demo_settings :: tracker_settings where
  "demo_settings = \<lparr>ackTimeoutMs = Fin 5000, settleWindowMs = Fin 2000, traceLimit = Fin 200\<rparr>"

definition home :: command_scope where
  "home = \<lparr>cs_tenantId = js ''t'', cs_siteId = js ''s''\<rparr>"

definition relay_on :: "jval jobj" where
  "relay_on = [(js ''on'', JBool True)]"

definition demo_request :: command_request where
  "demo_request = \<lparr>cr_scope = home, cr_action = TurnOn, cr_expectedValues = relay_on, cr_message = None,
     cr_ttlMs = None, cr_actor = None\<rparr>"

definition requested_run :: tracker where
  "requested_run = fst (markDeviceCommandPending no_host demo_settings 0 (js ''d'') demo_request empty_tracker)"

definition verified_run :: tracker where
  "verified_run = fst (observeTelemetry no_host demo_settings 1000 1000 1000 (js ''d'') relay_on (iso_string 1000)
     None home None requested_run)"

definition settled_run :: tracker where
  "settled_run = fst (getExecutionTraces no_host 3000 home (Fin 50) verified_run)"

definition late_run :: tracker where
  "late_run = fst (observeTelemetry no_host demo_settings 5000 5001 5001 (js ''d'') relay_on (iso_string 5001)
     None home None requested_run)"

definition demo_command :: tracked_command where
  "demo_command = new_command demo_settings 0 (js ''d'') 1 demo_request (iso_string 0)"

definition demo_trace :: tracked_trace where
  "demo_trace = new_trace (js ''d'') demo_request demo_command"

definition demo_key :: jstr where
  "demo_key = js ''t:s:d''"

lemma demo_runs_reachable:
  "tracker_reachable no_host requested_run" "tracker_reachable no_host verified_run"
  "tracker_reachable no_host settled_run" "tracker_reachable no_host late_run"
proof -
  show r: "tracker_reachable no_host requested_run"
    unfolding requested_run_def by (rule tracker_reachable.step [OF tracker_reachable.start tracker_step.pending])
  show v: "tracker_reachable no_host verified_run"
    unfolding verified_run_def by (rule tracker_reachable.step [OF r tracker_step.telemetry])
  show "tracker_reachable no_host settled_run"
    unfolding settled_run_def by (rule tracker_reachable.step [OF v tracker_step.traces])
  show "tracker_reachable no_host late_run"
    unfolding late_run_def by (rule tracker_reachable.step [OF r tracker_step.telemetry])
qed

lemma demo_key_eq: "scopedCommandKey (js ''d'') home = Inr demo_key"
  by code_simp

lemma demo_scope_eq: "cr_scope demo_request = home"
  by (simp add: demo_request_def)

lemma demo_deadline: "cm_expiresAt demo_command = Fin 5000"
  using jadd_int [of 0 5000]
  by (simp add: demo_command_def new_command_def demo_request_def demo_settings_def truthy_or_def now_num_def safe_int_def)

lemma iso_small [simp]: "\<bar>t\<bar> \<le> 10000 \<Longrightarrow> to_iso (Some t) = Inr (iso_string t)"
  by (simp add: to_iso_def time_in_range_def)

lemma date_small [simp]: "\<bar>t\<bar> \<le> 10000 \<Longrightarrow> date_parse no_host (iso_string t) = Some t"
  by (simp add: time_in_range_def)

lemma demo_id_not_Nil [simp]: "cm_id demo_command \<noteq> []"
  by (simp add: demo_command_def new_command_def)

lemma requested_run_state:
  "tk_commands requested_run = [(demo_key, demo_command)]"
  "tk_traces requested_run = [(cm_id demo_command, demo_trace)]"
  "tk_latest requested_run = [(demo_key, cm_id demo_command)]"
proof -
  have id: "tr_commandId demo_trace = cm_id demo_command" by (simp add: demo_trace_def new_trace_def)
  define s4 where "s4 = \<lparr>tk_commands = [(demo_key, demo_command)], tk_traces = [(cm_id demo_command, demo_trace)],
      tk_latest = [(demo_key, cm_id demo_command)], tk_sequence = 1, tk_log = []\<rparr>"
  have t: "trimExecutionTraces no_host demo_settings s4 = (s4, Inr ())"
    by (simp add: trimExecutionTraces_def s4_def newest_first_def demo_settings_def slice_from_def slice_index_def
        truncate_rat_def)
  have "fst (markDeviceCommandPending no_host demo_settings 0 (js ''d'') demo_request empty_tracker)
      = record_log s4 \<lparr>le_level = LogInfo, le_source = js ''device-control'', le_event = js ''command.pending'',
                  le_message = js ''d'' @ [32] @ device_action_str (cr_action demo_request) @ js '' requested; preparing transport.'',
                  le_deviceId = js ''d'', le_status = js ''pending'',
                  le_details = [(js ''action'', JStr (device_action_str (cr_action demo_request))),
                                (js ''expected'', expected_json demo_command)]\<rparr>"
    using t id demo_key_eq
    by (simp add: markDeviceCommandPending_def Let_def empty_tracker_def supersede_latest_def map_get_def map_set_def
        put_command_def put_trace_def s4_def demo_scope_eq flip: demo_command_def demo_trace_def)
  then show "tk_commands requested_run = [(demo_key, demo_command)]"
    "tk_traces requested_run = [(cm_id demo_command, demo_trace)]"
    "tk_latest requested_run = [(demo_key, cm_id demo_command)]"
    by (simp_all add: requested_run_def record_log_def s4_def)
qed

lemma demo_trace_facts:
  "tr_commandId demo_trace = cm_id demo_command" "tr_outcome demo_trace = Running"
  "map st_stage (tr_stages demo_trace) = [Requested]" "tr_settlingUntil demo_trace = None"
  "tr_expiresAt demo_trace = Fin 5000" "cm_status demo_command = Pending"
  "cm_requestedAt demo_command = iso_string 0" "cm_expectedValues demo_command = relay_on"
  using demo_deadline
  by (simp_all add: demo_trace_def new_trace_def make_stage_def demo_command_def new_command_def demo_request_def)

lemma verify_trace_stages:
  assumes "st_stage (last (tr_stages tr)) \<noteq> Reported" "tr_stages tr \<noteq> []"
  shows "map st_stage (tr_stages (verify_trace cfg now t ex vals at0 ev why tr))
    = map st_stage (tr_stages tr) @ [Reported, Verified, Settling]"
    "tr_outcome (verify_trace cfg now t ex vals at0 ev why tr) = tr_outcome tr"
    "tr_commandId (verify_trace cfg now t ex vals at0 ev why tr) = tr_commandId tr"
  using assms by (simp_all add: verify_trace_def Let_def appendTraceStage_def make_stage_def)

text \<open>An acknowledging report in the last moment before the deadline.\<close>

definition timed_out_trace :: tracked_trace where
  "timed_out_trace = completeExecutionTrace no_host (appendTraceStage demo_trace
     (make_stage TimedOutStage FailedStatus (iso_string 5000)
       (js ''No matching telemetry arrived before the acknowledgement deadline.'')
       (Some [(js ''expectedValues'', JObj (tr_expectedValues demo_trace))]))) TimedOut (iso_string 5000)"

lemma timed_out_facts:
  "tr_commandId timed_out_trace = cm_id demo_command" "tr_outcome timed_out_trace = TimedOut"
  "map st_stage (tr_stages timed_out_trace) = [Requested, TimedOutStage]"
  using demo_trace_facts
  by (auto simp: timed_out_trace_def completeExecutionTrace_def completeTrace_def Let_def appendTraceStage_def
      make_stage_def)

lemma timed_out_refresh: "refresh_trace no_host 5001 demo_trace = Inr timed_out_trace"
proof -
  have "iso_of_num (Fin 5000) = Inr (iso_string 5000)"
    by (simp add: iso_of_num_def time_clip_def truncate_rat_def)
  then show ?thesis
    by (simp add: refresh_trace_def demo_trace_facts settling_armed_def now_num_def timed_out_trace_def Let_def)
qed

lemma relay_on_match: "valuesMatch relay_on relay_on"
  by (simp add: valuesMatch_def relay_on_def own_def obj_get_def)

lemma late_run_facts:
  "\<exists>tr. map_get (tk_traces late_run) (cm_id demo_command) = Some tr \<and> tr_outcome tr = TimedOut
     \<and> map st_stage (tr_stages tr) = [Requested, TimedOutStage, Reported, Verified, Settling]"
  "map_option (\<lambda>c. (cm_id c, cm_status c)) (map_get (tk_commands late_run) demo_key) = Some (cm_id demo_command, Acked)"
proof -
  have r0: "refreshDeviceCommand 5000 demo_key (js ''d'') requested_run = requested_run"
    using demo_deadline
    by (simp add: refreshDeviceCommand_def requested_run_state map_get_def demo_trace_facts now_num_def)
  have r1: "refreshExecutionTraces no_host 5001 requested_run
      = (requested_run\<lparr>tk_traces := [(cm_id demo_command, timed_out_trace)]\<rparr>, Inr ())"
    by (simp add: refreshExecutionTraces_def requested_run_state timed_out_refresh)
  have l: "st_stage (last (tr_stages timed_out_trace)) \<noteq> Reported" "tr_stages timed_out_trace \<noteq> []"
    using timed_out_facts(3) by (auto simp: last_map [symmetric] simp del: last_map)
  note v = verify_trace_stages [OF l]
  let ?s1 = "requested_run\<lparr>tk_traces := [(cm_id demo_command, timed_out_trace)]\<rparr>"
  have late: "late_run = fst (observe_pending no_host demo_settings 5001 demo_key (js ''d'') relay_on
      (iso_string 5001) None None demo_command ?s1)"
    by (simp add: late_run_def observeTelemetry_def demo_key_eq r0 r1 requested_run_state map_get_def demo_trace_facts)
  show "\<exists>tr. map_get (tk_traces late_run) (cm_id demo_command) = Some tr \<and> tr_outcome tr = TimedOut
     \<and> map st_stage (tr_stages tr) = [Requested, TimedOutStage, Reported, Verified, Settling]"
    by (simp add: late observe_pending_def Let_def demo_trace_facts relay_on_match map_get_def update_trace_def
        put_trace_def put_command_def record_log_def map_set_def v timed_out_facts)
  show "map_option (\<lambda>c. (cm_id c, cm_status c)) (map_get (tk_commands late_run) demo_key) = Some (cm_id demo_command, Acked)"
    by (simp add: late observe_pending_def Let_def demo_trace_facts relay_on_match map_get_def
        put_command_def map_set_def requested_run_state)
qed

text \<open>
  C14.  One report reads the clock twice.  From a reachable state in which the command of a device is pending
  and its execution is running, a report whose first reading is not past the deadline of the command and
  whose second one is leads to a reachable state in which that command is acknowledged while its own
  execution is timed out, with verification stages after the timeout.
\<close>

theorem acknowledged_after_timeout_reachable:
  "\<exists>s cfg now0 now1 dev vals t sc key c tr s' c' tr'.
     tracker_reachable no_host s \<and> scopedCommandKey dev sc = Inr key
     \<and> map_get (tk_commands s) key = Some c \<and> cm_status c = Pending
     \<and> map_get (tk_traces s) (cm_id c) = Some tr \<and> tr_outcome tr = Running
     \<and> jle (now_num now0) (cm_expiresAt c) \<and> jless (cm_expiresAt c) (now_num now1)
     \<and> s' = fst (observeTelemetry no_host cfg now0 now1 now1 dev vals t None sc None s)
     \<and> tracker_reachable no_host s'
     \<and> map_get (tk_commands s') key = Some c' \<and> cm_id c' = cm_id c \<and> cm_status c' = Acked
     \<and> map_get (tk_traces s') (cm_id c) = Some tr' \<and> tr_outcome tr' = TimedOut
     \<and> map st_stage (tr_stages tr') = [Requested, TimedOutStage, Reported, Verified, Settling]"
proof -
  obtain c' where c': "map_get (tk_commands late_run) demo_key = Some c'" "cm_id c' = cm_id demo_command" "cm_status c' = Acked"
    using late_run_facts(2) by auto
  from late_run_facts(1) obtain tr' where tr': "map_get (tk_traces late_run) (cm_id demo_command) = Some tr'
      \<and> tr_outcome tr' = TimedOut \<and> map st_stage (tr_stages tr') = [Requested, TimedOutStage, Reported, Verified, Settling]"
    by (rule exE)
  have before: "map_get (tk_commands requested_run) demo_key = Some demo_command" "cm_status demo_command = Pending"
      "map_get (tk_traces requested_run) (cm_id demo_command) = Some demo_trace" "tr_outcome demo_trace = Running"
    by (simp_all add: requested_run_state map_get_def demo_trace_facts)
  have clock: "jle (now_num 5000) (cm_expiresAt demo_command)" "jless (cm_expiresAt demo_command) (now_num 5001)"
    by (simp_all add: demo_deadline now_num_def)
  show ?thesis
    by (rule exI [of _ requested_run], rule exI [of _ demo_settings], rule exI [of _ 5000], rule exI [of _ 5001],
        rule exI [of _ "js ''d''"], rule exI [of _ relay_on], rule exI [of _ "iso_string 5001"], rule exI [of _ home],
        rule exI [of _ demo_key], rule exI [of _ demo_command], rule exI [of _ demo_trace], rule exI [of _ late_run],
        rule exI [of _ c'], rule exI [of _ tr'])
      (intro conjI demo_runs_reachable(1,4) demo_key_eq before clock late_run_def c' tr' [THEN conjunct1]
        tr' [THEN conjunct2, THEN conjunct1] tr' [THEN conjunct2, THEN conjunct2])
qed

theorem at_most_one_running_execution_witness:
  "tr_id demo_trace = cm_id demo_command \<and> st_stage (hd (tr_stages demo_trace)) = Requested"
proof -
  have m: "map_get (tk_traces requested_run) (cm_id demo_command) = Some demo_trace"
    by (simp add: requested_run_state map_get_def)
  show ?thesis using at_most_one_running_execution [OF demo_runs_reachable(1) m] by blast
qed

theorem completed_execution_is_final_witness:
  "\<exists>tr. map_get (tk_traces (fst (getCommand 6000 (js ''d'') home late_run))) (cm_id demo_command) = Some tr
     \<and> tr_outcome tr = TimedOut"
proof -
  obtain tr where tr: "map_get (tk_traces late_run) (cm_id demo_command) = Some tr" "tr_outcome tr = TimedOut"
    using late_run_facts(1) by blast
  have st: "(tracker_step no_host)\<^sup>*\<^sup>* late_run (fst (getCommand 6000 (js ''d'') home late_run))"
    by (rule r_into_rtranclp, rule tracker_step.getCommand)
  have "tk_traces (refreshDeviceCommand 6000 demo_key (js ''d'') late_run) = tk_traces late_run"
    by (auto simp: refreshDeviceCommand_def record_log_def put_command_def split: option.split)
  then have tr': "map_get (tk_traces (fst (getCommand 6000 (js ''d'') home late_run))) (cm_id demo_command) = Some tr"
    using tr(1) by (simp add: getCommand_def demo_key_eq Let_def)
  have n: "tr_outcome tr \<noteq> Running" using tr(2) by simp
  show ?thesis using completed_execution_is_final [OF demo_runs_reachable(4) st tr(1) n tr'] tr' tr(2) by auto
qed

theorem acknowledgement_needs_evidence_witness:
  "\<exists>c' c. map_get (tk_commands late_run) demo_key = Some c' \<and> map_get (tk_commands requested_run) demo_key = Some c
     \<and> cm_status c' = Acked \<and> cm_status c = Pending \<and> cm_id c' = cm_id c"
proof -
  obtain c where c: "map_get (tk_commands late_run) demo_key = Some c" "cm_status c = Acked"
    using late_run_facts(2) by auto
  have st: "tracker_step no_host requested_run late_run"
    unfolding late_run_def by (rule tracker_step.telemetry)
  have "map_get (tk_commands requested_run) demo_key = Some demo_command"
    by (simp add: requested_run_state map_get_def)
  then have "map_get (tk_commands requested_run) demo_key \<noteq> Some c" using c(2) demo_trace_facts(6) by auto
  from acknowledgement_needs_evidence [OF st c this] c show ?thesis by auto
qed

definition cabin :: command_scope where
  "cabin = \<lparr>cs_tenantId = js ''t'', cs_siteId = js ''c''\<rparr>"

theorem devices_are_isolated_witness:
  "map_get (tk_commands (fst (getCommand 9000 (js ''d'') cabin requested_run))) demo_key = Some demo_command"
proof -
  have k: "scopedCommandKey (js ''d'') cabin = Inr (js ''t:c:d'')" by code_simp
  have u: "list_all utf16 [js ''d'', cs_tenantId cabin, cs_siteId cabin, js ''d'', cs_tenantId home, cs_siteId home]"
    by (simp add: utf16_def js_def cabin_def home_def)
  have n: "(js ''d'', cs_tenantId home, cs_siteId home) \<noteq> (js ''d'', cs_tenantId cabin, cs_siteId cabin)"
    by (simp add: cabin_def home_def)
  show ?thesis
    using devices_are_isolated [OF k demo_key_eq u n, where s = requested_run and nowA = 9000]
    by (simp add: requested_run_state map_get_def)
qed

end
