(* ===== verification/Panel.thy ===== *)
theory Panel
  imports JsValue "HOL-Library.Monad_Syntax"
begin

text \<open>
  The compiler of electrical-panel projects, \<open>libs/domain-panel/src/lib/compile-panel-project.ts\<close> with
  the types of \<open>panel.types.ts\<close>: an untrusted project is normalised into rails, devices, comb groups,
  wires and circuits, and indexes, fed devices, circuit and breaker states and breaker suggestions
  are derived from it.

  The lemmas give: which items survive normalisation and what they satisfy; the fed devices as the
  least set that contains the devices wired to the system feed and is closed under combs with a fed
  source (\<open>fed\<close>), with the termination of the propagation loop; the state of each circuit and
  breaker; when compiling throws.
\<close>

subsection \<open>Data\<close>

datatype severity = SevError | SevWarning | SevInfo

record diagnostic =
  dg_id :: jstr
  dg_severity :: severity
  dg_kind :: jstr
  dg_message :: jstr
  dg_path :: "jstr option"
  dg_circuitId :: "jstr option"
  dg_breakerUid :: "jstr option"
  dg_deviceUid :: "jstr option"

record rail =
  rl_id :: jstr
  rl_y :: jnum

datatype neutral_position = NeutralLeft | NeutralRight

record placed_device =
  pd_uid :: jstr
  pd_archetypeId :: jstr
  pd_railId :: jstr
  pd_slot :: jnum
  pd_widthModules :: jnum
  pd_label :: "jstr option"
  pd_isMain :: bool
  pd_poles :: "jnum option"
  pd_hasNeutral :: "bool option"
  pd_neutralPosition :: "neutral_position option"

text \<open>\<open>string | null | undefined\<close>.\<close>

datatype uid_ref = NoUid | NullUid | Uid jstr

datatype comb_side = Top | Bottom

record comb_group =
  cg_id :: jstr
  cg_railId :: jstr
  cg_sourceUid :: uid_ref
  cg_startSlot :: jnum
  cg_endSlot :: jnum
  cg_side :: comb_side

datatype wire_kind = WireL | WireN | WirePE

record wire =
  wr_id :: jstr
  wr_from :: jstr
  wr_to :: jstr
  wr_kind :: wire_kind
  wr_gaugeMm2 :: jnum
  wr_color :: "jstr option"
  wr_cableType :: "jstr option"
  wr_label :: "jstr option"
  wr_createdAt :: jnum

datatype circuit_type = OneP | OnePN
datatype load_profile = Lighting | Sockets | Motor | Heater | Mixed
datatype curve = CurveB | CurveC | CurveD

record circuit =
  ci_id :: jstr
  ci_label :: jstr
  ci_type :: circuit_type
  ci_loadKw :: jnum
  ci_breakerUid :: uid_ref
  ci_loadProfile :: "load_profile option"
  ci_breakerCurve :: "curve option"
  ci_breakerRatingA :: "jnum option"
  ci_csaMm2 :: jnum
  ci_hasPE :: bool

record circuit_state =
  cs_hasBreaker :: bool
  cs_hasL :: bool
  cs_hasN :: bool
  cs_hasPE :: bool
  cs_isComplete :: bool

record breaker_state =
  bs_isMain :: bool
  bs_isFed :: bool
  bs_hasCircuit :: bool

record suggestion =
  su_estimatedCurrentA :: jnum
  su_curve :: curve
  su_ratingA :: jnum
  su_label :: jstr

record panel_snapshot =
  ps_rails :: "rail list"
  ps_devices :: "placed_device list"
  ps_combs :: "comb_group list"
  ps_wires :: "wire list"
  ps_circuits :: "circuit list"
  ps_reservePercent :: "jnum option"

record panel_stats =
  st_railCount :: nat
  st_deviceCount :: nat
  st_combCount :: nat
  st_wireCount :: nat
  st_circuitCount :: nat

record panel_derived =
  dv_devicesByUid :: "placed_device jobj"
  dv_circuitsById :: "circuit jobj"
  dv_breakerCircuitMap :: "circuit jobj"
  dv_mainBreakerUid :: "jstr option"
  dv_fedDeviceUids :: "jstr list"
  dv_circuitStates :: "circuit_state jobj"
  dv_breakerStates :: "breaker_state jobj"
  dv_circuitSuggestions :: "suggestion jobj"

record compiled_panel =
  cp_schemaVersion :: "jnum option"
  cp_name :: "jstr option"
  cp_createdAt :: "jstr option"
  cp_updatedAt :: "jstr option"
  cp_snapshot :: panel_snapshot
  cp_stats :: panel_stats
  cp_derived :: panel_derived

record compile_result =
  cr_ok :: bool
  cr_compiled :: "compiled_panel option"
  cr_diagnostics :: "diagnostic list"

subsection \<open>Normalisation\<close>

definition asArray :: "jval \<Rightarrow> jval list" where
  "asArray v = (case array_items v of Some xs \<Rightarrow> xs | None \<Rightarrow> [])"

text \<open>\<open>asString(v)\<close> followed by the test \<open>!s\<close>: an empty string counts as missing.\<close>

definition non_empty :: "jstr option \<Rightarrow> jstr option" where
  "non_empty s = (if s = Some [] then None else s)"

definition makeDiagnostic :: "jstr \<Rightarrow> severity \<Rightarrow> jstr \<Rightarrow> jstr \<Rightarrow> jstr option \<Rightarrow> diagnostic" where
  "makeDiagnostic i sev kind msg path =
     \<lparr>dg_id = i, dg_severity = sev, dg_kind = kind, dg_message = msg, dg_path = path,
      dg_circuitId = None, dg_breakerUid = None, dg_deviceUid = None\<rparr>"

definition rangesOverlap :: "jnum \<Rightarrow> jnum \<Rightarrow> jnum \<Rightarrow> jnum \<Rightarrow> bool" where
  "rangesOverlap aStart aEnd bStart bEnd \<longleftrightarrow> jle aStart bEnd \<and> jle bStart aEnd"

definition round1 :: "jnum \<Rightarrow> jnum" where
  "round1 n = jdiv (jround (jmul n (Fin 10))) (Fin 10)"

text \<open>\<open>.map(f).filter(notNull)\<close>.\<close>

definition map_not_null :: "(jval \<Rightarrow> 'a option result) \<Rightarrow> jval list \<Rightarrow> 'a list result" where
  "map_not_null f xs = and_then (map_result f xs) (\<lambda>ys. Inr (List.map_filter id ys))"

definition normalize_rail :: "jval \<Rightarrow> rail option result" where
  "normalize_rail v = with_props v (\<lambda>r. do {
     i \<leftarrow> non_empty (string_of (r ''id''));
     y \<leftarrow> finite_number (r ''y'');
     Some \<lparr>rl_id = i, rl_y = y\<rparr> })"

definition normalizeRails :: "jval \<Rightarrow> rail list result" where
  "normalizeRails v = map_not_null normalize_rail (asArray v)"

definition neutral_of :: "jval \<Rightarrow> neutral_position option" where
  "neutral_of v = (if v = JStr (js ''left'') then Some NeutralLeft
     else if v = JStr (js ''right'') then Some NeutralRight else None)"

definition normalize_device :: "jval \<Rightarrow> placed_device option result" where
  "normalize_device v = with_props v (\<lambda>d. do {
     uid \<leftarrow> non_empty (string_of (d ''uid''));
     archetypeId \<leftarrow> non_empty (string_of (d ''archetypeId''));
     railId \<leftarrow> non_empty (string_of (d ''railId''));
     slot \<leftarrow> finite_number (d ''slot'');
     widthModules \<leftarrow> finite_number (d ''widthModules'');
     Some \<lparr>pd_uid = uid, pd_archetypeId = archetypeId, pd_railId = railId, pd_slot = slot,
       pd_widthModules = widthModules, pd_label = string_of (d ''label''),
       pd_isMain = (d ''isMain'' = JBool True), pd_poles = finite_number (d ''poles''),
       pd_hasNeutral = bool_of (d ''hasNeutral''),
       pd_neutralPosition = neutral_of (d ''neutralPosition'')\<rparr> })"

definition normalizeDevices :: "jval \<Rightarrow> placed_device list result" where
  "normalizeDevices v = map_not_null normalize_device (asArray v)"

definition uid_of :: "jval \<Rightarrow> uid_ref" where
  "uid_of v = (if v = Null then NullUid else case string_of v of Some s \<Rightarrow> Uid s | None \<Rightarrow> NoUid)"

definition normalize_comb :: "jval \<Rightarrow> comb_group option result" where
  "normalize_comb v = with_props v (\<lambda>c. do {
     i \<leftarrow> non_empty (string_of (c ''id''));
     railId \<leftarrow> non_empty (string_of (c ''railId''));
     startSlot \<leftarrow> finite_number (c ''startSlot'');
     endSlot \<leftarrow> finite_number (c ''endSlot'');
     Some \<lparr>cg_id = i, cg_railId = railId, cg_sourceUid = uid_of (c ''sourceUid''),
       cg_startSlot = startSlot, cg_endSlot = endSlot,
       cg_side = (if c ''side'' = JStr (js ''bottom'') then Bottom else Top)\<rparr> })"

definition normalizeCombs :: "jval \<Rightarrow> comb_group list result" where
  "normalizeCombs v = map_not_null normalize_comb (asArray v)"

definition wire_kind_of :: "jval \<Rightarrow> wire_kind option" where
  "wire_kind_of v = (if v = JStr (js ''N'') then Some WireN else if v = JStr (js ''PE'') then Some WirePE
     else if v = JStr (js ''L'') then Some WireL else None)"

definition normalize_wire :: "jval \<Rightarrow> wire option result" where
  "normalize_wire v = with_props v (\<lambda>w.
     let wfrom = get_prop (or_empty (w ''from'')); wto = get_prop (or_empty (w ''to''));
         spec = get_prop (or_empty (w ''spec''))
     in do {
     i \<leftarrow> non_empty (string_of (w ''id''));
     anchorFrom \<leftarrow> non_empty (string_of (wfrom ''anchorId''));
     anchorTo \<leftarrow> non_empty (string_of (wto ''anchorId''));
     kind \<leftarrow> wire_kind_of (spec ''kind'');
     gaugeMm2 \<leftarrow> finite_number (spec ''gaugeMm2'');
     createdAt \<leftarrow> finite_number (w ''createdAt'');
     Some \<lparr>wr_id = i, wr_from = anchorFrom, wr_to = anchorTo, wr_kind = kind, wr_gaugeMm2 = gaugeMm2,
       wr_color = string_of (spec ''color''), wr_cableType = string_of (spec ''cableType''),
       wr_label = string_of (spec ''label''), wr_createdAt = createdAt\<rparr> })"

definition normalizeWires :: "jval \<Rightarrow> wire list result" where
  "normalizeWires v = map_not_null normalize_wire (asArray v)"

definition circuit_type_of :: "jval \<Rightarrow> circuit_type option" where
  "circuit_type_of v = (if v = JStr (js ''1P+N'') then Some OnePN
     else if v = JStr (js ''1P'') then Some OneP else None)"

definition load_profile_of :: "jval \<Rightarrow> load_profile option" where
  "load_profile_of v =
     (if v = JStr (js ''lighting'') then Some Lighting else if v = JStr (js ''sockets'') then Some Sockets
      else if v = JStr (js ''motor'') then Some Motor else if v = JStr (js ''heater'') then Some Heater
      else if v = JStr (js ''mixed'') then Some Mixed else None)"

definition curve_of :: "jval \<Rightarrow> curve option" where
  "curve_of v = (if v = JStr (js ''B'') then Some CurveB else if v = JStr (js ''C'') then Some CurveC
     else if v = JStr (js ''D'') then Some CurveD else None)"

definition normalize_circuit :: "jval \<Rightarrow> circuit option result" where
  "normalize_circuit v = with_props v (\<lambda>c. do {
     i \<leftarrow> non_empty (string_of (c ''id''));
     label \<leftarrow> non_empty (string_of (c ''label''));
     type \<leftarrow> circuit_type_of (c ''type'');
     loadKw \<leftarrow> finite_number (c ''loadKw'');
     let cable = get_prop (or_empty (c ''cable''));
     Some \<lparr>ci_id = i, ci_label = label, ci_type = type, ci_loadKw = loadKw,
       ci_breakerUid = uid_of (c ''breakerUid''),
       ci_loadProfile = load_profile_of (c ''loadProfile''),
       ci_breakerCurve = curve_of (c ''breakerCurve''),
       ci_breakerRatingA = finite_number (c ''breakerRatingA''),
       ci_csaMm2 = (case finite_number (cable ''csaMm2'') of Some x \<Rightarrow> x | None \<Rightarrow> Fin (5 / 2)),
       ci_hasPE = (case bool_of (cable ''hasPE'') of Some b \<Rightarrow> b | None \<Rightarrow> True)\<rparr> })"

definition normalizeCircuits :: "jval \<Rightarrow> circuit list result" where
  "normalizeCircuits v = map_not_null normalize_circuit (asArray v)"
subsection \<open>Indexes\<close>

definition buildDevicesByUid :: "placed_device list \<Rightarrow> placed_device jobj" where
  "buildDevicesByUid devices = from_entries (map (\<lambda>d. (pd_uid d, d)) devices)"

definition buildCircuitsById :: "circuit list \<Rightarrow> circuit jobj" where
  "buildCircuitsById circuits = from_entries (map (\<lambda>c. (ci_id c, c)) circuits)"

text \<open>A reference that is truthy: a non-empty string.\<close>

definition named :: "uid_ref \<Rightarrow> jstr option" where
  "named r = (case r of Uid s \<Rightarrow> if s = [] then None else Some s | _ \<Rightarrow> None)"

definition buildBreakerCircuitMap :: "circuit list \<Rightarrow> circuit jobj" where
  "buildBreakerCircuitMap circuits =
     from_entries (List.map_filter (\<lambda>c. map_option (\<lambda>b. (b, c)) (named (ci_breakerUid c))) circuits)"

definition detectMainBreakerUid :: "placed_device list \<Rightarrow> jstr option" where
  "detectMainBreakerUid devices =
     (case filter pd_isMain devices of [] \<Rightarrow> None | d # _ \<Rightarrow> Some (pd_uid d))"

subsection \<open>Fed devices\<close>

definition live_wire :: "jstr \<Rightarrow> wire \<Rightarrow> bool" where
  "live_wire uid w =
     (let pre = uid @ js '':top:'' in wr_kind w = WireL
        \<and> (wr_from w = js ''system:feed:L'' \<and> starts_with (wr_to w) pre
           \<or> wr_to w = js ''system:feed:L'' \<and> starts_with (wr_from w) pre))"

definition deviceHasSystemLive :: "wire list \<Rightarrow> jstr \<Rightarrow> bool" where
  "deviceHasSystemLive wires uid = list_ex (live_wire uid) wires"

definition on_comb :: "comb_group \<Rightarrow> placed_device \<Rightarrow> bool" where
  "on_comb comb d \<longleftrightarrow> pd_railId d = cg_railId comb
     \<and> rangesOverlap (pd_slot d) (jsub (jadd (pd_slot d) (pd_widthModules d)) (Fin 1))
         (cg_startSlot comb) (cg_endSlot comb)"

text \<open>One comb and one device; the state is the set of fed devices and the flag \<open>changed\<close>.\<close>

definition feed_device :: "jstr \<Rightarrow> comb_group \<Rightarrow> placed_device \<Rightarrow> jstr list \<times> bool \<Rightarrow> jstr list \<times> bool" where
  "feed_device src comb d s =
     (if pd_uid d = src then s else if \<not> on_comb comb d then s
      else if pd_uid d \<in> set (fst s) then s else (set_add (fst s) (pd_uid d), True))"

definition feed_comb :: "placed_device list \<Rightarrow> comb_group \<Rightarrow> jstr list \<times> bool \<Rightarrow> jstr list \<times> bool" where
  "feed_comb devices comb s =
     (case named (cg_sourceUid comb) of
        None \<Rightarrow> s
      | Some src \<Rightarrow> if src \<notin> set (fst s) then s else fold (feed_device src comb) devices s)"

definition feed_pass :: "placed_device list \<Rightarrow> comb_group list \<Rightarrow> jstr list \<Rightarrow> jstr list \<times> bool" where
  "feed_pass devices combs out = fold (feed_comb devices) combs (out, False)"

text \<open>A pass only adds uids of devices, and the flag tells whether it added one.\<close>

definition pass_ok :: "placed_device list \<Rightarrow> jstr list \<Rightarrow> jstr list \<times> bool \<Rightarrow> bool" where
  "pass_ok devices out s \<longleftrightarrow> set out \<subseteq> set (fst s) \<and> set (fst s) \<subseteq> set out \<union> pd_uid ` set devices
     \<and> (snd s \<longleftrightarrow> set (fst s) \<noteq> set out)"

lemma pass_ok_device: "pass_ok devices out s \<Longrightarrow> d \<in> set devices \<Longrightarrow> pass_ok devices out (feed_device src comb d s)"
  by (auto simp: pass_ok_def feed_device_def store_simps)

lemma pass_ok_comb: "pass_ok devices out s \<Longrightarrow> pass_ok devices out (feed_comb devices comb s)"
  by (auto simp: feed_comb_def intro!: fold_invariant pass_ok_device split: option.split)

lemma pass_ok_pass: "pass_ok devices out (feed_pass devices combs out)"
proof -
  have "pass_ok devices out (out, False)" by (simp add: pass_ok_def)
  then show ?thesis unfolding feed_pass_def by (rule fold_invariant) (rule pass_ok_comb)
qed

function propagate :: "placed_device list \<Rightarrow> comb_group list \<Rightarrow> jstr list \<Rightarrow> jstr list" where
  "propagate devices combs out =
     (let (out', changed) = feed_pass devices combs out
      in if changed then propagate devices combs out' else out')"
  by pat_completeness auto

termination
proof (relation "measure (\<lambda>(devices, combs, out). card (pd_uid ` set devices - set out))", goal_cases)
  case 1
  show ?case by simp
next
  case (2 devices combs out x out' changed)
  have "pass_ok devices out (out', True)" using pass_ok_pass [of devices out combs] 2 by simp
  then have "set out \<subset> set out'" "set out' \<subseteq> set out \<union> pd_uid ` set devices"
    unfolding pass_ok_def by auto
  then have "pd_uid ` set devices - set out' \<subset> pd_uid ` set devices - set out" by auto
  then show ?case by (simp add: psubset_card_mono)
qed

declare propagate.simps [simp del]

definition system_fed :: "placed_device list \<Rightarrow> wire list \<Rightarrow> jstr list" where
  "system_fed devices wires = foldl (\<lambda>out d. if deviceHasSystemLive wires (pd_uid d) then set_add out (pd_uid d) else out) [] devices"

definition buildFedDeviceUids :: "placed_device list \<Rightarrow> comb_group list \<Rightarrow> wire list \<Rightarrow> jstr list" where
  "buildFedDeviceUids devices combs wires = propagate devices combs (system_fed devices wires)"

subsection \<open>Circuit and breaker states\<close>

definition circuit_state_of :: "placed_device jobj \<Rightarrow> jstr list \<Rightarrow> circuit \<Rightarrow> circuit_state" where
  "circuit_state_of devicesByUid fed c =
     (let breaker = Option.bind (named (ci_breakerUid c)) (obj_member devicesByUid);
          hasL = (case breaker of Some (Own d) \<Rightarrow> pd_uid d \<in> set fed | _ \<Rightarrow> False);
          hasN = (ci_type c = OnePN); hasPE = ci_hasPE c
      in \<lparr>cs_hasBreaker = breaker \<noteq> None, cs_hasL = hasL, cs_hasN = hasN, cs_hasPE = hasPE,
          cs_isComplete = (if ci_type c = OnePN then hasL \<and> hasN \<and> hasPE else hasL \<and> hasPE)\<rparr>)"

definition buildCircuitStates :: "circuit list \<Rightarrow> placed_device jobj \<Rightarrow> jstr list \<Rightarrow> circuit_state jobj" where
  "buildCircuitStates circuits devicesByUid fed =
     from_entries (map (\<lambda>c. (ci_id c, circuit_state_of devicesByUid fed c)) circuits)"

definition buildBreakerStates :: "placed_device list \<Rightarrow> jstr list \<Rightarrow> circuit jobj \<Rightarrow> breaker_state jobj" where
  "buildBreakerStates devices fed breakerCircuitMap =
     from_entries (map (\<lambda>d. (pd_uid d, \<lparr>bs_isMain = pd_isMain d, bs_isFed = pd_uid d \<in> set fed,
        bs_hasCircuit = obj_member breakerCircuitMap (pd_uid d) \<noteq> None\<rparr>)) devices)"

subsection \<open>Suggestions\<close>

definition chooseSuggestedCurve :: "circuit \<Rightarrow> curve" where
  "chooseSuggestedCurve c = (case ci_loadProfile c of
     Some Lighting \<Rightarrow> CurveB | Some Motor \<Rightarrow> CurveD | _ \<Rightarrow> CurveC)"

definition standard_ratings :: "jnum list" where
  "standard_ratings = [Fin 6, Fin 10, Fin 16, Fin 20, Fin 25, Fin 32, Fin 40, Fin 50, Fin 63]"

definition chooseSuggestedRatingA :: "jnum \<Rightarrow> jnum" where
  "chooseSuggestedRatingA currentA =
     (let designCurrent = jmul currentA (fl (115 / 100))
      in case find (\<lambda>r. jle designCurrent r) standard_ratings of Some r \<Rightarrow> r | None \<Rightarrow> Fin 63)"

fun curve_str :: "curve \<Rightarrow> jstr" where
  "curve_str CurveB = js ''B''"
| "curve_str CurveC = js ''C''"
| "curve_str CurveD = js ''D''"

definition suggest :: "circuit \<Rightarrow> suggestion" where
  "suggest c =
     (let estimatedCurrentA = round1 (jdiv (jmul (ci_loadKw c) (Fin 1000)) (Fin 230));
          suggestedCurve = chooseSuggestedCurve c;
          suggestedRatingA = chooseSuggestedRatingA estimatedCurrentA
      in \<lparr>su_estimatedCurrentA = estimatedCurrentA, su_curve = suggestedCurve,
          su_ratingA = suggestedRatingA,
          su_label = curve_str suggestedCurve @ num_str suggestedRatingA\<rparr>)"

definition buildCircuitSuggestions :: "circuit list \<Rightarrow> suggestion jobj" where
  "buildCircuitSuggestions circuits = from_entries (map (\<lambda>c. (ci_id c, suggest c)) circuits)"
subsection \<open>The compiler\<close>

definition is_object :: "jval \<Rightarrow> bool" where
  "is_object v = (case v of JArr _ \<Rightarrow> True | JObj _ \<Rightarrow> True | _ \<Rightarrow> False)"

definition emptiness_diagnostics :: "rail list \<Rightarrow> placed_device list \<Rightarrow> diagnostic list" where
  "emptiness_diagnostics rails devices =
     (if rails = [] then [makeDiagnostic (js ''rails.empty'') SevWarning (js ''Rails'')
        (js ''Project has no rails.'') (Some (js ''snapshot.rails''))] else [])
     @ (if devices = [] then [makeDiagnostic (js ''devices.empty'') SevWarning (js ''Devices'')
        (js ''Project has no devices.'') (Some (js ''snapshot.devices''))] else [])"

definition derive :: "placed_device list \<Rightarrow> comb_group list \<Rightarrow> wire list \<Rightarrow> circuit list \<Rightarrow> panel_derived" where
  "derive devices combs wires circuits =
     (let devicesByUid = buildDevicesByUid devices;
          breakerCircuitMap = buildBreakerCircuitMap circuits;
          fedDeviceUids = buildFedDeviceUids devices combs wires
      in \<lparr>dv_devicesByUid = devicesByUid, dv_circuitsById = buildCircuitsById circuits,
          dv_breakerCircuitMap = breakerCircuitMap, dv_mainBreakerUid = detectMainBreakerUid devices,
          dv_fedDeviceUids = fedDeviceUids,
          dv_circuitStates = buildCircuitStates circuits devicesByUid fedDeviceUids,
          dv_breakerStates = buildBreakerStates devices fedDeviceUids breakerCircuitMap,
          dv_circuitSuggestions = buildCircuitSuggestions circuits\<rparr>)"

definition compile_snapshot :: "jval \<Rightarrow> panel_snapshot result" where
  "compile_snapshot snap =
     and_then (normalizeRails (get_prop snap ''rails'')) (\<lambda>rails.
     and_then (normalizeDevices (get_prop snap ''devices'')) (\<lambda>devices.
     and_then (normalizeCombs (get_prop snap ''combs'')) (\<lambda>combs.
     and_then (normalizeWires (get_prop snap ''wires'')) (\<lambda>wires.
     and_then (normalizeCircuits (get_prop snap ''circuits'')) (\<lambda>circuits.
       Inr \<lparr>ps_rails = rails, ps_devices = devices, ps_combs = combs, ps_wires = wires,
         ps_circuits = circuits, ps_reservePercent = finite_number (get_prop snap ''reservePercent'')\<rparr>)))))"

definition compilePanelProject :: "jval \<Rightarrow> compile_result result" where
  "compilePanelProject project =
     (if \<not> is_object project then
        Inr \<lparr>cr_ok = False, cr_compiled = None,
             cr_diagnostics = [makeDiagnostic (js ''project.invalid'') SevError (js ''Project'')
               (js ''Project payload must be an object.'') (Some (js ''project''))]\<rparr>
      else
        let meta = get_prop (or_empty (get_prop project ''meta''))
        in and_then (compile_snapshot (or_empty (get_prop project ''snapshot''))) (\<lambda>snap.
             let diagnostics = emptiness_diagnostics (ps_rails snap) (ps_devices snap);
                 compiled = \<lparr>cp_schemaVersion = number_of (get_prop project ''schemaVersion''),
                   cp_name = string_of (meta ''name''), cp_createdAt = string_of (meta ''createdAt''),
                   cp_updatedAt = string_of (meta ''updatedAt''), cp_snapshot = snap,
                   cp_stats = \<lparr>st_railCount = length (ps_rails snap), st_deviceCount = length (ps_devices snap),
                     st_combCount = length (ps_combs snap), st_wireCount = length (ps_wires snap),
                     st_circuitCount = length (ps_circuits snap)\<rparr>,
                   cp_derived = derive (ps_devices snap) (ps_combs snap) (ps_wires snap) (ps_circuits snap)\<rparr>
             in Inr \<lparr>cr_ok = \<not> list_ex (\<lambda>d. dg_severity d = SevError) diagnostics,
                     cr_compiled = Some compiled, cr_diagnostics = diagnostics\<rparr>))"

subsection \<open>What normalisation keeps\<close>

lemma map_not_null_Inr_iff:
  "map_not_null f xs = Inr ys \<longleftrightarrow> (\<exists>os. list_all2 (\<lambda>x z. f x = Inr z) xs os \<and> ys = List.map_filter id os)"
  by (auto simp: map_not_null_def and_then_Inr_iff map_result_Inr_iff)

lemma map_not_null_member:
  assumes "map_not_null f xs = Inr ys" "y \<in> set ys"
  obtains x where "x \<in> set xs" "f x = Inr (Some y)"
proof -
  from assms obtain zs where "list_all2 (\<lambda>x z. f x = Inr z) xs zs" "Some y \<in> set zs"
    by (auto simp: map_not_null_Inr_iff List.map_filter_def)
  then show ?thesis
    using that by (auto simp: list_all2_conv_all_nth in_set_conv_nth) metis
qed

lemma map_not_null_Inl_iff: "(\<exists>e. map_not_null f xs = Inl e) \<longleftrightarrow> list_ex (\<lambda>x. \<exists>e. f x = Inl e) xs"
  by (simp add: map_not_null_def and_then_Inl_iff map_result_Inl_iff)

lemma non_empty_Some [simp]: "non_empty s = Some t \<longleftrightarrow> s = Some t \<and> t \<noteq> []"
  by (auto simp: non_empty_def)

lemma named_Some [simp]: "named r = Some s \<longleftrightarrow> r = Uid s \<and> s \<noteq> []"
  by (cases r) (auto simp: named_def)

lemma named_Uid [simp]: "named (Uid s) = (if s = [] then None else Some s)"
  by (simp add: named_def)

text \<open>Normalised items have non-empty identifiers and finite numbers.\<close>

definition device_ok :: "placed_device \<Rightarrow> bool" where
  "device_ok d \<longleftrightarrow> pd_uid d \<noteq> [] \<and> pd_archetypeId d \<noteq> [] \<and> pd_railId d \<noteq> [] \<and> is_finite (pd_slot d)
     \<and> is_finite (pd_widthModules d) \<and> pred_option is_finite (pd_poles d)"

definition comb_ok :: "comb_group \<Rightarrow> bool" where
  "comb_ok c \<longleftrightarrow> cg_id c \<noteq> [] \<and> cg_railId c \<noteq> [] \<and> is_finite (cg_startSlot c) \<and> is_finite (cg_endSlot c)"

definition wire_ok :: "wire \<Rightarrow> bool" where
  "wire_ok w \<longleftrightarrow> wr_id w \<noteq> [] \<and> wr_from w \<noteq> [] \<and> wr_to w \<noteq> [] \<and> is_finite (wr_gaugeMm2 w)
     \<and> is_finite (wr_createdAt w)"

definition circuit_ok :: "circuit \<Rightarrow> bool" where
  "circuit_ok c \<longleftrightarrow> ci_id c \<noteq> [] \<and> ci_label c \<noteq> [] \<and> is_finite (ci_loadKw c)
     \<and> pred_option is_finite (ci_breakerRatingA c) \<and> is_finite (ci_csaMm2 c)"

definition rail_ok :: "rail \<Rightarrow> bool" where
  "rail_ok r \<longleftrightarrow> rl_id r \<noteq> [] \<and> is_finite (rl_y r)"

lemmas normal_defs = with_props_def bind_eq_Some_conv finite_number_Some Let_def

lemma finite_number_finite: "pred_option is_finite (finite_number v)"
  by (simp add: finite_number_def split: jval.split)

lemma normalize_rail_ok: "normalize_rail v = Inr (Some r) \<Longrightarrow> rail_ok r"
  by (auto simp: normalize_rail_def normal_defs rail_ok_def split: if_splits)

lemma normalize_device_ok: "normalize_device v = Inr (Some d) \<Longrightarrow> device_ok d"
  by (auto simp: normalize_device_def normal_defs device_ok_def finite_number_finite split: if_splits)

lemma normalize_comb_ok: "normalize_comb v = Inr (Some c) \<Longrightarrow> comb_ok c"
  by (auto simp: normalize_comb_def normal_defs comb_ok_def split: if_splits)

lemma normalize_wire_ok: "normalize_wire v = Inr (Some w) \<Longrightarrow> wire_ok w"
  by (auto simp: normalize_wire_def normal_defs wire_ok_def split: if_splits)

lemma normalize_circuit_ok: "normalize_circuit v = Inr (Some c) \<Longrightarrow> circuit_ok c"
  by (auto simp: normalize_circuit_def normal_defs circuit_ok_def finite_number_finite
      split: if_splits option.split)
definition snapshot_ok :: "panel_snapshot \<Rightarrow> bool" where
  "snapshot_ok s \<longleftrightarrow> list_all rail_ok (ps_rails s) \<and> list_all device_ok (ps_devices s)
     \<and> list_all comb_ok (ps_combs s) \<and> list_all wire_ok (ps_wires s) \<and> list_all circuit_ok (ps_circuits s)
     \<and> pred_option is_finite (ps_reservePercent s)"

lemma map_not_null_all:
  "map_not_null f xs = Inr ys \<Longrightarrow> (\<And>v y. f v = Inr (Some y) \<Longrightarrow> P y) \<Longrightarrow> list_all P ys"
  unfolding list_all_iff by (blast elim: map_not_null_member)

lemma compile_snapshot_ok: "compile_snapshot v = Inr s \<Longrightarrow> snapshot_ok s"
  unfolding compile_snapshot_def and_then_Inr_iff normalizeRails_def normalizeDevices_def normalizeCombs_def
    normalizeWires_def normalizeCircuits_def snapshot_ok_def
  by (auto simp: finite_number_finite normalize_rail_ok normalize_device_ok normalize_comb_ok
      normalize_wire_ok normalize_circuit_ok elim!: map_not_null_all)

text \<open>Compiling throws exactly when an item of one of the five arrays is \<open>null\<close> or \<open>undefined\<close>.\<close>

definition has_null_item :: "jval \<Rightarrow> string \<Rightarrow> bool" where
  "has_null_item snap k \<longleftrightarrow> list_ex nullish (asArray (get_prop snap k))"

lemma normalize_throws_iff:
  "(\<exists>e. normalize_rail v = Inl e) \<longleftrightarrow> nullish v" "(\<exists>e. normalize_device v = Inl e) \<longleftrightarrow> nullish v"
  "(\<exists>e. normalize_comb v = Inl e) \<longleftrightarrow> nullish v" "(\<exists>e. normalize_wire v = Inl e) \<longleftrightarrow> nullish v"
  "(\<exists>e. normalize_circuit v = Inl e) \<longleftrightarrow> nullish v"
  by (simp_all add: normalize_rail_def normalize_device_def normalize_comb_def normalize_wire_def
      normalize_circuit_def with_props_Inl_iff)

lemma compile_snapshot_throws_iff:
  "(\<exists>e. compile_snapshot v = Inl e)
     \<longleftrightarrow> list_ex (has_null_item v) [''rails'', ''devices'', ''combs'', ''wires'', ''circuits'']"
proof -
  have normal: "(\<exists>e. normalizeRails (get_prop v k) = Inl e) \<longleftrightarrow> has_null_item v k"
    "(\<exists>e. normalizeDevices (get_prop v k) = Inl e) \<longleftrightarrow> has_null_item v k"
    "(\<exists>e. normalizeCombs (get_prop v k) = Inl e) \<longleftrightarrow> has_null_item v k"
    "(\<exists>e. normalizeWires (get_prop v k) = Inl e) \<longleftrightarrow> has_null_item v k"
    "(\<exists>e. normalizeCircuits (get_prop v k) = Inl e) \<longleftrightarrow> has_null_item v k" for k
    by (simp_all add: normalizeRails_def normalizeDevices_def normalizeCombs_def normalizeWires_def
        normalizeCircuits_def map_not_null_Inl_iff normalize_throws_iff has_null_item_def)
  have "(\<exists>e. compile_snapshot v = Inl e) \<longleftrightarrow> has_null_item v ''rails'' \<or> has_null_item v ''devices''
      \<or> has_null_item v ''combs'' \<or> has_null_item v ''wires'' \<or> has_null_item v ''circuits''"
    unfolding compile_snapshot_def normal(1) [symmetric, of "''rails''"] normal(2) [symmetric, of "''devices''"]
      normal(3) [symmetric, of "''combs''"] normal(4) [symmetric, of "''wires''"] normal(5) [symmetric, of "''circuits''"]
    by (cases "normalizeRails (get_prop v ''rails'')"; simp;
        cases "normalizeDevices (get_prop v ''devices'')"; simp;
        cases "normalizeCombs (get_prop v ''combs'')"; simp;
        cases "normalizeWires (get_prop v ''wires'')"; simp;
        cases "normalizeCircuits (get_prop v ''circuits'')"; simp)
  then show ?thesis by simp
qed

subsection \<open>Fed devices, specified\<close>

text \<open>
  A device is fed when a live wire joins its top terminal to the system feed, or a comb with a fed
  source overlaps it on its rail.
\<close>

inductive fed :: "placed_device list \<Rightarrow> comb_group list \<Rightarrow> wire list \<Rightarrow> jstr \<Rightarrow> bool"
  for devices combs wires where
  from_system: "d \<in> set devices \<Longrightarrow> deviceHasSystemLive wires (pd_uid d) \<Longrightarrow> fed devices combs wires (pd_uid d)"
| through_comb: "fed devices combs wires src \<Longrightarrow> comb \<in> set combs \<Longrightarrow> named (cg_sourceUid comb) = Some src
    \<Longrightarrow> d \<in> set devices \<Longrightarrow> on_comb comb d \<Longrightarrow> fed devices combs wires (pd_uid d)"

lemma system_fed_set:
  "set (system_fed devices wires) = {uid \<in> pd_uid ` set devices. deviceHasSystemLive wires uid}"
proof -
  have "set (foldl (\<lambda>out d. if deviceHasSystemLive wires (pd_uid d) then set_add out (pd_uid d) else out) out ds)
      = set out \<union> {uid \<in> pd_uid ` set ds. deviceHasSystemLive wires uid}" for out ds
    by (induction ds arbitrary: out) (auto simp: store_simps)
  from this [of "[]" devices] show ?thesis by (simp add: system_fed_def)
qed

text \<open>Soundness: each step keeps the set within \<open>fed\<close>.\<close>

lemma propagate_sound:
  "set out \<subseteq> {u. fed devices combs wires u} \<Longrightarrow> set (propagate devices combs out) \<subseteq> {u. fed devices combs wires u}"
proof (induction devices combs out rule: propagate.induct)
  case (1 devices combs out)
  let ?I = "\<lambda>s. set (fst s) \<subseteq> {u. fed devices combs wires u}"
  have device: "?I (feed_device src comb d s)"
    if "?I s" "fed devices combs wires src" "comb \<in> set combs" "named (cg_sourceUid comb) = Some src" "d \<in> set devices"
    for src comb d s
    using that by (auto simp: feed_device_def store_simps intro: fed.through_comb)
  have comb: "?I (feed_comb devices comb s)" if "?I s" "comb \<in> set combs" for comb s
  proof (cases "named (cg_sourceUid comb)")
    case (Some src)
    show ?thesis
    proof (cases "src \<in> set (fst s)")
      case True
      with that have "fed devices combs wires src" by auto
      then have "?I (fold (feed_device src comb) devices s)"
        using that Some by (intro fold_invariant [where P = ?I] device)
      then show ?thesis using Some True by (simp add: feed_comb_def)
    qed (use that Some in \<open>simp add: feed_comb_def\<close>)
  qed (use that in \<open>simp add: feed_comb_def\<close>)
  have pass: "?I (feed_pass devices combs out)"
    unfolding feed_pass_def by (rule fold_invariant [where P = ?I]) (use "1.prems" comb in auto)
  obtain out' changed where p: "feed_pass devices combs out = (out', changed)" by fastforce
  with pass have "set out' \<subseteq> {u. fed devices combs wires u}" by simp
  with "1.IH" [OF p [symmetric]] show ?case
    by (simp add: propagate.simps [of devices combs out] p)
qed

text \<open>Completeness: a pass that changes nothing found every overlap of a comb with a fed source in the set.\<close>

lemma fold_sticky:
  assumes "\<And>x s. x \<in> set xs \<Longrightarrow> snd s \<Longrightarrow> snd (f x s)"
    and "\<And>x s. x \<in> set xs \<Longrightarrow> f x s = s \<or> snd (f x s)"
  shows "snd s \<Longrightarrow> snd (fold f xs s)"
    and "\<not> snd (fold f xs s) \<Longrightarrow> fold f xs s = s \<and> (\<forall>x\<in>set xs. f x s = s)"
proof -
  have stick: "snd (fold f xs s)" if "snd s" for s
    using that by (rule fold_invariant [where P = snd]) (use assms(1) in blast)
  then show "snd s \<Longrightarrow> snd (fold f xs s)" by blast
  show "\<not> snd (fold f xs s) \<Longrightarrow> fold f xs s = s \<and> (\<forall>x\<in>set xs. f x s = s)"
    using assms
  proof (induction xs arbitrary: s)
    case (Cons x xs)
    have tail: "snd t \<Longrightarrow> snd (fold f xs t)" for t
      by (rule fold_invariant [where P = snd]) (use Cons.prems(2) in auto)
    have same: "f x s = s" using Cons.prems(1) Cons.prems(3) [of x s] tail [of "f x s"] by auto
    with Cons.prems(1) have "\<not> snd (fold f xs s)" by simp
    then have "fold f xs s = s \<and> (\<forall>x\<in>set xs. f x s = s)"
      by (rule Cons.IH) (use Cons.prems(2,3) in auto)
    with same show ?case by simp
  qed simp
qed
lemma feed_device_sticky:
  "snd s \<Longrightarrow> snd (feed_device src comb d s)" "feed_device src comb d s = s \<or> snd (feed_device src comb d s)"
  by (auto simp: feed_device_def)

lemma feed_comb_sticky:
  "snd s \<Longrightarrow> snd (feed_comb devices comb s)" "feed_comb devices comb s = s \<or> snd (feed_comb devices comb s)"
proof -
  have 1: "snd s \<Longrightarrow> snd (fold (feed_device src comb) devices s)"
    and 2: "\<not> snd (fold (feed_device src comb) devices s) \<Longrightarrow> fold (feed_device src comb) devices s = s" for src
    using fold_sticky [of devices "feed_device src comb" s] feed_device_sticky by blast+
  show "snd s \<Longrightarrow> snd (feed_comb devices comb s)"
    using 1 by (simp add: feed_comb_def split: option.split)
  show "feed_comb devices comb s = s \<or> snd (feed_comb devices comb s)"
    using 2 by (auto simp: feed_comb_def split: option.split)
qed

definition comb_closed :: "placed_device list \<Rightarrow> comb_group list \<Rightarrow> jstr list \<Rightarrow> bool" where
  "comb_closed devices combs out \<longleftrightarrow> (\<forall>comb\<in>set combs. \<forall>src. named (cg_sourceUid comb) = Some src \<longrightarrow> src \<in> set out
     \<longrightarrow> (\<forall>d\<in>set devices. on_comb comb d \<longrightarrow> pd_uid d \<in> set out))"

lemma quiet_pass:
  assumes "feed_pass devices combs out = (out', False)"
  shows "out' = out" and "comb_closed devices combs out"
proof -
  have quiet: "\<not> snd (fold (feed_comb devices) combs (out, False))"
    using assms by (simp add: feed_pass_def)
  have same: "fold (feed_comb devices) combs (out, False) = (out, False)
      \<and> (\<forall>comb\<in>set combs. feed_comb devices comb (out, False) = (out, False))"
    by (rule fold_sticky(2) [OF _ _ quiet]) (use feed_comb_sticky in blast)+
  then show "out' = out" using assms by (simp add: feed_pass_def)
  show "comb_closed devices combs out" unfolding comb_closed_def
  proof (intro ballI allI impI)
    fix comb src d
    assume comb: "comb \<in> set combs" and src: "named (cg_sourceUid comb) = Some src" "src \<in> set out"
      and d: "d \<in> set devices" "on_comb comb d"
    from same comb have "feed_comb devices comb (out, False) = (out, False)" by blast
    with src have f: "fold (feed_device src comb) devices (out, False) = (out, False)"
      by (simp add: feed_comb_def)
    then have "\<not> snd (fold (feed_device src comb) devices (out, False))" by simp
    from fold_sticky(2) [OF _ _ this] feed_device_sticky d(1)
    have "feed_device src comb d (out, False) = (out, False)" by blast
    with d(2) src(2) show "pd_uid d \<in> set out"
      by (auto simp: feed_device_def split: if_splits)
  qed
qed

lemma propagate_closed:
  "set out \<subseteq> set (propagate devices combs out) \<and> comb_closed devices combs (propagate devices combs out)"
proof (induction devices combs out rule: propagate.induct)
  case (1 devices combs out)
  obtain out' changed where p: "feed_pass devices combs out = (out', changed)" by fastforce
  show ?case
  proof (cases changed)
    case True
    have "set out \<subseteq> set out'" using pass_ok_pass [of devices out combs] p by (simp add: pass_ok_def)
    with True "1.IH" [OF p [symmetric]] show ?thesis by (auto simp: propagate.simps [of devices combs out] p)
  next
    case False
    with p quiet_pass [of devices combs out out'] show ?thesis
      by (simp add: propagate.simps [of devices combs out])
  qed
qed

lemma propagate_distinct: "distinct out \<Longrightarrow> distinct (propagate devices combs out)"
proof (induction devices combs out rule: propagate.induct)
  case (1 devices combs out)
  have "distinct (fst (feed_pass devices combs out))"
    unfolding feed_pass_def
    by (rule fold_invariant [where P = "\<lambda>s. distinct (fst s)"])
      (use "1.prems" in \<open>auto simp: feed_comb_def feed_device_def distinct_set_add
        intro!: fold_invariant [where P = "\<lambda>s. distinct (fst s)"] split: option.split\<close>)
  moreover obtain out' changed where p: "feed_pass devices combs out = (out', changed)" by fastforce
  ultimately show ?case
    using "1.IH" [OF p [symmetric]] by (simp add: propagate.simps [of devices combs out] p)
qed

lemma system_fed_distinct: "distinct (system_fed devices wires)"
proof -
  have "distinct out \<Longrightarrow> distinct (foldl (\<lambda>out d. if deviceHasSystemLive wires (pd_uid d)
      then set_add out (pd_uid d) else out) out ds)" for out ds
    by (induction ds arbitrary: out) (auto intro: distinct_set_add)
  from this [of "[]" devices] show ?thesis by (simp add: system_fed_def)
qed

lemma fed_device: "fed devices combs wires uid \<Longrightarrow> uid \<in> pd_uid ` set devices"
  by (induction rule: fed.induct) auto

lemma buildFed_iff: "uid \<in> set (buildFedDeviceUids devices combs wires) \<longleftrightarrow> fed devices combs wires uid"
proof
  have "set (system_fed devices wires) \<subseteq> {u. fed devices combs wires u}"
    by (auto simp: system_fed_set intro: fed.from_system)
  from propagate_sound [OF this]
  show "uid \<in> set (buildFedDeviceUids devices combs wires) \<Longrightarrow> fed devices combs wires uid"
    by (auto simp: buildFedDeviceUids_def)
next
  assume "fed devices combs wires uid"
  then show "uid \<in> set (buildFedDeviceUids devices combs wires)"
    using propagate_closed [of "system_fed devices wires" devices combs]
  proof (induction rule: fed.induct)
    case (from_system d)
    then show ?case by (auto simp: buildFedDeviceUids_def system_fed_set)
  next
    case (through_comb src comb d)
    then show ?case by (auto simp: buildFedDeviceUids_def comb_closed_def)
  qed
qed

text \<open>C15. The fed devices are, each once, the least set of devices containing those with a live wire to
  the system feed and closed under combs with a fed source.\<close>

theorem fed_devices_are_the_least_closed_set:
  "distinct (buildFedDeviceUids devices combs wires)
    \<and> set (buildFedDeviceUids devices combs wires) = {uid. fed devices combs wires uid}"
  by (auto simp: buildFed_iff) (simp add: buildFedDeviceUids_def propagate_distinct system_fed_distinct)

subsection \<open>The outcome of compiling\<close>

text \<open>Every error is the \<open>TypeError\<close> of reading a property of \<open>null\<close>.\<close>

definition only_type_errors :: "'a result \<Rightarrow> bool" where
  "only_type_errors r = (case r of Inl e \<Rightarrow> e = TypeError | Inr _ \<Rightarrow> True)"

lemma only_type_errors_simps [simp]:
  "only_type_errors (Inr a)" "only_type_errors (Inl e) \<longleftrightarrow> e = TypeError"
  by (simp_all add: only_type_errors_def)

lemma only_type_errors_and_then:
  "only_type_errors r \<Longrightarrow> (\<And>a. only_type_errors (f a)) \<Longrightarrow> only_type_errors (and_then r f)"
  by (cases r) auto

lemma only_type_errors_map: "(\<And>v. only_type_errors (f v)) \<Longrightarrow> only_type_errors (map_result f xs)"
  by (induction xs) (auto intro!: only_type_errors_and_then)

lemma only_type_errors_props: "only_type_errors (with_props v f)"
  by (simp add: with_props_def)

lemma compile_snapshot_errors: "only_type_errors (compile_snapshot v)"
  unfolding compile_snapshot_def normalizeRails_def normalizeDevices_def normalizeCombs_def
    normalizeWires_def normalizeCircuits_def map_not_null_def normalize_rail_def normalize_device_def
    normalize_comb_def normalize_wire_def normalize_circuit_def
  by (intro only_type_errors_and_then only_type_errors_map only_type_errors_props only_type_errors_simps(1))

lemma emptiness_no_error: "\<not> list_ex (\<lambda>d. dg_severity d = SevError) (emptiness_diagnostics rails devices)"
  by (simp add: emptiness_diagnostics_def makeDiagnostic_def)

lemma compile_object_Inr:
  assumes "is_object p"
  shows "compilePanelProject p = Inr r \<longleftrightarrow> (\<exists>s c. compile_snapshot (or_empty (get_prop p ''snapshot'')) = Inr s
     \<and> r = \<lparr>cr_ok = True, cr_compiled = Some c, cr_diagnostics = emptiness_diagnostics (ps_rails s) (ps_devices s)\<rparr>
     \<and> cp_snapshot c = s \<and> cp_derived c = derive (ps_devices s) (ps_combs s) (ps_wires s) (ps_circuits s)
     \<and> cp_schemaVersion c = number_of (get_prop p ''schemaVersion'')
     \<and> cp_name c = string_of (get_prop (get_prop p ''meta'') ''name'')
     \<and> cp_createdAt c = string_of (get_prop (get_prop p ''meta'') ''createdAt'')
     \<and> cp_updatedAt c = string_of (get_prop (get_prop p ''meta'') ''updatedAt'')
     \<and> cp_stats c = \<lparr>st_railCount = length (ps_rails s), st_deviceCount = length (ps_devices s),
         st_combCount = length (ps_combs s), st_wireCount = length (ps_wires s),
         st_circuitCount = length (ps_circuits s)\<rparr>)"
  using assms emptiness_no_error
  by (auto simp: compilePanelProject_def and_then_Inr_iff Let_def intro!: compiled_panel.equality)

lemma compile_throws_iff:
  "(\<exists>e. compilePanelProject p = Inl e) \<longleftrightarrow> is_object p
     \<and> list_ex (has_null_item (get_prop p ''snapshot'')) [''rails'', ''devices'', ''combs'', ''wires'', ''circuits'']"
  using compile_snapshot_throws_iff [of "or_empty (get_prop p ''snapshot'')"]
  by (auto simp: compilePanelProject_def and_then_Inl_iff has_null_item_def Let_def)

text \<open>C16. Compiling throws (a \<open>TypeError\<close>) exactly when the project is an object and one of the five arrays
  of its snapshot has a \<open>null\<close> or \<open>undefined\<close> item; otherwise the result is marked ok exactly for an
  object, and then holds a snapshot whose identifiers are non-empty and whose numbers are finite.\<close>

theorem compile_outcome:
  "case compilePanelProject p of
     Inl e \<Rightarrow> e = TypeError \<and> is_object p
       \<and> list_ex (has_null_item (get_prop p ''snapshot'')) [''rails'', ''devices'', ''combs'', ''wires'', ''circuits'']
   | Inr r \<Rightarrow> \<not> (is_object p
       \<and> list_ex (has_null_item (get_prop p ''snapshot'')) [''rails'', ''devices'', ''combs'', ''wires'', ''circuits''])
       \<and> cr_ok r = is_object p
       \<and> (case cr_compiled r of None \<Rightarrow> \<not> is_object p | Some c \<Rightarrow> is_object p \<and> snapshot_ok (cp_snapshot c))"
proof (cases "compilePanelProject p")
  case (Inl e)
  have "only_type_errors (compilePanelProject p)"
    unfolding compilePanelProject_def Let_def
    by (auto intro!: only_type_errors_and_then compile_snapshot_errors)
  then show ?thesis using Inl compile_throws_iff [of p] by simp
next
  case (Inr r)
  then have "\<not> (is_object p \<and> list_ex (has_null_item (get_prop p ''snapshot''))
      [''rails'', ''devices'', ''combs'', ''wires'', ''circuits''])"
    using compile_throws_iff [of p] by simp
  moreover have "cr_ok r = is_object p
      \<and> (case cr_compiled r of None \<Rightarrow> \<not> is_object p | Some c \<Rightarrow> is_object p \<and> snapshot_ok (cp_snapshot c))"
  proof (cases "is_object p")
    case True
    then show ?thesis using Inr compile_snapshot_ok by (auto simp: compile_object_Inr)
  next
    case False
    then show ?thesis using Inr by (auto simp: compilePanelProject_def)
  qed
  ultimately show ?thesis using Inr by simp
qed

subsection \<open>Compiling a compiled snapshot again\<close>

text \<open>The snapshot as the value it is when it is sent back: \<open>undefined\<close> properties are left out.\<close>

definition opt_prop :: "string \<Rightarrow> ('a \<Rightarrow> jval) \<Rightarrow> 'a option \<Rightarrow> jval jobj" where
  "opt_prop k f v = (case v of None \<Rightarrow> [] | Some x \<Rightarrow> [(js k, f x)])"

definition rail_value :: "rail \<Rightarrow> jval" where
  "rail_value r = JObj [(js ''id'', JStr (rl_id r)), (js ''y'', JNum (rl_y r))]"

fun neutral_value :: "neutral_position \<Rightarrow> jval" where
  "neutral_value NeutralLeft = JStr (js ''left'')"
| "neutral_value NeutralRight = JStr (js ''right'')"

definition device_value :: "placed_device \<Rightarrow> jval" where
  "device_value d = JObj ([(js ''uid'', JStr (pd_uid d)), (js ''archetypeId'', JStr (pd_archetypeId d)),
     (js ''railId'', JStr (pd_railId d)), (js ''slot'', JNum (pd_slot d)),
     (js ''widthModules'', JNum (pd_widthModules d))] @ opt_prop ''label'' JStr (pd_label d)
     @ [(js ''isMain'', JBool (pd_isMain d))] @ opt_prop ''poles'' JNum (pd_poles d)
     @ opt_prop ''hasNeutral'' JBool (pd_hasNeutral d)
     @ opt_prop ''neutralPosition'' neutral_value (pd_neutralPosition d))"

definition uid_value :: "string \<Rightarrow> uid_ref \<Rightarrow> jval jobj" where
  "uid_value k r = (case r of NoUid \<Rightarrow> [] | NullUid \<Rightarrow> [(js k, Null)] | Uid s \<Rightarrow> [(js k, JStr s)])"

definition comb_value :: "comb_group \<Rightarrow> jval" where
  "comb_value c = JObj ([(js ''id'', JStr (cg_id c)), (js ''railId'', JStr (cg_railId c))]
     @ uid_value ''sourceUid'' (cg_sourceUid c)
     @ [(js ''startSlot'', JNum (cg_startSlot c)), (js ''endSlot'', JNum (cg_endSlot c)),
        (js ''side'', JStr (case cg_side c of Top \<Rightarrow> js ''top'' | Bottom \<Rightarrow> js ''bottom''))])"

fun wire_kind_value :: "wire_kind \<Rightarrow> jval" where
  "wire_kind_value WireL = JStr (js ''L'')"
| "wire_kind_value WireN = JStr (js ''N'')"
| "wire_kind_value WirePE = JStr (js ''PE'')"

definition wire_value :: "wire \<Rightarrow> jval" where
  "wire_value w = JObj [(js ''id'', JStr (wr_id w)), (js ''from'', JObj [(js ''anchorId'', JStr (wr_from w))]),
     (js ''to'', JObj [(js ''anchorId'', JStr (wr_to w))]),
     (js ''spec'', JObj ([(js ''kind'', wire_kind_value (wr_kind w)), (js ''gaugeMm2'', JNum (wr_gaugeMm2 w))]
        @ opt_prop ''color'' JStr (wr_color w) @ opt_prop ''cableType'' JStr (wr_cableType w)
        @ opt_prop ''label'' JStr (wr_label w))),
     (js ''createdAt'', JNum (wr_createdAt w))]"

fun profile_value :: "load_profile \<Rightarrow> jval" where
  "profile_value Lighting = JStr (js ''lighting'')"
| "profile_value Sockets = JStr (js ''sockets'')"
| "profile_value Motor = JStr (js ''motor'')"
| "profile_value Heater = JStr (js ''heater'')"
| "profile_value Mixed = JStr (js ''mixed'')"

definition circuit_value :: "circuit \<Rightarrow> jval" where
  "circuit_value c = JObj ([(js ''id'', JStr (ci_id c)), (js ''label'', JStr (ci_label c)),
     (js ''type'', JStr (case ci_type c of OneP \<Rightarrow> js ''1P'' | OnePN \<Rightarrow> js ''1P+N'')),
     (js ''loadKw'', JNum (ci_loadKw c))] @ uid_value ''breakerUid'' (ci_breakerUid c)
     @ opt_prop ''loadProfile'' profile_value (ci_loadProfile c)
     @ opt_prop ''breakerCurve'' (JStr \<circ> curve_str) (ci_breakerCurve c)
     @ opt_prop ''breakerRatingA'' JNum (ci_breakerRatingA c)
     @ [(js ''cable'', JObj [(js ''csaMm2'', JNum (ci_csaMm2 c)), (js ''hasPE'', JBool (ci_hasPE c))])])"

definition snapshot_value :: "panel_snapshot \<Rightarrow> jval" where
  "snapshot_value s = JObj ([(js ''rails'', JArr (map rail_value (ps_rails s))),
     (js ''devices'', JArr (map device_value (ps_devices s))), (js ''combs'', JArr (map comb_value (ps_combs s))),
     (js ''wires'', JArr (map wire_value (ps_wires s))), (js ''circuits'', JArr (map circuit_value (ps_circuits s)))]
     @ opt_prop ''reservePercent'' JNum (ps_reservePercent s))"

text \<open>Reading a property back.\<close>

named_theorems read_back

declare own_simps [read_back]

lemma own_opt_prop [read_back]:
  "own (opt_prop k' f o' @ ob) k = (if k = js k' then (case o' of Some x \<Rightarrow> f x | None \<Rightarrow> own ob k) else own ob k)"
  "own (opt_prop k' f o') k = (if k = js k' then (case o' of Some x \<Rightarrow> f x | None \<Rightarrow> Undefined) else Undefined)"
  by (simp_all add: own_def obj_get_def opt_prop_def split: option.split)

lemma own_uid_value [read_back]:
  "own (uid_value k' r @ ob) k = (if k = js k' then (case r of Uid s \<Rightarrow> JStr s | NullUid \<Rightarrow> Null | NoUid \<Rightarrow> own ob k)
     else own ob k)"
  by (simp add: own_def obj_get_def uid_value_def split: uid_ref.split)

lemma read_enum:
  "neutral_of (neutral_value p) = Some p" "load_profile_of (profile_value l) = Some l"
  "curve_of (JStr (curve_str c)) = Some c" "wire_kind_of (wire_kind_value k) = Some k"
  "neutral_of Undefined = None" "load_profile_of Undefined = None" "curve_of Undefined = None"
  by (cases p; simp add: neutral_of_def) (cases l; cases c; cases k;
      simp add: load_profile_of_def curve_of_def wire_kind_of_def neutral_of_def)+

lemma read_optional [read_back]:
  "string_of (case v of Some x \<Rightarrow> JStr x | None \<Rightarrow> Undefined) = v"
  "bool_of (case b of Some x \<Rightarrow> JBool x | None \<Rightarrow> Undefined) = b"
  "pred_option is_finite n \<Longrightarrow> finite_number (case n of Some x \<Rightarrow> JNum x | None \<Rightarrow> Undefined) = n"
  "neutral_of (case p of Some x \<Rightarrow> neutral_value x | None \<Rightarrow> Undefined) = p"
  "load_profile_of (case l of Some x \<Rightarrow> profile_value x | None \<Rightarrow> Undefined) = l"
  "curve_of (case c of Some x \<Rightarrow> JStr (curve_str x) | None \<Rightarrow> Undefined) = c"
  "uid_of (case r of Uid s \<Rightarrow> JStr s | NullUid \<Rightarrow> Null | NoUid \<Rightarrow> Undefined) = r"
  "wire_kind_of (wire_kind_value k) = Some k"
proof -
  show "string_of (case v of Some x \<Rightarrow> JStr x | None \<Rightarrow> Undefined) = v" by (cases v) simp_all
  show "bool_of (case b of Some x \<Rightarrow> JBool x | None \<Rightarrow> Undefined) = b" by (cases b) simp_all
  show "pred_option is_finite n \<Longrightarrow> finite_number (case n of Some x \<Rightarrow> JNum x | None \<Rightarrow> Undefined) = n"
    by (cases n) (simp_all add: finite_number_def)
  show "neutral_of (case p of Some x \<Rightarrow> neutral_value x | None \<Rightarrow> Undefined) = p"
    by (cases p) (simp_all add: read_enum)
  show "load_profile_of (case l of Some x \<Rightarrow> profile_value x | None \<Rightarrow> Undefined) = l"
    by (cases l) (simp_all add: read_enum)
  show "curve_of (case c of Some x \<Rightarrow> JStr (curve_str x) | None \<Rightarrow> Undefined) = c"
    by (cases c) (simp_all add: read_enum)
  show "uid_of (case r of Uid s \<Rightarrow> JStr s | NullUid \<Rightarrow> Null | NoUid \<Rightarrow> Undefined) = r"
    by (cases r) (simp_all add: uid_of_def)
  show "wire_kind_of (wire_kind_value k) = Some k" by (rule read_enum)
qed

lemma finite_number_JNum [read_back]: "is_finite x \<Longrightarrow> finite_number (JNum x) = Some x"
  by (simp add: finite_number_def)

lemmas value_defs = with_props_def nullish_def get_prop_def or_empty_def non_empty_def Let_def

lemma normalize_values:
  "rail_ok r \<Longrightarrow> normalize_rail (rail_value r) = Inr (Some r)"
  "device_ok d \<Longrightarrow> normalize_device (device_value d) = Inr (Some d)"
  "comb_ok c \<Longrightarrow> normalize_comb (comb_value c) = Inr (Some c)"
  "wire_ok w \<Longrightarrow> normalize_wire (wire_value w) = Inr (Some w)"
  "circuit_ok k \<Longrightarrow> normalize_circuit (circuit_value k) = Inr (Some k)"
proof -
  show "rail_ok r \<Longrightarrow> normalize_rail (rail_value r) = Inr (Some r)"
    by (simp add: rail_ok_def normalize_rail_def rail_value_def value_defs read_back
      cong: option.case_cong uid_ref.case_cong)
  show "device_ok d \<Longrightarrow> normalize_device (device_value d) = Inr (Some d)"
    by (simp add: device_ok_def normalize_device_def device_value_def value_defs read_back
      cong: option.case_cong uid_ref.case_cong)
  show "comb_ok c \<Longrightarrow> normalize_comb (comb_value c) = Inr (Some c)"
    by (cases "cg_side c") (simp_all add: comb_ok_def normalize_comb_def comb_value_def value_defs read_back
      cong: option.case_cong uid_ref.case_cong)
  show "wire_ok w \<Longrightarrow> normalize_wire (wire_value w) = Inr (Some w)"
    by (simp add: wire_ok_def normalize_wire_def wire_value_def value_defs read_back
      cong: option.case_cong uid_ref.case_cong)
  show "circuit_ok k \<Longrightarrow> normalize_circuit (circuit_value k) = Inr (Some k)"
    by (cases "ci_type k") (simp_all add: circuit_ok_def normalize_circuit_def circuit_value_def value_defs read_back
        circuit_type_of_def cong: option.case_cong uid_ref.case_cong)
qed
lemma map_not_null_values:
  "list_all P xs \<Longrightarrow> (\<And>x. P x \<Longrightarrow> f (val x) = Inr (Some x)) \<Longrightarrow> map_not_null f (map val xs) = Inr xs"
proof -
  assume all: "list_all P xs" and f: "\<And>x. P x \<Longrightarrow> f (val x) = Inr (Some x)"
  from all have "list_all2 (\<lambda>v z. f v = Inr z) (map val xs) (map Some xs)"
    by (simp add: list_all2_conv_all_nth list_all_length f)
  moreover have "List.map_filter id (map Some xs) = xs" by (induction xs) (simp_all add: List.map_filter_simps)
  ultimately show ?thesis by (metis map_not_null_Inr_iff)
qed

lemma compile_snapshot_value:
  assumes "snapshot_ok s"
  shows "compile_snapshot (snapshot_value s) = Inr s"
proof -
  have "get_prop (snapshot_value s) ''rails'' = JArr (map rail_value (ps_rails s))"
    "get_prop (snapshot_value s) ''devices'' = JArr (map device_value (ps_devices s))"
    "get_prop (snapshot_value s) ''combs'' = JArr (map comb_value (ps_combs s))"
    "get_prop (snapshot_value s) ''wires'' = JArr (map wire_value (ps_wires s))"
    "get_prop (snapshot_value s) ''circuits'' = JArr (map circuit_value (ps_circuits s))"
    "finite_number (get_prop (snapshot_value s) ''reservePercent'') = ps_reservePercent s"
    using assms by (simp_all add: snapshot_value_def get_prop_def read_back snapshot_ok_def)
  moreover note assms [unfolded snapshot_ok_def]
  ultimately show ?thesis
    by (simp add: compile_snapshot_def normalizeRails_def normalizeDevices_def normalizeCombs_def
        normalizeWires_def normalizeCircuits_def asArray_def normalize_values
        map_not_null_values [where P = rail_ok] map_not_null_values [where P = device_ok]
        map_not_null_values [where P = comb_ok] map_not_null_values [where P = wire_ok]
        map_not_null_values [where P = circuit_ok])
qed

text \<open>C17. A compiled snapshot, sent back as a project, compiles to the same snapshot and the same derived
  data.\<close>

theorem compiled_snapshot_compiles_to_itself:
  assumes "compilePanelProject p = Inr r" "cr_compiled r = Some c"
  shows "\<exists>r' c'. compilePanelProject (JObj [(js ''snapshot'', snapshot_value (cp_snapshot c))]) = Inr r'
    \<and> cr_compiled r' = Some c' \<and> cp_snapshot c' = cp_snapshot c \<and> cp_derived c' = cp_derived c
    \<and> cr_diagnostics r' = cr_diagnostics r"
proof -
  let ?q = "JObj [(js ''snapshot'', snapshot_value (cp_snapshot c))]"
  have obj: "is_object p" using assms by (auto simp: compilePanelProject_def split: if_splits)
  with assms obtain s where s: "compile_snapshot (or_empty (get_prop p ''snapshot'')) = Inr s" "cp_snapshot c = s"
    "cp_derived c = derive (ps_devices s) (ps_combs s) (ps_wires s) (ps_circuits s)"
    "cr_diagnostics r = emptiness_diagnostics (ps_rails s) (ps_devices s)"
    by (auto simp: compile_object_Inr)
  then have "compile_snapshot (snapshot_value s) = Inr s"
    by (intro compile_snapshot_value compile_snapshot_ok)
  moreover have "or_empty (get_prop ?q ''snapshot'') = snapshot_value s"
    by (simp add: get_prop_def own_simps or_empty_def nullish_def snapshot_value_def s(2))
  moreover have "is_object ?q" by (simp add: is_object_def)
  moreover from calculation obtain r' where r': "compilePanelProject ?q = Inr r'"
    by (simp add: compilePanelProject_def Let_def)
  ultimately show ?thesis
    using s compile_object_Inr [of ?q r'] by auto
qed

definition demo_project :: jval where
  "demo_project = JObj [(js ''snapshot'', JObj [
     (js ''devices'', JArr [device_value \<lparr>pd_uid = js ''b1'', pd_archetypeId = js ''mcb'', pd_railId = js ''r1'',
        pd_slot = Fin 1, pd_widthModules = Fin 2, pd_label = None, pd_isMain = True, pd_poles = None,
        pd_hasNeutral = Some True, pd_neutralPosition = Some NeutralLeft\<rparr>, JStr (js ''junk'')])])]"

lemma demo_project_compiles: "\<exists>r c. compilePanelProject demo_project = Inr r \<and> cr_compiled r = Some c"
proof -
  have "is_object demo_project" by (simp add: demo_project_def is_object_def)
  moreover have "\<not> list_ex (has_null_item (get_prop demo_project ''snapshot''))
      [''rails'', ''devices'', ''combs'', ''wires'', ''circuits'']"
    by (simp add: demo_project_def has_null_item_def asArray_def get_prop_def own_simps nullish_def device_value_def)
  ultimately obtain r where r: "compilePanelProject demo_project = Inr r"
    using compile_throws_iff [of demo_project] by (cases "compilePanelProject demo_project") auto
  with \<open>is_object demo_project\<close> obtain c where "cr_compiled r = Some c" by (auto simp: compile_object_Inr)
  with r show ?thesis by blast
qed

theorem compiled_snapshot_compiles_to_itself_witness:
  "\<exists>r c r' c'. compilePanelProject demo_project = Inr r \<and> cr_compiled r = Some c
    \<and> compilePanelProject (JObj [(js ''snapshot'', snapshot_value (cp_snapshot c))]) = Inr r'
    \<and> cr_compiled r' = Some c' \<and> cp_snapshot c' = cp_snapshot c"
  using compiled_snapshot_compiles_to_itself [of demo_project] demo_project_compiles by metis

subsection \<open>Suggested ratings\<close>

definition design_current :: "jnum \<Rightarrow> jnum" where
  "design_current currentA = jmul currentA (fl (115 / 100))"

lemma rating_eq: "chooseSuggestedRatingA a =
   (case find (jle (design_current a)) standard_ratings of Some r \<Rightarrow> r | None \<Rightarrow> Fin 63)"
  by (simp add: chooseSuggestedRatingA_def design_current_def Let_def)

text \<open>C18. The suggested rating is a standard rating; no smaller one covers the design current (1.15 times the
  estimated current), and it covers it exactly when 63 A does: a larger load still gets 63 A.\<close>

theorem suggested_rating_is_least_standard:
  "chooseSuggestedRatingA a \<in> set standard_ratings
    \<and> filter (\<lambda>r. jle (design_current a) r \<and> jless r (chooseSuggestedRatingA a)) standard_ratings = []
    \<and> jle (design_current a) (chooseSuggestedRatingA a) = jle (design_current a) (Fin 63)"
proof (cases "design_current a")
  case (Fin q)
  then show ?thesis by (auto simp: rating_eq standard_ratings_def)
qed (simp_all add: rating_eq standard_ratings_def jle_def jeq_def)

definition heavy_circuit :: circuit where
  "heavy_circuit = \<lparr>ci_id = js ''c'', ci_label = js ''Oven'', ci_type = OnePN, ci_loadKw = Fin 23,
     ci_breakerUid = NoUid, ci_loadProfile = Some Heater, ci_breakerCurve = None, ci_breakerRatingA = None,
     ci_csaMm2 = Fin (5 / 2), ci_hasPE = True\<rparr>"

lemma estimate_23_kW: "round1 (jdiv (jmul (Fin 23) (Fin 1000)) (Fin 230)) = Fin 100"
proof -
  have "\<lfloor>2001 / 2 :: rat\<rfloor> = 1000" by (rule floor_unique) simp_all
  then show ?thesis
    using fl_int [of 23000] fl_int [of 100] fl_int [of 1000] by (simp add: round1_def jround_def)
qed

lemma design_100_A: "design_current (Fin 100) = Fin (8092405580431359 / 70368744177664)"
  by code_simp

lemma rating_100_A: "chooseSuggestedRatingA (Fin 100) = Fin 63"
  by (simp add: rating_eq design_100_A standard_ratings_def)

text \<open>A load above what 63 A covers gets a 63 A suggestion below its own estimated current: 23 kW draws
  100 A.\<close>

lemma heavy_load_gets_undersized_suggestion:
  "su_estimatedCurrentA (suggest heavy_circuit) = Fin 100 \<and> su_ratingA (suggest heavy_circuit) = Fin 63"
proof -
  have "ci_loadKw heavy_circuit = Fin 23" by (simp add: heavy_circuit_def)
  then show ?thesis by (simp only: suggest_def Let_def suggestion.select_convs estimate_23_kW rating_100_A simp_thms)
qed

end
