(* ===== verification/PanelAnalysis.thy ===== *)
theory PanelAnalysis
  imports Panel
begin

text \<open>
  The analysis of a compiled panel, \<open>libs/domain-panel/src/lib/analyze-panel.ts\<close>: the diagnostics of the
  main breaker, of each circuit and of each breaker, appended to those of the compiler.  Reading a
  member of a state that is missing throws; a member inherited from \<open>Object.prototype\<close> is an object
  without the fields read, each of them \<open>undefined\<close>.

  The lemmas show that on a compiled panel no state is missing, and characterise when an error is
  reported.
\<close>

definition make_diagnostic :: "jstr \<Rightarrow> severity \<Rightarrow> string \<Rightarrow> jstr \<Rightarrow> string \<Rightarrow> jstr option \<Rightarrow> jstr option
    \<Rightarrow> jstr option \<Rightarrow> diagnostic" where
  "make_diagnostic i sev kind msg path circuitId breakerUid deviceUid =
     \<lparr>dg_id = i, dg_severity = sev, dg_kind = js kind, dg_message = msg, dg_path = Some (js path),
      dg_circuitId = circuitId, dg_breakerUid = breakerUid, dg_deviceUid = deviceUid\<rparr>"

definition quoted :: "jstr \<Rightarrow> jstr" where
  "quoted s = [34] @ s @ [34]"

text \<open>\<open>`${railId} \<bullet> slot ${slot}`\<close>, the bullet being code unit 8226.\<close>

definition location :: "jstr \<Rightarrow> jstr \<Rightarrow> jstr" where
  "location railId slot = railId @ [32, 8226, 32] @ js ''slot '' @ slot"

definition device_location :: "placed_device \<Rightarrow> jstr" where
  "device_location d = location (pd_railId d) (num_str (pd_slot d))"

definition breaker_location :: "placed_device member \<Rightarrow> jstr" where
  "breaker_location m = (case m of Own d \<Rightarrow> device_location d
     | Inherited \<Rightarrow> location (js ''undefined'') (js ''undefined''))"

text \<open>\<open>state.f\<close> of what \<open>states[id]\<close> gives.\<close>

definition read_state :: "'s member option \<Rightarrow> ('s \<Rightarrow> bool) \<Rightarrow> bool" where
  "read_state m f = (case m of Some (Own s) \<Rightarrow> f s | _ \<Rightarrow> False)"

definition main_diagnostics :: "placed_device list \<Rightarrow> diagnostic list" where
  "main_diagnostics devices =
     (let mains = filter pd_isMain devices
      in if 1 < length mains
         then [make_diagnostic (js ''main.multiple'') SevError ''Main''
           (js ''Multiple main breakers detected ('' @ int_str (int (length mains)) @ js '').'')
           ''snapshot.devices'' None None None]
         else [])"

definition circuit_diagnostics :: "panel_derived \<Rightarrow> circuit \<Rightarrow> diagnostic list result" where
  "circuit_diagnostics derived c =
     (case named (ci_breakerUid c) of
        None \<Rightarrow> Inr [make_diagnostic (js ''circuit.unassigned.'' @ ci_id c) SevWarning ''Circuit''
          (quoted (ci_label c) @ js '' has no breaker assigned.'') ''snapshot.circuits'' (Some (ci_id c)) None None]
      | Some breakerUid \<Rightarrow>
          (case obj_member (dv_devicesByUid derived) breakerUid of
             None \<Rightarrow> Inr [make_diagnostic (js ''circuit.missingBreaker.'' @ ci_id c) SevError ''Circuit''
               (quoted (ci_label c) @ js '' references a missing breaker '' @ quoted breakerUid @ js ''.'')
               ''snapshot.circuits'' (Some (ci_id c)) (Some breakerUid) None]
           | Some breaker \<Rightarrow>
               (let loc = breaker_location breaker;
                    state = obj_member (dv_circuitStates derived) (ci_id c);
                    report = (\<lambda>tag sev kind text. make_diagnostic (js tag @ ci_id c) sev kind
                      (quoted (ci_label c) @ text) ''snapshot.circuits'' (Some (ci_id c)) (Some breakerUid) None)
                in if state = None then Inl TypeError
                   else Inr
                    ((if \<not> read_state state cs_hasL
                      then [report ''circuit.unfed.'' SevError ''Feed'' (js '' is on an unfed breaker ('' @ loc @ js '').'')] else [])
                     @ (if \<not> read_state state cs_hasPE
                        then [report ''circuit.nope.'' SevWarning ''PE'' (js '' has no PE conductor declared.'')] else [])
                     @ (if \<not> read_state state cs_isComplete
                        then [report ''circuit.incomplete.'' SevInfo ''Circuit'' (js '' is not fully complete ('' @ loc @ js '').'')] else [])))))"

definition breaker_diagnostics :: "panel_derived \<Rightarrow> placed_device \<Rightarrow> diagnostic list" where
  "breaker_diagnostics derived d =
     (case obj_member (dv_breakerStates derived) (pd_uid d) of
        None \<Rightarrow> []
      | state \<Rightarrow>
          (let loc = device_location d;
               title = quoted (case pd_label d of Some l \<Rightarrow> l | None \<Rightarrow> pd_uid d);
               report = (\<lambda>tag sev text. make_diagnostic (js tag @ pd_uid d) sev ''Breaker''
                 (title @ js '' on '' @ loc @ text) ''snapshot.devices'' None (Some (pd_uid d)) (Some (pd_uid d)))
           in (if \<not> pd_isMain d \<and> \<not> read_state state bs_hasCircuit
               then [report ''breaker.nocircuit.'' SevInfo (js '' has no circuit.'')] else [])
              @ (if \<not> pd_isMain d \<and> \<not> read_state state bs_isFed
                 then [report ''breaker.unfed.'' SevWarning (js '' is not fed.'')] else [])))"

definition analyzeCompiledPanel :: "compile_result \<Rightarrow> diagnostic list result" where
  "analyzeCompiledPanel compileResult =
     (case cr_compiled compileResult of
        None \<Rightarrow> Inr (cr_diagnostics compileResult)
      | Some compiled \<Rightarrow>
          (let devices = ps_devices (cp_snapshot compiled); circuits = ps_circuits (cp_snapshot compiled);
               derived = cp_derived compiled
           in and_then (map_result (circuit_diagnostics derived) circuits) (\<lambda>cds.
                Inr (cr_diagnostics compileResult @ main_diagnostics devices @ concat cds
                     @ concat (map (breaker_diagnostics derived) devices)))))"

subsection \<open>The indexes of a compiled panel\<close>

lemma map_of_rev_map:
  "map_of (rev (map (\<lambda>x. (key x, f x)) xs)) k = map_option f (find (\<lambda>x. key x = k) (rev xs))"
proof -
  have "map_of (map (\<lambda>x. (key x, f x)) ys) k = map_option f (find (\<lambda>x. key x = k) ys)" for ys
    by (induction ys) auto
  from this [of "rev xs"] show ?thesis by (simp add: rev_map)
qed

lemma find_None_iff_key: "find (\<lambda>x. key x = k) xs = None \<longleftrightarrow> k \<notin> key ` set xs"
  by (auto simp: find_None_iff)

lemma find_key_distinct:
  "distinct (map key xs) \<Longrightarrow> x \<in> set xs \<Longrightarrow> find (\<lambda>y. key y = key x) xs = Some x"
  by (induction xs) auto

lemma last_with_key:
  "x \<in> set xs \<Longrightarrow> \<exists>y\<in>set xs. key y = key x \<and> find (\<lambda>z. key z = key x) (rev xs) = Some y"
proof -
  assume "x \<in> set xs"
  then have "find (\<lambda>z. key z = key x) (rev xs) \<noteq> None" by (auto simp: find_None_iff)
  then show ?thesis using find_SomeD by fastforce
qed

text \<open>A device is found by its uid (the last of several that share one).\<close>

lemma devices_by_uid:
  "obj_get (buildDevicesByUid devices) uid = find (\<lambda>d. pd_uid d = uid) (rev devices)"
  by (simp add: buildDevicesByUid_def obj_get_from_entries map_of_rev_map option.map_ident)

lemma circuit_states:
  "obj_get (buildCircuitStates circuits devicesByUid fs) i
     = map_option (circuit_state_of devicesByUid fs) (find (\<lambda>c. ci_id c = i) (rev circuits))"
  by (simp add: buildCircuitStates_def obj_get_from_entries map_of_rev_map)

lemma breaker_circuit_map:
  "obj_get (buildBreakerCircuitMap circuits) uid \<noteq> None
     \<longleftrightarrow> list_ex (\<lambda>c. named (ci_breakerUid c) = Some uid) circuits"
proof -
  have "obj_get (buildBreakerCircuitMap circuits) uid = None
      \<longleftrightarrow> uid \<notin> fst ` set (List.map_filter (\<lambda>c. map_option (\<lambda>b. (b, c)) (named (ci_breakerUid c))) circuits)"
    unfolding buildBreakerCircuitMap_def from_entries_def by (rule object_store.get_build_None)
  moreover have "set (List.map_filter (\<lambda>c. map_option (\<lambda>b. (b, c)) (named (ci_breakerUid c))) circuits)
      = {(b, c). c \<in> set circuits \<and> named (ci_breakerUid c) = Some b}"
    by (induction circuits) (auto simp: List.map_filter_simps split: option.splits)
  ultimately show ?thesis by (force simp: list_ex_iff)
qed
subsection \<open>What the analysis of a compiled panel reports\<close>

definition fed_uid :: "panel_snapshot \<Rightarrow> jstr \<Rightarrow> bool" where
  "fed_uid s uid \<longleftrightarrow> fed (ps_devices s) (ps_combs s) (ps_wires s) uid"

definition derived_of :: "panel_snapshot \<Rightarrow> panel_derived" where
  "derived_of s = derive (ps_devices s) (ps_combs s) (ps_wires s) (ps_circuits s)"

lemma derived_of_simps [simp]:
  "dv_devicesByUid (derived_of s) = buildDevicesByUid (ps_devices s)"
  "dv_circuitStates (derived_of s) = buildCircuitStates (ps_circuits s) (buildDevicesByUid (ps_devices s))
     (buildFedDeviceUids (ps_devices s) (ps_combs s) (ps_wires s))"
  "dv_breakerStates (derived_of s) = buildBreakerStates (ps_devices s)
     (buildFedDeviceUids (ps_devices s) (ps_combs s) (ps_wires s)) (buildBreakerCircuitMap (ps_circuits s))"
  by (simp_all add: derived_of_def derive_def Let_def)

lemma fed_uid_device: "fed_uid s uid \<Longrightarrow> uid \<in> pd_uid ` set (ps_devices s)"
  unfolding fed_uid_def by (rule fed_device)

text \<open>The state of a circuit whose id no later circuit repeats.\<close>

lemma state_hasL:
  "cs_hasL (circuit_state_of (buildDevicesByUid (ps_devices s))
      (buildFedDeviceUids (ps_devices s) (ps_combs s) (ps_wires s)) c)
     \<longleftrightarrow> (\<exists>u. named (ci_breakerUid c) = Some u \<and> fed_uid s u)"
proof (cases "named (ci_breakerUid c)")
  case (Some u)
  show ?thesis
  proof (cases "obj_get (buildDevicesByUid (ps_devices s)) u")
    case None
    then have "\<not> fed_uid s u" using fed_uid_device by (fastforce simp: devices_by_uid find_None_iff_key)
    with Some None show ?thesis by (auto simp: circuit_state_of_def Let_def obj_member_def)
  next
    case (Some d)
    then have "pd_uid d = u" by (auto simp: devices_by_uid dest!: find_SomeD)
    with Some \<open>named (ci_breakerUid c) = Some u\<close> show ?thesis
      by (auto simp: circuit_state_of_def Let_def obj_member_def fed_uid_def buildFed_iff)
  qed
qed (simp add: circuit_state_of_def Let_def)

lemma state_rest [simp]:
  "cs_hasPE (circuit_state_of ds fs c) = ci_hasPE c"
  "cs_isComplete (circuit_state_of ds fs c) \<longleftrightarrow> cs_hasL (circuit_state_of ds fs c) \<and> ci_hasPE c"
  by (simp_all add: circuit_state_of_def Let_def)

definition well_wired :: "panel_snapshot \<Rightarrow> circuit \<Rightarrow> bool" where
  "well_wired s c \<longleftrightarrow> (case named (ci_breakerUid c) of Some u \<Rightarrow> fed_uid s u | None \<Rightarrow> False)"

definition broken :: "panel_snapshot \<Rightarrow> circuit \<Rightarrow> bool" where
  "broken s c \<longleftrightarrow> (case named (ci_breakerUid c) of Some u \<Rightarrow> \<not> fed_uid s u | None \<Rightarrow> False)"

definition has_error :: "diagnostic list \<Rightarrow> bool" where
  "has_error ds \<longleftrightarrow> list_ex (\<lambda>d. dg_severity d = SevError) ds"

lemma has_error_simps [simp]:
  "\<not> has_error []" "has_error (xs @ ys) \<longleftrightarrow> has_error xs \<or> has_error ys"
  "has_error (d # ds) \<longleftrightarrow> dg_severity d = SevError \<or> has_error ds"
  by (simp_all add: has_error_def)

lemma has_error_concat: "has_error (concat dss) \<longleftrightarrow> list_ex has_error dss"
  by (induction dss) auto

lemma circuit_diagnostics_compiled:
  assumes "distinct (map ci_id (ps_circuits s))" "c \<in> set (ps_circuits s)"
  shows "\<exists>ds. circuit_diagnostics (derived_of s) c = Inr ds \<and> (has_error ds \<longleftrightarrow> broken s c)
    \<and> (ds = [] \<longleftrightarrow> well_wired s c \<and> ci_hasPE c)"
proof (cases "named (ci_breakerUid c)")
  case None
  then show ?thesis by (simp add: circuit_diagnostics_def broken_def well_wired_def make_diagnostic_def)
next
  case (Some u)
  let ?st = "circuit_state_of (buildDevicesByUid (ps_devices s))
    (buildFedDeviceUids (ps_devices s) (ps_combs s) (ps_wires s)) c"
  have "distinct (map ci_id (rev (ps_circuits s)))" using assms(1) by (simp add: rev_map [symmetric])
  then have "find (\<lambda>x. ci_id x = ci_id c) (rev (ps_circuits s)) = Some c"
    by (rule find_key_distinct) (use assms(2) in simp)
  then have st: "obj_member (dv_circuitStates (derived_of s)) (ci_id c) = Some (Own ?st)"
    by (simp add: obj_member_def circuit_states)
  have L: "cs_hasL ?st \<longleftrightarrow> fed_uid s u" using Some by (simp add: state_hasL)
  show ?thesis
  proof (cases "obj_member (dv_devicesByUid (derived_of s)) u")
    case None
    then have "obj_get (buildDevicesByUid (ps_devices s)) u = None"
      by (auto simp: obj_member_def split: option.splits)
    then have "\<not> fed_uid s u" using fed_uid_device by (fastforce simp: devices_by_uid find_None_iff_key)
    then show ?thesis using None Some
      by (simp add: circuit_diagnostics_def broken_def well_wired_def make_diagnostic_def)
  next
    case (Some m)
    with st L \<open>named (ci_breakerUid c) = Some u\<close> show ?thesis
      by (simp add: circuit_diagnostics_def broken_def well_wired_def make_diagnostic_def Let_def read_state_def)
  qed
qed

definition breaker_fine :: "panel_snapshot \<Rightarrow> placed_device \<Rightarrow> bool" where
  "breaker_fine s d \<longleftrightarrow> pd_isMain d
     \<or> fed_uid s (pd_uid d) \<and> list_ex (\<lambda>c. named (ci_breakerUid c) = Some (pd_uid d)) (ps_circuits s)"

lemma breaker_diagnostics_compiled:
  assumes "d \<in> set (ps_devices s)" "pd_uid d \<notin> set object_prototype_names"
  shows "breaker_diagnostics (derived_of s) d = [] \<longleftrightarrow> breaker_fine s d"
proof -
  from assms(1) last_with_key [of d "ps_devices s" pd_uid]
  obtain e where e: "pd_uid e = pd_uid d" "find (\<lambda>z. pd_uid z = pd_uid d) (rev (ps_devices s)) = Some e" by auto
  have "obj_member (dv_breakerStates (derived_of s)) (pd_uid d)
      = Some (Own \<lparr>bs_isMain = pd_isMain e, bs_isFed = fed_uid s (pd_uid d),
          bs_hasCircuit = list_ex (\<lambda>c. named (ci_breakerUid c) = Some (pd_uid d)) (ps_circuits s)\<rparr>)"
    using e assms(2) breaker_circuit_map [of "ps_circuits s" "pd_uid d"]
    by (auto simp: obj_member_def buildBreakerStates_def obj_get_from_entries map_of_rev_map fed_uid_def buildFed_iff
        split: option.splits)
  then show ?thesis
    by (auto simp: breaker_diagnostics_def breaker_fine_def Let_def read_state_def)
qed

lemma breaker_diagnostics_no_error: "\<not> has_error (breaker_diagnostics derived d)"
  by (simp add: breaker_diagnostics_def Let_def make_diagnostic_def split: option.split)
lemma map_result_all:
  "(\<And>x. x \<in> set xs \<Longrightarrow> \<exists>y. f x = Inr y \<and> Q x y) \<Longrightarrow> \<exists>ys. map_result f xs = Inr ys \<and> list_all2 Q xs ys"
proof (induction xs)
  case (Cons x xs)
  from Cons.prems [of x] obtain y where "f x = Inr y" "Q x y" by auto
  moreover from Cons obtain ys where "map_result f xs = Inr ys" "list_all2 Q xs ys" by auto
  ultimately show ?case by simp
qed simp

lemma list_all2_list_ex: "list_all2 (\<lambda>x y. P y \<longleftrightarrow> Q x) xs ys \<Longrightarrow> list_ex P ys \<longleftrightarrow> list_ex Q xs"
  by (induction rule: list_all2_induct) auto

lemma list_all2_list_all: "list_all2 (\<lambda>x y. P y \<longleftrightarrow> Q x) xs ys \<Longrightarrow> list_all P ys \<longleftrightarrow> list_all Q xs"
  by (induction rule: list_all2_induct) auto

lemma main_diagnostics_error: "has_error (main_diagnostics ds) \<longleftrightarrow> 1 < length (filter pd_isMain ds)"
  "main_diagnostics ds = [] \<longleftrightarrow> length (filter pd_isMain ds) \<le> 1"
  by (simp_all add: main_diagnostics_def Let_def make_diagnostic_def not_less)

lemma emptiness_has_no_error: "\<not> has_error (emptiness_diagnostics rails devices)"
  "emptiness_diagnostics rails devices = [] \<longleftrightarrow> rails \<noteq> [] \<and> devices \<noteq> []"
  using emptiness_no_error [of rails devices] by (simp_all add: has_error_def emptiness_diagnostics_def)

text \<open>The analysis of a compiled panel with distinct circuit ids, part by part.\<close>

lemma analysis_compiled:
  assumes p: "compilePanelProject p = Inr r" "cr_compiled r = Some c"
    and dist: "distinct (map ci_id (ps_circuits (cp_snapshot c)))"
  shows "\<exists>cds. analyzeCompiledPanel r
      = Inr (emptiness_diagnostics (ps_rails (cp_snapshot c)) (ps_devices (cp_snapshot c))
          @ main_diagnostics (ps_devices (cp_snapshot c)) @ concat cds
          @ concat (map (breaker_diagnostics (derived_of (cp_snapshot c))) (ps_devices (cp_snapshot c))))
    \<and> list_ex has_error cds = list_ex (broken (cp_snapshot c)) (ps_circuits (cp_snapshot c))
    \<and> (concat cds = [])
        = list_all (\<lambda>k. well_wired (cp_snapshot c) k \<and> ci_hasPE k) (ps_circuits (cp_snapshot c))"
proof -
  let ?s = "cp_snapshot c"
  have "is_object p" using p by (auto simp: compilePanelProject_def split: if_splits)
  with p have r: "cr_diagnostics r = emptiness_diagnostics (ps_rails ?s) (ps_devices ?s)"
    "cp_derived c = derived_of ?s"
    by (auto simp: compile_object_Inr derived_of_def)
  have "\<exists>cds. map_result (circuit_diagnostics (derived_of ?s)) (ps_circuits ?s) = Inr cds
      \<and> list_all2 (\<lambda>k ds. (has_error ds \<longleftrightarrow> broken ?s k) \<and> (ds = [] \<longleftrightarrow> well_wired ?s k \<and> ci_hasPE k))
        (ps_circuits ?s) cds"
    by (rule map_result_all) (rule circuit_diagnostics_compiled [OF dist])
  then obtain cds where cds: "map_result (circuit_diagnostics (derived_of ?s)) (ps_circuits ?s) = Inr cds"
    "list_all2 (\<lambda>k ds. (has_error ds \<longleftrightarrow> broken ?s k) \<and> (ds = [] \<longleftrightarrow> well_wired ?s k \<and> ci_hasPE k))
      (ps_circuits ?s) cds"
    by blast
  have "list_ex has_error cds \<longleftrightarrow> list_ex (broken ?s) (ps_circuits ?s)"
    by (rule list_all2_list_ex, rule list_all2_mono [OF cds(2)]) simp
  moreover have "list_all (\<lambda>ds. ds = []) cds \<longleftrightarrow> list_all (\<lambda>k. well_wired ?s k \<and> ci_hasPE k) (ps_circuits ?s)"
    by (rule list_all2_list_all, rule list_all2_mono [OF cds(2)]) simp
  ultimately show ?thesis
    by (intro exI [of _ cds]) (simp add: analyzeCompiledPanel_def p(2) r cds(1) Let_def list_all_iff)
qed

text \<open>C19. The analysis of a compiled panel whose circuit ids are distinct reports an error exactly when the
  panel has two main breakers or a circuit names a breaker that is not fed (a missing one included).\<close>

theorem analysis_errors_iff:
  assumes "compilePanelProject p = Inr r" "cr_compiled r = Some c"
    "distinct (map ci_id (ps_circuits (cp_snapshot c)))"
  shows "\<exists>ds. analyzeCompiledPanel r = Inr ds
    \<and> (has_error ds \<longleftrightarrow> 1 < length (filter pd_isMain (ps_devices (cp_snapshot c)))
          \<or> list_ex (broken (cp_snapshot c)) (ps_circuits (cp_snapshot c)))"
  using analysis_compiled [OF assms]
  by (auto simp: has_error_concat main_diagnostics_error emptiness_has_no_error breaker_diagnostics_no_error
      list_ex_iff)

text \<open>For a compiled panel whose circuits have distinct ids (their states are keyed by the id) and whose
  device uids are no names of \<open>Object.prototype\<close> (they are looked up by property access): the analysis reports
  nothing exactly when there is a rail and a device, at most one main breaker, every circuit has a fed breaker
  and a PE conductor, and every other breaker is fed and has a circuit.\<close>

lemma clean_panel_iff:
  assumes "compilePanelProject p = Inr r" "cr_compiled r = Some c"
    "distinct (map ci_id (ps_circuits (cp_snapshot c)))"
    "list_all (\<lambda>d. pd_uid d \<notin> set object_prototype_names) (ps_devices (cp_snapshot c))"
  shows "analyzeCompiledPanel r = Inr [] \<longleftrightarrow>
    ps_rails (cp_snapshot c) \<noteq> [] \<and> ps_devices (cp_snapshot c) \<noteq> []
    \<and> length (filter pd_isMain (ps_devices (cp_snapshot c))) \<le> 1
    \<and> list_all (\<lambda>k. well_wired (cp_snapshot c) k \<and> ci_hasPE k) (ps_circuits (cp_snapshot c))
    \<and> list_all (breaker_fine (cp_snapshot c)) (ps_devices (cp_snapshot c))"
proof -
  have "concat (map (breaker_diagnostics (derived_of (cp_snapshot c))) (ps_devices (cp_snapshot c))) = []
      \<longleftrightarrow> list_all (breaker_fine (cp_snapshot c)) (ps_devices (cp_snapshot c))"
    using assms(4) by (auto simp: list_all_iff breaker_diagnostics_compiled)
  then show ?thesis
    using analysis_compiled [OF assms(1-3)]
    by (auto simp: main_diagnostics_error emptiness_has_no_error)
qed
subsection \<open>A small panel\<close>

definition demo_device :: "string \<Rightarrow> rat \<Rightarrow> bool \<Rightarrow> placed_device" where
  "demo_device uid slot main = \<lparr>pd_uid = js uid, pd_archetypeId = js ''mcb'', pd_railId = js ''r'',
     pd_slot = Fin slot, pd_widthModules = Fin 1, pd_label = None, pd_isMain = main, pd_poles = None,
     pd_hasNeutral = None, pd_neutralPosition = None\<rparr>"

definition demo_circuit :: "string \<Rightarrow> bool \<Rightarrow> circuit" where
  "demo_circuit breaker pe = \<lparr>ci_id = js ''k'', ci_label = js ''Kitchen'', ci_type = OnePN, ci_loadKw = Fin 2,
     ci_breakerUid = Uid (js breaker), ci_loadProfile = Some Sockets, ci_breakerCurve = Some CurveC,
     ci_breakerRatingA = Some (Fin 16), ci_csaMm2 = Fin (5 / 2), ci_hasPE = pe\<rparr>"

text \<open>A main breaker wired to the feed, a breaker beside it on a comb fed by the main one, one circuit.\<close>

definition demo_snapshot :: "string \<Rightarrow> panel_snapshot" where
  "demo_snapshot breaker = \<lparr>ps_rails = [\<lparr>rl_id = js ''r'', rl_y = Fin 0\<rparr>],
     ps_devices = [demo_device ''m'' 0 True, demo_device ''b'' 1 False],
     ps_combs = [\<lparr>cg_id = js ''g'', cg_railId = js ''r'', cg_sourceUid = Uid (js ''m''), cg_startSlot = Fin 0,
       cg_endSlot = Fin 3, cg_side = Top\<rparr>],
     ps_wires = [\<lparr>wr_id = js ''w'', wr_from = js ''system:feed:L'', wr_to = js ''m:top:L'', wr_kind = WireL,
       wr_gaugeMm2 = Fin 10, wr_color = None, wr_cableType = None, wr_label = None, wr_createdAt = Fin 0\<rparr>],
     ps_circuits = [demo_circuit breaker True], ps_reservePercent = None\<rparr>"

definition demo_panel :: "string \<Rightarrow> jval" where
  "demo_panel breaker = JObj [(js ''snapshot'', snapshot_value (demo_snapshot breaker))]"

lemma demo_panel_compiles:
  "\<exists>r c. compilePanelProject (demo_panel b) = Inr r \<and> cr_compiled r = Some c \<and> cp_snapshot c = demo_snapshot b"
proof -
  have "snapshot_ok (demo_snapshot b)"
    by (simp add: snapshot_ok_def demo_snapshot_def rail_ok_def device_ok_def comb_ok_def wire_ok_def circuit_ok_def
        demo_device_def demo_circuit_def)
  then have s: "compile_snapshot (snapshot_value (demo_snapshot b)) = Inr (demo_snapshot b)"
    by (rule compile_snapshot_value)
  have o: "or_empty (get_prop (demo_panel b) ''snapshot'') = snapshot_value (demo_snapshot b)" "is_object (demo_panel b)"
    by (simp_all add: demo_panel_def get_prop_def own_simps or_empty_def nullish_def snapshot_value_def is_object_def)
  with s obtain r where r: "compilePanelProject (demo_panel b) = Inr r"
    by (simp add: compilePanelProject_def Let_def)
  with o s obtain c where "cr_compiled r = Some c" "cp_snapshot c = demo_snapshot b"
    by (auto simp: compile_object_Inr)
  with r show ?thesis by blast
qed

lemma demo_fed: "fed_uid (demo_snapshot b) (js ''m'')" "fed_uid (demo_snapshot b) (js ''b'')"
proof -
  let ?m = "demo_device ''m'' 0 True" and ?b = "demo_device ''b'' 1 False"
  have dev: "?m \<in> set (ps_devices (demo_snapshot b))" "?b \<in> set (ps_devices (demo_snapshot b))"
    by (simp_all add: demo_snapshot_def)
  have uid: "pd_uid ?m = js ''m''" "pd_uid ?b = js ''b''" by (simp_all add: demo_device_def)
  have "deviceHasSystemLive (ps_wires (demo_snapshot b)) (pd_uid ?m)"
    by (simp add: deviceHasSystemLive_def demo_snapshot_def live_wire_def demo_device_def js_str Let_def
        flip: js_append)
  from fed.from_system [OF dev(1) this] uid show m: "fed_uid (demo_snapshot b) (js ''m'')"
    by (simp add: fed_uid_def)
  have "on_comb (hd (ps_combs (demo_snapshot b))) ?b"
    using jadd_int [of 1 1] jsub_int [of 2 1]
    by (simp add: on_comb_def demo_snapshot_def demo_device_def rangesOverlap_def safe_int_def)
  from fed.through_comb [OF m [unfolded fed_uid_def] _ _ dev(2) this] uid
  show "fed_uid (demo_snapshot b) (js ''b'')"
    by (simp add: fed_uid_def demo_snapshot_def)
qed

theorem analysis_errors_iff_witness:
  "\<exists>r ds. compilePanelProject (demo_panel ''gone'') = Inr r \<and> analyzeCompiledPanel r = Inr ds \<and> has_error ds"
proof -
  obtain r c where c: "compilePanelProject (demo_panel ''gone'') = Inr r" "cr_compiled r = Some c"
    "cp_snapshot c = demo_snapshot ''gone''"
    using demo_panel_compiles by blast
  have "distinct (map ci_id (ps_circuits (cp_snapshot c)))" by (simp add: c(3) demo_snapshot_def)
  note a = analysis_errors_iff [OF c(1,2) this]
  have "\<not> fed_uid (demo_snapshot ''gone'') (js ''gone'')"
    using fed_uid_device by (fastforce simp: demo_snapshot_def demo_device_def)
  then have "list_ex (broken (cp_snapshot c)) (ps_circuits (cp_snapshot c))"
    by (simp add: c(3)) (simp add: demo_snapshot_def demo_circuit_def broken_def)
  with a c(1) show ?thesis by blast
qed

lemma clean_panel_iff_example:
  "\<exists>r. compilePanelProject (demo_panel ''b'') = Inr r \<and> analyzeCompiledPanel r = Inr []"
proof -
  obtain r c where c: "compilePanelProject (demo_panel ''b'') = Inr r" "cr_compiled r = Some c"
    "cp_snapshot c = demo_snapshot ''b''"
    using demo_panel_compiles by blast
  have 1: "distinct (map ci_id (ps_circuits (cp_snapshot c)))"
    "list_all (\<lambda>d. pd_uid d \<notin> set object_prototype_names) (ps_devices (cp_snapshot c))"
    by (simp_all add: c(3) demo_snapshot_def demo_device_def object_prototype_names_def)
  have wired: "well_wired (demo_snapshot ''b'') (demo_circuit ''b'' True)"
    "breaker_fine (demo_snapshot ''b'') (demo_device ''m'' 0 True)"
    "breaker_fine (demo_snapshot ''b'') (demo_device ''b'' 1 False)"
    using demo_fed [of "''b''"]
    by (simp_all add: well_wired_def demo_circuit_def breaker_fine_def demo_device_def demo_snapshot_def)
  have "analyzeCompiledPanel r = Inr []"
    unfolding clean_panel_iff [OF c(1,2) 1]
    unfolding c(3) using wired
    by (simp add: demo_snapshot_def) (simp add: demo_device_def demo_circuit_def)
  with c(1) show ?thesis by blast
qed

end
