(* ===== verification/DeviceControl.thy ===== *)
theory DeviceControl
  imports JsValue
begin

text \<open>
  Device control bindings, \<open>libs/domain-devices/src/lib/device-control.ts\<close>: parsing an untrusted binding,
  the private-LAN address check, and the control state of a device.  The URL parser of the platform
  (\<open>new URL\<close>) is a parameter; what the code relies on of it is the law \<open>origin_reparses\<close>.

  The lemmas show which bindings parsing accepts, that a parsed binding parses to itself, that an
  accepted address is a private IPv4 origin, and what a ready control state guarantees.
\<close>

subsection \<open>Regular expressions of the code\<close>

definition identity_char :: "nat \<Rightarrow> bool" where
  "identity_char c \<longleftrightarrow> alnum c \<or> c = 46 \<or> c = 95 \<or> c = 45"

definition credential_char :: "nat \<Rightarrow> bool" where
  "credential_char c \<longleftrightarrow> alnum c \<or> c = 95 \<or> c = 45"

text \<open>\<open>[+#\s\x00-\x1f]\<close>.\<close>

definition topic_forbidden :: "nat \<Rightarrow> bool" where
  "topic_forbidden c \<longleftrightarrow> c = 43 \<or> c = 35 \<or> js_space c \<or> c \<le> 31"

subsection \<open>Bindings\<close>

datatype control_binding =
    ShellySwitch bool jstr jnum
  | ShellyMqtt bool jstr jnum jstr
  | ShellyHttp bool jstr jnum jstr "jstr option"
  | ShellyVirtualLab bool jstr jnum
  | GenericMqtt bool jstr

fun binding_enabled :: "control_binding \<Rightarrow> bool" where
  "binding_enabled (ShellySwitch e _ _) = e"
| "binding_enabled (ShellyMqtt e _ _ _) = e"
| "binding_enabled (ShellyHttp e _ _ _ _) = e"
| "binding_enabled (ShellyVirtualLab e _ _) = e"
| "binding_enabled (GenericMqtt e _) = e"

text \<open>The physical identity and channel of a Shelly binding.\<close>

fun binding_target :: "control_binding \<Rightarrow> (jstr \<times> jnum) option" where
  "binding_target (ShellySwitch _ p c) = Some (p, c)"
| "binding_target (ShellyMqtt _ p c _) = Some (p, c)"
| "binding_target (ShellyHttp _ p c _ _) = Some (p, c)"
| "binding_target (ShellyVirtualLab _ p c) = Some (p, c)"
| "binding_target (GenericMqtt _ _) = None"

datatype control_status = Unapproved | ReadOnly | NeedsSetup | Disabled | Ready

record control_state =
  ct_status :: control_status
  ct_binding :: "control_binding option"
  ct_reason :: jstr

subsection \<open>Private addresses\<close>

text \<open>The fields the code reads of a parsed URL.\<close>

record url =
  url_protocol :: jstr
  url_username :: jstr
  url_password :: jstr
  url_hostname :: jstr
  url_pathname :: jstr
  url_search :: jstr
  url_hash :: jstr
  url_origin :: jstr

fun split_on :: "nat \<Rightarrow> jstr \<Rightarrow> jstr list" where
  "split_on sep [] = [[]]"
| "split_on sep (c # s) = (if c = sep then [] # split_on sep s
     else (case split_on sep s of p # ps \<Rightarrow> (c # p) # ps | [] \<Rightarrow> [[c]]))"

definition ip_part :: "jstr \<Rightarrow> bool" where
  "ip_part p \<longleftrightarrow> token is_digit 3 p \<and> digits_val p \<le> 255"

definition private_ip :: "jstr \<Rightarrow> bool" where
  "private_ip hostname =
     (let parts = split_on 46 hostname
      in length parts = 4 \<and> list_all ip_part parts
         \<and> (let a = digits_val (parts ! 0); b = digits_val (parts ! 1)
            in a = 10 \<or> (a = 192 \<and> b = 168) \<or> (a = 172 \<and> 16 \<le> b \<and> b \<le> 31)))"

definition private_url :: "url \<Rightarrow> bool" where
  "private_url u \<longleftrightarrow> private_ip (url_hostname u)
     \<and> (url_protocol u = js ''http:'' \<or> url_protocol u = js ''https:'')
     \<and> url_username u = [] \<and> url_password u = [] \<and> url_search u = [] \<and> url_hash u = []
     \<and> url_pathname u = js ''/''"

definition privateShellyBaseUrl :: "(jstr \<Rightarrow> url option) \<Rightarrow> jval \<Rightarrow> jstr result" where
  "privateShellyBaseUrl parse_url v =
     (case string_of v of
        None \<Rightarrow> throw ''Specify a local Shelly address.''
      | Some s \<Rightarrow>
          if 250 < length s then throw ''Specify a local Shelly address.''
          else (case parse_url s of
             None \<Rightarrow> throw ''Specify a valid Shelly address.''
           | Some u \<Rightarrow> if \<not> private_url u
               then throw ''Use an HTTP(S) origin at a private LAN IPv4 address, without credentials or a path.''
               else Inr (url_origin u)))"

subsection \<open>Parsing a binding\<close>

definition exact_topic :: "jstr \<Rightarrow> bool" where
  "exact_topic s \<longleftrightarrow> s \<noteq> [] \<and> s = js_trim s \<and> length s \<le> 512 \<and> \<not> list_ex topic_forbidden s"

definition parse_topic :: "jval \<Rightarrow> jstr result" where
  "parse_topic v = (case string_of v of
      Some s \<Rightarrow> if exact_topic s then Inr s
        else throw ''Specify an exact MQTT command topic without wildcards.''
    | None \<Rightarrow> throw ''Specify an exact MQTT command topic without wildcards.'')"

definition parse_physical_id :: "jval \<Rightarrow> jstr result" where
  "parse_physical_id v = (case string_of v of
      Some s \<Rightarrow> if token identity_char 120 s then Inr s else throw ''A physical Shelly identity is required.''
    | None \<Rightarrow> throw ''A physical Shelly identity is required.'')"

definition valid_channel :: "jnum \<Rightarrow> bool" where
  "valid_channel x \<longleftrightarrow> is_integer x \<and> \<not> jless x (Fin 0) \<and> \<not> jless (Fin 31) x"

definition parse_channel :: "jval \<Rightarrow> jnum result" where
  "parse_channel v = (case number_of v of
      Some x \<Rightarrow> if valid_channel x then Inr x else throw ''Specify a relay channel between 0 and 31.''
    | None \<Rightarrow> throw ''Specify a relay channel between 0 and 31.'')"

definition parse_credential :: "jval \<Rightarrow> jstr option result" where
  "parse_credential v = (if v = Undefined then Inr None else case string_of v of
      Some s \<Rightarrow> if token credential_char 80 s then Inr (Some s)
        else throw ''Invalid server credential reference.''
    | None \<Rightarrow> throw ''Invalid server credential reference.'')"

definition shelly_kinds :: "jval list" where
  "shelly_kinds = map (\<lambda>k. JStr (js k)) [''shelly-switch'', ''shelly-mqtt'', ''shelly-http'', ''shelly-virtual-lab'']"

definition parse_shelly :: "(jstr \<Rightarrow> url option) \<Rightarrow> jval \<Rightarrow> jval jobj \<Rightarrow> bool \<Rightarrow> control_binding result" where
  "parse_shelly parse_url kind raw enabled =
     and_then (parse_physical_id (own raw (js ''physicalId''))) (\<lambda>physicalId.
     and_then (parse_channel (own raw (js ''channel''))) (\<lambda>channel.
       if kind = JStr (js ''shelly-switch'') then Inr (ShellySwitch enabled physicalId channel)
       else if kind = JStr (js ''shelly-mqtt'') then
         and_then (parse_topic (own raw (js ''topic''))) (\<lambda>commandTopic.
         and_then (requires (ends_with commandTopic (js ''/rpc'')) ''Shelly MQTT command topics must end in /rpc.'') (\<lambda>_.
           Inr (ShellyMqtt enabled physicalId channel commandTopic)))
       else if kind = JStr (js ''shelly-virtual-lab'') then
         and_then (requires (channel = Fin 0) ''Virtual Lab control is limited to switch:0.'') (\<lambda>_.
           Inr (ShellyVirtualLab enabled physicalId channel))
       else
         and_then (privateShellyBaseUrl parse_url (own raw (js ''baseUrl''))) (\<lambda>baseUrl.
         and_then (parse_credential (own raw (js ''credentialRef''))) (\<lambda>credentialRef.
           Inr (ShellyHttp enabled physicalId channel baseUrl credentialRef)))))"

definition parseDeviceControlBinding :: "(jstr \<Rightarrow> url option) \<Rightarrow> jval \<Rightarrow> control_binding option result" where
  "parseDeviceControlBinding parse_url v =
     (if nullish v then Inr None
      else case plain_object v of
        None \<Rightarrow> throw ''Invalid control binding.''
      | Some raw \<Rightarrow>
          (case bool_of (own raw (js ''enabled'')) of
             None \<Rightarrow> throw ''Control permission must be explicit.''
           | Some enabled \<Rightarrow>
               (let kind = own raw (js ''kind'') in
                if kind = JStr (js ''generic-mqtt'') then
                  and_then (parse_topic (own raw (js ''topic''))) (\<lambda>topic. Inr (Some (GenericMqtt enabled topic)))
                else if kind \<notin> set shelly_kinds then throw ''Unsupported control transport.''
                else and_then (parse_shelly parse_url kind raw enabled) (\<lambda>b. Inr (Some b)))))"

subsection \<open>The control state of a device\<close>

record control_device =
  cd_trustStatus :: jstr
  cd_capabilities :: "jstr list list"
  cd_driver :: jstr
  cd_target :: "jstr option"
  cd_metadata :: "jval jobj option"

definition metadata_value :: "control_device \<Rightarrow> string \<Rightarrow> jval" where
  "metadata_value d k = (case cd_metadata d of Some m \<Rightarrow> own m (js k) | None \<Rightarrow> Undefined)"

definition can_switch :: "control_device \<Rightarrow> bool" where
  "can_switch d \<longleftrightarrow> list_ex (\<lambda>actions. js ''turn_on'' \<in> set actions \<and> js ''turn_off'' \<in> set actions) (cd_capabilities d)"

text \<open>\<open>device.metadata?.['physicalId'] || device.adapter.target\<close>.\<close>

definition device_physical_id :: "control_device \<Rightarrow> jval" where
  "device_physical_id d = (if truthy (metadata_value d ''physicalId'') then metadata_value d ''physicalId''
     else case cd_target d of Some t \<Rightarrow> JStr t | None \<Rightarrow> Undefined)"

definition same_relay :: "control_device \<Rightarrow> jstr \<Rightarrow> jnum \<Rightarrow> bool" where
  "same_relay d physicalId channel \<longleftrightarrow>
     same_primitive (device_physical_id d) (JStr physicalId)
     \<and> same_primitive (metadata_value d ''channel'') (JNum channel)
     \<and> (metadata_value d ''component'' = Undefined
         \<or> metadata_value d ''component'' = JStr (js ''switch:'' @ num_str channel))"

definition deviceControlState :: "control_device \<Rightarrow> control_binding option \<Rightarrow> control_state" where
  "deviceControlState device binding =
     (let answer = (\<lambda>status reason. \<lparr>ct_status = status, ct_binding = binding, ct_reason = js reason\<rparr>);
          shelly = includes_str (cd_driver device) (js ''shelly'')
      in if cd_trustStatus device \<noteq> js ''approved'' then answer Unapproved ''Device is not approved.''
         else if \<not> can_switch device then answer ReadOnly ''No relay switching capability.''
         else case binding of
           None \<Rightarrow> answer NeedsSetup ''No explicit switch permission.''
         | Some b \<Rightarrow>
             (case binding_target b of
                None \<Rightarrow> if shelly then answer NeedsSetup ''Shelly devices require a Shelly control binding.''
                  else if binding_enabled b then answer Ready ''Explicit component switching permission is enabled.''
                  else answer Disabled ''Switching is disabled.''
              | Some (physicalId, channel) \<Rightarrow>
                  if \<not> shelly \<or> \<not> same_relay device physicalId channel
                  then answer NeedsSetup ''Control identity/channel does not match the approved relay.''
                  else if binding_enabled b then answer Ready ''Explicit component switching permission is enabled.''
                  else answer Disabled ''Switching is disabled.''))"
subsection \<open>What parsing accepts\<close>

text \<open>
  The documented law of the URL standard the code relies on: the origin of an HTTP(S) URL is its
  scheme, host and port, and parses to the same scheme and host with nothing else.
\<close>

definition origin_reparses :: "(jstr \<Rightarrow> url option) \<Rightarrow> bool" where
  "origin_reparses parse_url \<longleftrightarrow> (\<forall>s u. parse_url s = Some u
     \<longrightarrow> url_protocol u = js ''http:'' \<or> url_protocol u = js ''https:''
     \<longrightarrow> parse_url (url_origin u) = Some (u\<lparr>url_username := [], url_password := [], url_pathname := js ''/'',
           url_search := [], url_hash := []\<rparr>)
         \<and> length (url_origin u) \<le> length (url_protocol u) + 2 + length (url_hostname u) + 6)"

fun binding_ok :: "(jstr \<Rightarrow> url option) \<Rightarrow> control_binding \<Rightarrow> bool" where
  "binding_ok _ (ShellySwitch _ p c) = (token identity_char 120 p \<and> valid_channel c)"
| "binding_ok _ (ShellyMqtt _ p c t) = (token identity_char 120 p \<and> valid_channel c \<and> exact_topic t \<and> ends_with t (js ''/rpc''))"
| "binding_ok parse_url (ShellyHttp _ p c b cr) = (token identity_char 120 p \<and> valid_channel c
     \<and> privateShellyBaseUrl parse_url (JStr b) = Inr b \<and> pred_option (token credential_char 80) cr)"
| "binding_ok _ (ShellyVirtualLab _ p c) = (token identity_char 120 p \<and> c = Fin 0)"
| "binding_ok _ (GenericMqtt _ t) = exact_topic t"

text \<open>The binding as the value it is stored as.\<close>

fun binding_value :: "control_binding \<Rightarrow> jval" where
  "binding_value (ShellySwitch e p c) = JObj [(js ''kind'', JStr (js ''shelly-switch'')), (js ''enabled'', JBool e),
     (js ''physicalId'', JStr p), (js ''channel'', JNum c)]"
| "binding_value (ShellyMqtt e p c t) = JObj [(js ''kind'', JStr (js ''shelly-mqtt'')), (js ''enabled'', JBool e),
     (js ''physicalId'', JStr p), (js ''channel'', JNum c), (js ''topic'', JStr t)]"
| "binding_value (ShellyHttp e p c b cr) = JObj ([(js ''kind'', JStr (js ''shelly-http'')), (js ''enabled'', JBool e),
     (js ''physicalId'', JStr p), (js ''channel'', JNum c), (js ''baseUrl'', JStr b)]
     @ (case cr of None \<Rightarrow> [] | Some r \<Rightarrow> [(js ''credentialRef'', JStr r)]))"
| "binding_value (ShellyVirtualLab e p c) = JObj [(js ''kind'', JStr (js ''shelly-virtual-lab'')), (js ''enabled'', JBool e),
     (js ''physicalId'', JStr p), (js ''channel'', JNum c)]"
| "binding_value (GenericMqtt e t) = JObj [(js ''kind'', JStr (js ''generic-mqtt'')), (js ''enabled'', JBool e),
     (js ''topic'', JStr t)]"

lemma parse_parts [simp]:
  "parse_topic v = Inr t \<longleftrightarrow> v = JStr t \<and> exact_topic t"
  "parse_physical_id v = Inr p \<longleftrightarrow> v = JStr p \<and> token identity_char 120 p"
  "parse_channel v = Inr c \<longleftrightarrow> v = JNum c \<and> valid_channel c"
  "parse_credential v = Inr cr \<longleftrightarrow> (case cr of None \<Rightarrow> v = Undefined | Some r \<Rightarrow> v = JStr r \<and> token credential_char 80 r)"
  by (cases v; auto simp: parse_topic_def parse_physical_id_def parse_channel_def parse_credential_def split: option.split)+

lemma parse_binding_value:
  "binding_ok parse_url b \<Longrightarrow> parseDeviceControlBinding parse_url (binding_value b) = Inr (Some b)"
proof (cases b)
  case (ShellyHttp e p c u cr)
  moreover assume "binding_ok parse_url b"
  ultimately show ?thesis
    by (cases cr) (auto simp: parseDeviceControlBinding_def nullish_def own_simps Let_def shelly_kinds_def parse_shelly_def
        and_then_Inr_iff)
qed (auto simp: parseDeviceControlBinding_def nullish_def own_simps Let_def shelly_kinds_def parse_shelly_def
    and_then_Inr_iff valid_channel_def is_integer_def)

lemma length_split_on: "length s + 1 = sum_list (map length (split_on sep s)) + length (split_on sep s)"
  by (induction s) (auto split: list.splits)

lemma ip_parts_length: "list_all ip_part ps \<Longrightarrow> sum_list (map length ps) \<le> 3 * length ps"
  by (induction ps) (auto simp: ip_part_def token_def)

lemma private_ip_length:
  assumes "private_ip h"
  shows "length h \<le> 15"
proof -
  from assms have 4: "length (split_on 46 h) = 4" and parts: "list_all ip_part (split_on 46 h)"
    by (auto simp: private_ip_def Let_def)
  from ip_parts_length [OF parts] have "sum_list (map length (split_on 46 h)) \<le> 3 * length (split_on 46 h)" .
  with 4 length_split_on [of h 46] show ?thesis by simp
qed

lemma private_url_origin:
  assumes law: "origin_reparses parse_url" and u: "parse_url s = Some u" "private_url u"
  shows "privateShellyBaseUrl parse_url (JStr (url_origin u)) = Inr (url_origin u)"
proof -
  have proto: "url_protocol u = js ''http:'' \<or> url_protocol u = js ''https:''"
    and ip: "private_ip (url_hostname u)"
    using u(2) by (auto simp: private_url_def)
  from law u(1) proto have
    p: "parse_url (url_origin u) = Some (u\<lparr>url_username := [], url_password := [], url_pathname := js ''/'',
      url_search := [], url_hash := []\<rparr>)"
    and len: "length (url_origin u) \<le> length (url_protocol u) + 2 + length (url_hostname u) + 6"
    unfolding origin_reparses_def by blast+
  have "length (url_protocol u) \<le> 6" using proto by (auto simp: js_def)
  with len private_ip_length [OF ip] have "length (url_origin u) \<le> 250" by simp
  then show ?thesis using p proto ip by (simp add: privateShellyBaseUrl_def private_url_def)
qed

lemma privateShellyBaseUrl_Inr:
  "privateShellyBaseUrl parse_url v = Inr b
     \<longleftrightarrow> (\<exists>s u. v = JStr s \<and> length s \<le> 250 \<and> parse_url s = Some u \<and> private_url u \<and> b = url_origin u)"
  by (cases v) (auto simp: privateShellyBaseUrl_def split: option.split)

text \<open>Where the parts of a parsed binding come from.\<close>

fun parsed_from :: "(jstr \<Rightarrow> url option) \<Rightarrow> jval \<Rightarrow> control_binding \<Rightarrow> bool" where
  "parsed_from _ kind (ShellySwitch e p c) \<longleftrightarrow> kind = JStr (js ''shelly-switch'')"
| "parsed_from _ kind (ShellyMqtt e p c t) \<longleftrightarrow> kind = JStr (js ''shelly-mqtt'')
     \<and> exact_topic t \<and> ends_with t (js ''/rpc'')"
| "parsed_from parse_url kind (ShellyHttp e p c b cr) \<longleftrightarrow> kind = JStr (js ''shelly-http'')
     \<and> (\<exists>s u. parse_url s = Some u \<and> private_url u \<and> b = url_origin u)
     \<and> pred_option (token credential_char 80) cr"
| "parsed_from _ kind (ShellyVirtualLab e p c) \<longleftrightarrow> kind = JStr (js ''shelly-virtual-lab'') \<and> c = Fin 0"
| "parsed_from _ kind (GenericMqtt e t) \<longleftrightarrow> kind = JStr (js ''generic-mqtt'') \<and> exact_topic t"

definition names_relay :: "jval jobj \<Rightarrow> control_binding \<Rightarrow> bool" where
  "names_relay raw b \<longleftrightarrow> (case binding_target b of None \<Rightarrow> True
     | Some (p, c) \<Rightarrow> own raw (js ''physicalId'') = JStr p \<and> token identity_char 120 p
         \<and> own raw (js ''channel'') = JNum c \<and> valid_channel c)"

lemma parse_shelly_from:
  assumes "parse_shelly parse_url kind raw e = Inr b" "kind \<in> set shelly_kinds"
  shows "binding_enabled b = e \<and> parsed_from parse_url kind b \<and> names_relay raw b"
proof -
  from assms(1) obtain p c where parts: "parse_physical_id (own raw (js ''physicalId'')) = Inr p"
    "parse_channel (own raw (js ''channel'')) = Inr c"
    unfolding parse_shelly_def and_then_Inr_iff by blast
  then have names: "binding_target b = Some (p, c) \<Longrightarrow> names_relay raw b" by (simp add: names_relay_def)
  note parsed = assms(1) [unfolded parse_shelly_def parts and_then_simps]
  from assms(2) consider "kind = JStr (js ''shelly-switch'')" | "kind = JStr (js ''shelly-mqtt'')"
    | "kind = JStr (js ''shelly-http'')" | "kind = JStr (js ''shelly-virtual-lab'')"
    by (auto simp: shelly_kinds_def)
  then show ?thesis
  proof cases
    case 1
    with parsed names show ?thesis by auto
  next
    case 2
    with parsed obtain t where "parse_topic (own raw (js ''topic'')) = Inr t" "ends_with t (js ''/rpc'')"
      "b = ShellyMqtt e p c t" by (auto simp: and_then_Inr_iff)
    with 2 names show ?thesis by simp
  next
    case 3
    with parsed obtain u cr where "privateShellyBaseUrl parse_url (own raw (js ''baseUrl'')) = Inr u"
      "parse_credential (own raw (js ''credentialRef'')) = Inr cr" "b = ShellyHttp e p c u cr"
      by (auto simp: and_then_Inr_iff simp del: parse_parts)
    with 3 names show ?thesis by (auto simp: privateShellyBaseUrl_Inr split: option.splits)
  next
    case 4
    with parsed names show ?thesis by (auto simp: and_then_Inr_iff)
  qed
qed

lemma parse_Some:
  assumes "parseDeviceControlBinding parse_url v = Inr (Some b)"
  obtains raw where "v = JObj raw" "own raw (js ''enabled'') = JBool (binding_enabled b)"
    "parsed_from parse_url (own raw (js ''kind'')) b" "names_relay raw b"
proof -
  from assms obtain raw where raw: "v = JObj raw"
    by (cases v) (auto simp: parseDeviceControlBinding_def nullish_def)
  from assms raw obtain e where e: "own raw (js ''enabled'') = JBool e"
    by (cases "bool_of (own raw (js ''enabled''))") (auto simp: parseDeviceControlBinding_def nullish_def)
  show ?thesis
  proof (cases "own raw (js ''kind'') = JStr (js ''generic-mqtt'')")
    case True
    with assms raw e have "\<exists>t. b = GenericMqtt e t \<and> exact_topic t"
      by (auto simp: parseDeviceControlBinding_def nullish_def and_then_Inr_iff)
    with raw e True show ?thesis by (auto simp: names_relay_def intro: that)
  next
    case False
    with assms raw e have "own raw (js ''kind'') \<in> set shelly_kinds"
      "parse_shelly parse_url (own raw (js ''kind'')) raw e = Inr b"
      by (auto simp: parseDeviceControlBinding_def nullish_def Let_def and_then_Inr_iff split: if_splits)
    with parse_shelly_from [OF this(2) this(1)] raw e show ?thesis by (intro that) auto
  qed
qed

lemma parse_binding_ok:
  assumes law: "origin_reparses parse_url" and p: "parseDeviceControlBinding parse_url v = Inr (Some b)"
  shows "binding_ok parse_url b"
proof -
  from p obtain raw where "parsed_from parse_url (own raw (js ''kind'')) b" "names_relay raw b" by (rule parse_Some)
  then show ?thesis using private_url_origin [OF law] by (cases b) (auto simp: names_relay_def)
qed

text \<open>A parsed binding, stored and parsed again, is the same binding (when the platform's URL parser
  reparses origins).\<close>

lemma parsed_binding_parses_to_itself:
  assumes "origin_reparses parse_url" "parseDeviceControlBinding parse_url v = Inr (Some b)"
  shows "parseDeviceControlBinding parse_url (binding_value b) = Inr (Some b)"
  using assms by (intro parse_binding_value parse_binding_ok)
subsection \<open>What a ready state guarantees\<close>

text \<open>C20. When the state of a device under a binding parsed from a stored value is ready, the device is
  approved and can switch on and off, the stored value says enabled, and either the value is a generic
  one for a device that is no Shelly, or it names the device's own hardware and channel, an integer
  from 0 to 31 (0 in the virtual laboratory).\<close>

theorem ready_control_is_authorised:
  assumes "parseDeviceControlBinding parse_url v = Inr b" "ct_status (deviceControlState d b) = Ready"
  shows "cd_trustStatus d = js ''approved'' \<and> can_switch d
    \<and> (\<exists>raw. v = JObj raw \<and> own raw (js ''enabled'') = JBool True
        \<and> (if own raw (js ''kind'') = JStr (js ''generic-mqtt'') then \<not> includes_str (cd_driver d) (js ''shelly'')
           else includes_str (cd_driver d) (js ''shelly'')
             \<and> same_primitive (device_physical_id d) (own raw (js ''physicalId''))
             \<and> same_primitive (metadata_value d ''channel'') (own raw (js ''channel''))
             \<and> (\<exists>n. own raw (js ''channel'') = JNum (Fin (of_int n)) \<and> 0 \<le> n \<and> n \<le> 31
                 \<and> (n = 0 \<or> own raw (js ''kind'') \<noteq> JStr (js ''shelly-virtual-lab'')))))"
proof -
  have channel: "\<exists>n. c = Fin (of_int n) \<and> 0 \<le> n \<and> n \<le> 31" if "valid_channel c" for c
  proof (cases c)
    case (Fin q)
    with that have q: "of_int \<lfloor>q\<rfloor> = q" "0 \<le> q" "q \<le> 31"
      by (auto simp: valid_channel_def is_integer_def)
    then have "0 \<le> \<lfloor>q\<rfloor>" "\<lfloor>q\<rfloor> \<le> 31" by (simp_all add: floor_le_iff)
    with Fin q(1) show ?thesis by metis
  qed (use that in \<open>auto simp: valid_channel_def is_integer_def\<close>)
  from assms obtain k where k: "b = Some k"
    by (cases b) (auto simp: deviceControlState_def Let_def split: if_splits)
  have ready: "cd_trustStatus d = js ''approved''" "can_switch d" "binding_enabled k"
    "case binding_target k of None \<Rightarrow> \<not> includes_str (cd_driver d) (js ''shelly'')
      | Some (p, c) \<Rightarrow> includes_str (cd_driver d) (js ''shelly'') \<and> same_relay d p c"
    using assms(2) k by (auto simp: deviceControlState_def Let_def split: if_splits option.splits)
  from assms(1) k obtain raw where raw: "v = JObj raw" "own raw (js ''enabled'') = JBool (binding_enabled k)"
    "parsed_from parse_url (own raw (js ''kind'')) k" "names_relay raw k"
    using parse_Some by blast
  have generic: "own raw (js ''kind'') = JStr (js ''generic-mqtt'') \<longleftrightarrow> binding_target k = None"
    using raw(3) by (cases k) auto
  have lab: "own raw (js ''kind'') = JStr (js ''shelly-virtual-lab'') \<Longrightarrow> binding_target k = Some (p, c) \<Longrightarrow> c = Fin 0" for p c
    using raw(3) by (cases k) auto
  show ?thesis
  proof (cases "binding_target k")
    case None
    with ready generic raw(1,2) show ?thesis by auto
  next
    case (Some pc)
    obtain p c where pc: "pc = (p, c)" by fastforce
    with Some raw(4) have t: "own raw (js ''physicalId'') = JStr p" "own raw (js ''channel'') = JNum c" "valid_channel c"
      by (simp_all add: names_relay_def)
    from channel [OF t(3)] obtain n where n: "c = Fin (of_int n)" "0 \<le> n" "n \<le> 31" by blast
    have "n = 0 \<or> own raw (js ''kind'') \<noteq> JStr (js ''shelly-virtual-lab'')" using lab Some pc n(1) by auto
    with ready generic raw(1,2) Some pc t n show ?thesis
      by (auto simp: same_relay_def intro!: exI [of _ n])
  qed
qed
subsection \<open>A stored HTTP binding\<close>

definition demo_url :: url where
  "demo_url = \<lparr>url_protocol = js ''http:'', url_username = [], url_password = [], url_hostname = js ''10.0.0.5'',
     url_pathname = js ''/'', url_search = [], url_hash = [], url_origin = js ''http://10.0.0.5''\<rparr>"

text \<open>A URL parser that knows one address, with and without its path.\<close>

definition demo_parse_url :: "jstr \<Rightarrow> url option" where
  "demo_parse_url s = (if s = js ''http://10.0.0.5/'' \<or> s = js ''http://10.0.0.5'' then Some demo_url else None)"

definition demo_http_binding :: control_binding where
  "demo_http_binding = ShellyHttp True (js ''shelly1'') (Fin 3) (js ''http://10.0.0.5'') (Some (js ''lan''))"

definition demo_control_device :: control_device where
  "demo_control_device = \<lparr>cd_trustStatus = js ''approved'', cd_capabilities = [[js ''turn_on'', js ''turn_off'']],
     cd_driver = js ''shelly-gen2'', cd_target = Some (js ''shelly1''),
     cd_metadata = Some [(js ''channel'', JNum (Fin 3)), (js ''component'', JStr (js ''switch:3''))]\<rparr>"

lemma demo_private: "private_url demo_url"
proof -
  have "private_ip (js ''10.0.0.5'')" by code_simp
  then show ?thesis by (simp add: private_url_def demo_url_def)
qed

lemma demo_origin: "origin_reparses demo_parse_url"
  by (auto simp: origin_reparses_def demo_parse_url_def demo_url_def js_def)

lemma demo_binding_parses:
  "parseDeviceControlBinding demo_parse_url (binding_value demo_http_binding) = Inr (Some demo_http_binding)"
proof (rule parse_binding_value)
  have "token identity_char 120 (js ''shelly1'')" "token credential_char 80 (js ''lan'')" by code_simp+
  moreover have "privateShellyBaseUrl demo_parse_url (JStr (js ''http://10.0.0.5'')) = Inr (js ''http://10.0.0.5'')"
    using demo_private by (simp add: privateShellyBaseUrl_def demo_parse_url_def) (simp add: demo_url_def js_def)
  moreover have "valid_channel (Fin 3)" by (simp add: valid_channel_def is_integer_def)
  ultimately show "binding_ok demo_parse_url demo_http_binding" by (simp add: demo_http_binding_def)
qed

lemma parsed_binding_parses_to_itself_example:
  "parseDeviceControlBinding demo_parse_url (binding_value demo_http_binding) = Inr (Some demo_http_binding)"
  using parsed_binding_parses_to_itself [OF demo_origin demo_binding_parses] .

lemma demo_ready: "ct_status (deviceControlState demo_control_device (Some demo_http_binding)) = Ready"
proof -
  have "includes_str (js ''shelly-gen2'') (js ''shelly'')" by code_simp
  moreover have "js ''switch:'' @ num_str (Fin 3) = js ''switch:3''" by code_simp
  ultimately show ?thesis
    by (simp add: deviceControlState_def Let_def can_switch_def demo_control_device_def demo_http_binding_def
        same_relay_def device_physical_id_def metadata_value_def own_simps)
qed

theorem ready_control_is_authorised_witness:
  "cd_trustStatus demo_control_device = js ''approved'' \<and> can_switch demo_control_device
    \<and> includes_str (cd_driver demo_control_device) (js ''shelly'')"
  using ready_control_is_authorised [OF demo_binding_parses demo_ready]
  by (auto simp: demo_http_binding_def own_simps)

end
