(* ===== verification/JsSort.thy ===== *)
theory JsSort
  imports JsPrelude "HOL-Library.Multiset"
begin

text \<open>
  Sorting with a comparator as a permutation, shared by the components that sort records by a key:
  the sorted list holds the same elements, and sorting commutes with reading a field.
\<close>

lemma mset_sort_insert: "mset (sort_insert gt x ys) = add_mset x (mset ys)"
  by (induction ys) auto

lemma mset_js_sort [simp]: "mset (js_sort gt xs) = mset xs"
  by (induction xs) (simp_all add: js_sort_simps mset_sort_insert)

lemma sort_insert_map: "sort_insert gt (f x) (map f ys) = map f (sort_insert (\<lambda>a b. gt (f a) (f b)) x ys)"
  by (induction ys) auto

lemma js_sort_map: "js_sort gt (map f xs) = map f (js_sort (\<lambda>a b. gt (f a) (f b)) xs)"
  by (induction xs) (simp_all add: js_sort_simps sort_insert_map)

end
