(* ===== verification/ElectricalReading.thy ===== *)
theory ElectricalReading
  imports JsValue JsSort
begin

text \<open>
  Electrical readings, \<open>libs/domain-telemetry/src/lib/electrical-reading.ts\<close>: validation of an untrusted
  reading and the summary of one stream of readings over a UTC hour.  The host's \<open>Date.parse\<close> outside
  the standard formats is a parameter.

  The lemmas show that a validated reading validates to itself, what validation guarantees, and that
  the summary counts, bounds and integrates as its contract says whatever the order of the readings.
\<close>

subsection \<open>Validation\<close>

datatype quality = Measured | Invalid
datatype timestamp_basis = DeviceObserved | CollectorReceived

text \<open>The metric is the value that was tested through \<open>String(...)\<close>, not necessarily a string.\<close>

record electrical_reading =
  er_tenantId :: jstr
  er_siteId :: jstr
  er_deviceId :: jstr
  er_channel :: jstr
  er_metric :: jval
  er_value :: "jnum option"
  er_unit :: jstr
  er_quality :: quality
  er_observedAt :: jstr
  er_receivedAt :: jstr
  er_timestampBasis :: timestamp_basis
  er_source :: jstr

definition utcInstant :: "(jstr \<Rightarrow> int option) \<Rightarrow> jval \<Rightarrow> jstr result" where
  "utcInstant host v = utc_instant host (Error (js ''Expected a UTC ISO timestamp'')) v"

definition identifier_char :: "nat \<Rightarrow> bool" where
  "identifier_char c \<longleftrightarrow> alnum c \<or> c = 95 \<or> c = 46 \<or> c = 58 \<or> c = 45"

definition readingIdentifier :: "jval \<Rightarrow> jstr result" where
  "readingIdentifier v = (case string_of v of
      Some s \<Rightarrow> if token identifier_char 120 s then Inr s else throw ''Invalid reading identifier''
    | None \<Rightarrow> throw ''Invalid reading identifier'')"

definition metric_names :: "jstr list" where
  "metric_names = map js [''power'', ''energy_import_total'', ''energy_export_total'']"

definition is_power :: "jval \<Rightarrow> bool" where
  "is_power metric \<longleftrightarrow> metric = JStr (js ''power'')"

definition valid_value :: "jval \<Rightarrow> jval \<Rightarrow> jval \<Rightarrow> bool" where
  "valid_value metric quality v \<longleftrightarrow>
     quality = JStr (js ''invalid'') \<and> v = Null
     \<or> quality = JStr (js ''measured'')
       \<and> (case finite_number v of Some x \<Rightarrow> is_power metric \<or> jle (Fin 0) x | None \<Rightarrow> False)"

definition basis_of :: "jval \<Rightarrow> timestamp_basis option" where
  "basis_of v = (if v = JStr (js ''device-observed'') then Some DeviceObserved
     else if v = JStr (js ''collector-received'') then Some CollectorReceived else None)"

text \<open>\<open>Date.parse(observedAt) > Date.parse(receivedAt) + 300_000\<close>.\<close>

definition too_far_ahead :: "(jstr \<Rightarrow> int option) \<Rightarrow> jstr \<Rightarrow> jstr \<Rightarrow> bool" where
  "too_far_ahead host observedAt receivedAt =
     jless (jadd (time_num (date_parse host receivedAt)) (Fin 300000)) (time_num (date_parse host observedAt))"

definition validateElectricalReading :: "(jstr \<Rightarrow> int option) \<Rightarrow> jval \<Rightarrow> electrical_reading result" where
  "validateElectricalReading host input =
     (case plain_object input of
        None \<Rightarrow> throw ''Expected an electrical reading''
      | Some ob \<Rightarrow>
          (let r = (\<lambda>k. own ob (js k)); metric = r ''metric'' in
           and_then (requires (same_primitive (r ''schemaVersion'') (JNum (Fin 1))) ''Unsupported reading schema version'') (\<lambda>_.
           and_then (to_string metric) (\<lambda>name.
           and_then (requires (name \<in> set metric_names) ''Unsupported electrical metric'') (\<lambda>_.
           and_then (requires (r ''unit'' = JStr (if is_power metric then js ''W'' else js ''kWh''))
             ''Metric and canonical unit do not match'') (\<lambda>_.
           and_then (requires (valid_value metric (r ''quality'') (r ''value'')) ''Invalid reading value or quality'') (\<lambda>_.
           and_then (case basis_of (r ''timestampBasis'') of Some b \<Rightarrow> Inr b | None \<Rightarrow> throw ''Invalid timestamp basis'') (\<lambda>basis.
           and_then (utcInstant host (r ''observedAt'')) (\<lambda>observedAt.
           and_then (utcInstant host (r ''receivedAt'')) (\<lambda>receivedAt.
           and_then (requires (\<not> too_far_ahead host observedAt receivedAt) ''Reading timestamp is too far in the future'') (\<lambda>_.
           and_then (readingIdentifier (r ''tenantId'')) (\<lambda>tenantId.
           and_then (readingIdentifier (r ''siteId'')) (\<lambda>siteId.
           and_then (readingIdentifier (r ''deviceId'')) (\<lambda>deviceId.
           and_then (readingIdentifier (r ''channel'')) (\<lambda>channel.
           and_then (readingIdentifier (r ''source'')) (\<lambda>source.
             Inr \<lparr>er_tenantId = tenantId, er_siteId = siteId, er_deviceId = deviceId, er_channel = channel,
               er_metric = metric, er_value = number_of (r ''value''),
               er_unit = (if is_power metric then js ''W'' else js ''kWh''),
               er_quality = (if r ''quality'' = JStr (js ''invalid'') then Invalid else Measured),
               er_observedAt = observedAt, er_receivedAt = receivedAt, er_timestampBasis = basis,
               er_source = source\<rparr>))))))))))))))))"

subsection \<open>The hourly summary\<close>

record electrical_hour =
  eh_hour :: jstr
  eh_sampleCount :: nat
  eh_invalidCount :: nat
  eh_minimum :: "jnum option"
  eh_maximum :: "jnum option"
  eh_sampleMean :: "jnum option"
  eh_firstValue :: "jnum option"
  eh_lastValue :: "jnum option"
  eh_firstObservedAt :: "jstr option"
  eh_lastObservedAt :: "jstr option"
  eh_sources :: "jstr list"
  eh_timestampBases :: "timestamp_basis list"
  eh_counterResets :: nat
  eh_estimatedImportKwh :: "jnum option"
  eh_estimatedExportKwh :: "jnum option"
  eh_coveredSeconds :: jnum

definition observed_num :: "(jstr \<Rightarrow> int option) \<Rightarrow> electrical_reading \<Rightarrow> jnum" where
  "observed_num host r = time_num (date_parse host (er_observedAt r))"

definition sort_readings :: "(jstr \<Rightarrow> int option) \<Rightarrow> electrical_reading list \<Rightarrow> electrical_reading list" where
  "sort_readings host = js_sort (\<lambda>a b. jless (Fin 0) (jsub (observed_num host a) (observed_num host b)))"

text \<open>The stream of a reading; joining converts the metric to a string.\<close>

definition stream_key :: "electrical_reading \<Rightarrow> jstr result" where
  "stream_key r = and_then (item_strings [er_metric r]) (\<lambda>m.
     Inr (js_join (js ''/'') ([er_tenantId r, er_siteId r, er_deviceId r, er_channel r] @ m)))"

text \<open>\<open>sorted.some((r) => key(r) !== key(sorted[0]))\<close>.\<close>

fun mixed_streams :: "electrical_reading \<Rightarrow> electrical_reading list \<Rightarrow> bool result" where
  "mixed_streams first [] = Inr False"
| "mixed_streams first (r # rs) = and_then (stream_key r) (\<lambda>k. and_then (stream_key first) (\<lambda>k0.
     if k \<noteq> k0 then Inr True else mixed_streams first rs))"

definition in_hour :: "(jstr \<Rightarrow> int option) \<Rightarrow> jnum \<Rightarrow> jnum \<Rightarrow> electrical_reading \<Rightarrow> bool" where
  "in_hour host from to r \<longleftrightarrow> jle from (observed_num host r) \<and> jless (observed_num host r) to"

definition measured_value :: "electrical_reading \<Rightarrow> jnum option" where
  "measured_value r = (if er_quality r = Measured then er_value r else None)"

fun reduce1 :: "('a \<Rightarrow> 'a \<Rightarrow> 'a) \<Rightarrow> 'a list \<Rightarrow> 'a option" where
  "reduce1 f [] = None"
| "reduce1 f (x # xs) = Some (foldl f x xs)"

definition first_of :: "'a list \<Rightarrow> 'a option" where
  "first_of xs = (case xs of [] \<Rightarrow> None | x # _ \<Rightarrow> Some x)"

definition last_of :: "'a list \<Rightarrow> 'a option" where
  "last_of xs = (if xs = [] then None else Some (last xs))"

fun basis_str :: "timestamp_basis \<Rightarrow> jstr" where
  "basis_str DeviceObserved = js ''device-observed''"
| "basis_str CollectorReceived = js ''collector-received''"

text \<open>What the loop over neighbouring readings accumulates.\<close>

record integration =
  ig_resets :: nat
  ig_covered :: jnum
  ig_import :: jnum
  ig_export :: jnum

definition integrate_pair :: "(jstr \<Rightarrow> int option) \<Rightarrow> jnum \<Rightarrow> jnum \<Rightarrow> electrical_reading \<times> electrical_reading
    \<Rightarrow> integration \<Rightarrow> integration" where
  "integrate_pair host from to ab g =
     (let (a, b) = ab in case (measured_value a, measured_value b) of
        (Some av, Some bv) \<Rightarrow>
          (let start = observed_num host a; stop = observed_num host b in
           if \<not> is_power (er_metric a) then
             (if jle from stop \<and> jless stop to \<and> jless bv av then g\<lparr>ig_resets := ig_resets g + 1\<rparr> else g)
           else if jle stop start \<or> jless (Fin 300000) (jsub stop start) then g
           else
             (let seconds = jdiv (jmax (Fin 0) (jsub (jmin to stop) (jmax from start))) (Fin 1000)
              in g\<lparr>ig_covered := jadd (ig_covered g) seconds,
                   ig_import := jadd (ig_import g) (jmul (jmax (Fin 0) av) seconds),
                   ig_export := jadd (ig_export g) (jmul (jmax (Fin 0) (jneg av)) seconds)\<rparr>))
      | _ \<Rightarrow> g)"

definition neighbours :: "'a list \<Rightarrow> ('a \<times> 'a) list" where
  "neighbours xs = zip xs (tl xs)"

definition integrate :: "(jstr \<Rightarrow> int option) \<Rightarrow> jnum \<Rightarrow> jnum \<Rightarrow> electrical_reading list \<Rightarrow> integration" where
  "integrate host from to ordered = fold (integrate_pair host from to) (neighbours ordered)
     \<lparr>ig_resets = 0, ig_covered = Fin 0, ig_import = Fin 0, ig_export = Fin 0\<rparr>"

definition hour_of :: "(jstr \<Rightarrow> int option) \<Rightarrow> int \<Rightarrow> electrical_reading list \<Rightarrow> electrical_hour" where
  "hour_of host start ordered =
     (let from = Fin (of_int start); to = jadd from (Fin 3600000);
          inside = filter (in_hour host from to) ordered;
          valid = filter (\<lambda>r. measured_value r \<noteq> None) inside;
          vals = List.map_filter measured_value inside;
          g = integrate host from to ordered;
          covered = jless (Fin 0) (ig_covered g)
      in \<lparr>eh_hour = iso_string start, eh_sampleCount = length inside,
          eh_invalidCount = length inside - length valid,
          eh_minimum = reduce1 jmin vals, eh_maximum = reduce1 jmax vals,
          eh_sampleMean = (if vals = [] then None
            else Some (jdiv (foldl jadd (Fin 0) vals) (Fin (of_nat (length vals))))),
          eh_firstValue = first_of vals, eh_lastValue = last_of vals,
          eh_firstObservedAt = map_option er_observedAt (first_of valid),
          eh_lastObservedAt = map_option er_observedAt (last_of valid),
          eh_sources = js_sort (\<lambda>a b. str_less b a) (set_of_list (map er_source ordered)),
          eh_timestampBases = js_sort (\<lambda>a b. str_less (basis_str b) (basis_str a))
            (set_of_list (map er_timestampBasis ordered)),
          eh_counterResets = ig_resets g,
          eh_estimatedImportKwh = (if covered then Some (jdiv (ig_import g) (Fin 3600000)) else None),
          eh_estimatedExportKwh = (if covered then Some (jdiv (ig_export g) (Fin 3600000)) else None),
          eh_coveredSeconds = ig_covered g\<rparr>)"

definition summarizeElectricalHour :: "(jstr \<Rightarrow> int option) \<Rightarrow> electrical_reading list \<Rightarrow> jval \<Rightarrow> electrical_hour result" where
  "summarizeElectricalHour host readings hour =
     and_then (utcInstant host hour) (\<lambda>h.
       case date_parse host h of
         None \<Rightarrow> throw ''Expected a UTC hour boundary''
       | Some start \<Rightarrow>
           and_then (requires (start mod 3600000 = 0) ''Expected a UTC hour boundary'') (\<lambda>_.
             let ordered = sort_readings host readings in
             and_then (case ordered of [] \<Rightarrow> Inr False | r # _ \<Rightarrow> mixed_streams r ordered) (\<lambda>mixed.
             and_then (requires (\<not> mixed) ''Cannot summarize mixed measurement streams'') (\<lambda>_.
               Inr (hour_of host start ordered)))))"
subsection \<open>What a validated reading satisfies\<close>

definition reading_ok :: "(jstr \<Rightarrow> int option) \<Rightarrow> electrical_reading \<Rightarrow> bool" where
  "reading_ok host r \<longleftrightarrow>
     list_all (token identifier_char 120) [er_tenantId r, er_siteId r, er_deviceId r, er_channel r, er_source r]
     \<and> (\<exists>m\<in>set metric_names. to_string (er_metric r) = Inr m)
     \<and> er_unit r = (if is_power (er_metric r) then js ''W'' else js ''kWh'')
     \<and> (case er_value r of None \<Rightarrow> er_quality r = Invalid
          | Some x \<Rightarrow> er_quality r = Measured \<and> is_finite x \<and> (is_power (er_metric r) \<or> jle (Fin 0) x))
     \<and> utcInstant host (JStr (er_observedAt r)) = Inr (er_observedAt r)
     \<and> utcInstant host (JStr (er_receivedAt r)) = Inr (er_receivedAt r)
     \<and> \<not> too_far_ahead host (er_observedAt r) (er_receivedAt r)"

text \<open>The reading as the value it is published as.\<close>

definition reading_value :: "electrical_reading \<Rightarrow> jval" where
  "reading_value r = JObj [(js ''schemaVersion'', JNum (Fin 1)), (js ''tenantId'', JStr (er_tenantId r)),
     (js ''siteId'', JStr (er_siteId r)), (js ''deviceId'', JStr (er_deviceId r)), (js ''channel'', JStr (er_channel r)),
     (js ''metric'', er_metric r), (js ''value'', case er_value r of Some x \<Rightarrow> JNum x | None \<Rightarrow> Null),
     (js ''unit'', JStr (er_unit r)),
     (js ''quality'', JStr (case er_quality r of Measured \<Rightarrow> js ''measured'' | Invalid \<Rightarrow> js ''invalid'')),
     (js ''observedAt'', JStr (er_observedAt r)), (js ''receivedAt'', JStr (er_receivedAt r)),
     (js ''timestampBasis'', JStr (basis_str (er_timestampBasis r))), (js ''source'', JStr (er_source r))]"

lemma utcInstant_fixed: "utcInstant host v = Inr r \<Longrightarrow> utcInstant host (JStr r) = Inr r"
  unfolding utcInstant_def by (erule utc_instant_canonical)

lemma readingIdentifier_Inr [simp]: "readingIdentifier v = Inr s \<longleftrightarrow> v = JStr s \<and> token identifier_char 120 s"
  by (cases v) (auto simp: readingIdentifier_def)

lemma readingIdentifier_JStr: "token identifier_char 120 s \<Longrightarrow> readingIdentifier (JStr s) = Inr s"
  by simp

lemma basis_of_Some: "basis_of v = Some b \<longleftrightarrow> v = JStr (basis_str b)"
  by (cases b) (auto simp: basis_of_def)

lemma validated_ok:
  assumes "validateElectricalReading host v = Inr r"
  shows "reading_ok host r"
proof -
  from assms obtain ob where "v = JObj ob" by (cases v) (auto simp: validateElectricalReading_def)
  define p where "p = (\<lambda>k. own ob (js k))"
  from assms obtain name where
    m: "to_string (p ''metric'') = Inr name" "name \<in> set metric_names" and
    val: "valid_value (p ''metric'') (p ''quality'') (p ''value'')" and
    ts: "utcInstant host (p ''observedAt'') = Inr (er_observedAt r)" "utcInstant host (p ''receivedAt'') = Inr (er_receivedAt r)"
      "\<not> too_far_ahead host (er_observedAt r) (er_receivedAt r)" and
    ids: "list_all (token identifier_char 120) [er_tenantId r, er_siteId r, er_deviceId r, er_channel r, er_source r]" and
    f: "er_metric r = p ''metric''" "er_value r = number_of (p ''value'')"
      "er_unit r = (if is_power (p ''metric'') then js ''W'' else js ''kWh'')"
      "er_quality r = (if p ''quality'' = JStr (js ''invalid'') then Invalid else Measured)"
    unfolding \<open>v = JObj ob\<close> validateElectricalReading_def plain_object.simps option.case p_def [symmetric]
    by (auto simp: and_then_Inr_iff Let_def)
  have "case er_value r of None \<Rightarrow> er_quality r = Invalid
      | Some x \<Rightarrow> er_quality r = Measured \<and> is_finite x \<and> (is_power (er_metric r) \<or> jle (Fin 0) x)"
    using val unfolding f valid_value_def
    by (cases "finite_number (p ''value'')") (auto simp: finite_number_Some)
  then show ?thesis
    using m ts ids utcInstant_fixed [OF ts(1)] utcInstant_fixed [OF ts(2)] unfolding reading_ok_def f by auto
qed

lemma ok_validates:
  assumes "reading_ok host r"
  shows "validateElectricalReading host (reading_value r) = Inr r"
proof -
  define p where "p = (\<lambda>k. get_prop (reading_value r) k)"
  have p: "p ''schemaVersion'' = JNum (Fin 1)" "p ''tenantId'' = JStr (er_tenantId r)" "p ''siteId'' = JStr (er_siteId r)"
    "p ''deviceId'' = JStr (er_deviceId r)" "p ''channel'' = JStr (er_channel r)" "p ''metric'' = er_metric r"
    "p ''value'' = (case er_value r of Some x \<Rightarrow> JNum x | None \<Rightarrow> Null)" "p ''unit'' = JStr (er_unit r)"
    "p ''quality'' = JStr (case er_quality r of Measured \<Rightarrow> js ''measured'' | Invalid \<Rightarrow> js ''invalid'')"
    "p ''observedAt'' = JStr (er_observedAt r)" "p ''receivedAt'' = JStr (er_receivedAt r)"
    "p ''timestampBasis'' = JStr (basis_str (er_timestampBasis r))" "p ''source'' = JStr (er_source r)"
    by (simp_all add: p_def get_prop_def reading_value_def own_simps)
  obtain ob where ob: "reading_value r = JObj ob" by (simp add: reading_value_def)
  then have own: "own ob (js k) = p k" for k by (simp add: p_def get_prop_def)
  from assms obtain m where m: "to_string (er_metric r) = Inr m" "m \<in> set metric_names"
    by (auto simp: reading_ok_def)
  have val: "valid_value (er_metric r) (p ''quality'') (p ''value'')"
    "number_of (p ''value'') = er_value r"
    "(if p ''quality'' = JStr (js ''invalid'') then Invalid else Measured) = er_quality r"
    using assms unfolding reading_ok_def p valid_value_def
    by (cases "er_value r"; cases "er_quality r"; simp add: finite_number_def)+
  show ?thesis
    unfolding validateElectricalReading_def ob plain_object.simps option.case Let_def own
    using assms m val(1)
    by (simp add: p(1-6) p(8) p(10-) reading_ok_def basis_of_Some [THEN iffD2] readingIdentifier_JStr val(2,3))
qed

text \<open>C21. A validated reading, published and validated again, is the same reading; it has identifiers of the
  accepted form, a value exactly when it is measured, that value finite and for a counter not negative, and
  canonical instants, the observation not more than five minutes after the receipt, however long before it.\<close>

theorem validated_reading_is_fixed:
  assumes "validateElectricalReading host v = Inr r"
  shows "validateElectricalReading host (reading_value r) = Inr r \<and> reading_ok host r"
  using assms by (simp add: ok_validates validated_ok)
definition demo_reading :: "jval \<Rightarrow> string \<Rightarrow> jnum \<Rightarrow> int \<Rightarrow> electrical_reading" where
  "demo_reading metric unit x t = \<lparr>er_tenantId = js ''t'', er_siteId = js ''s'', er_deviceId = js ''d'', er_channel = js ''0'',
     er_metric = metric, er_value = Some x, er_unit = js unit, er_quality = Measured,
     er_observedAt = iso_string t, er_receivedAt = iso_string t, er_timestampBasis = DeviceObserved,
     er_source = js ''mqtt''\<rparr>"

lemma demo_reading_ok:
  assumes "to_string metric = Inr m" "m \<in> set metric_names" "js unit = (if is_power metric then js ''W'' else js ''kWh'')"
    "is_finite x" "jle (Fin 0) x" "common_year t"
  shows "reading_ok host (demo_reading metric unit x t)"
proof -
  have "utcInstant host (JStr (iso_string t)) = Inr (iso_string t)"
    using parse_iso_string [OF assms(6)] by (simp add: utcInstant_def utc_instant_Inr)
  moreover have "\<not> too_far_ahead host (iso_string t) (iso_string t)"
  proof -
    have r: "time_in_range t" by (rule common_year_in_range [OF assms(6)])
    then have "safe_int (t + 300000)" by (auto simp: time_in_range_def safe_int_def)
    from jadd_int [OF this] r show ?thesis by (simp add: too_far_ahead_def time_num_def)
  qed
  moreover have "token identifier_char 120 (js ''t'')" "token identifier_char 120 (js ''s'')"
    "token identifier_char 120 (js ''d'')" "token identifier_char 120 (js ''0'')" "token identifier_char 120 (js ''mqtt'')"
    by code_simp+
  ultimately show ?thesis using assms(1-5) by (auto simp: reading_ok_def demo_reading_def)
qed

lemma epoch_common: "common_year 0"
proof -
  have "df_year (fields_of 0) = 1970" by code_simp
  then show ?thesis by (simp add: common_year_def)
qed

theorem validated_reading_is_fixed_witness:
  "validateElectricalReading (\<lambda>_. None) (reading_value (demo_reading (JStr (js ''power'')) ''W'' (Fin 5) 0))
     = Inr (demo_reading (JStr (js ''power'')) ''W'' (Fin 5) 0)"
proof -
  have "reading_ok (\<lambda>_. None) (demo_reading (JStr (js ''power'')) ''W'' (Fin 5) 0)"
    by (rule demo_reading_ok [where m = "js ''power''"]) (simp_all add: metric_names_def is_power_def epoch_common)
  from validated_reading_is_fixed [OF ok_validates [OF this]] show ?thesis by blast
qed

text \<open>An array whose one item is a metric name passes the test of the metric, and its unit must then be
  \<open>kWh\<close>: power in an energy unit is accepted.\<close>

lemma array_metric_is_accepted:
  "\<exists>v r. validateElectricalReading host v = Inr r \<and> er_metric r = JArr [JStr (js ''power'')] \<and> er_unit r = js ''kWh''"
proof -
  let ?m = "JArr [JStr (js ''power'')]" let ?r = "demo_reading ?m ''kWh'' (Fin 5) 0"
  have "reading_ok host ?r"
    by (rule demo_reading_ok [where m = "js ''power''"]) (simp_all add: nullish_def metric_names_def is_power_def epoch_common)
  from ok_validates [OF this] show ?thesis by (intro exI conjI) (auto simp: demo_reading_def)
qed

subsection \<open>The summary\<close>

text \<open>A reading with a canonical instant: its time is known and in range.\<close>

definition timed_reading :: "electrical_reading \<Rightarrow> bool" where
  "timed_reading r \<longleftrightarrow> (case parse_iso (er_observedAt r) of Some t \<Rightarrow> er_observedAt r = iso_string t | None \<Rightarrow> False)"

definition reading_time :: "electrical_reading \<Rightarrow> int" where
  "reading_time r = (case parse_iso (er_observedAt r) of Some t \<Rightarrow> t | None \<Rightarrow> 0)"

lemma timed_readingD:
  assumes "timed_reading r"
  shows "observed_num host r = Fin (of_int (reading_time r))" "time_in_range (reading_time r)"
    "er_observedAt r = iso_string (reading_time r)"
proof -
  from assms obtain t where t: "parse_iso (er_observedAt r) = Some t" "er_observedAt r = iso_string t"
    by (auto simp: timed_reading_def split: option.splits)
  have r: "reading_time r = t" by (simp add: reading_time_def t(1))
  show "observed_num host r = Fin (of_int (reading_time r))"
    by (simp add: observed_num_def date_parse_def t(1) time_num_def r)
  show "time_in_range (reading_time r)"
    using parse_iso_common_year(1) [OF t(1)] common_year_in_range by (simp add: r)
  show "er_observedAt r = iso_string (reading_time r)" by (simp add: r t(2))
qed

lemma reading_ok_timed: "reading_ok host r \<Longrightarrow> timed_reading r"
  by (auto simp: reading_ok_def utcInstant_def utc_instant_Inr timed_reading_def)

lemma sort_readings_key:
  assumes "list_all timed_reading rs"
  shows "sort_readings host rs = sort_key reading_time rs"
  unfolding sort_readings_def
proof (rule js_sort_key)
  fix a b
  assume "a \<in> set rs" "b \<in> set rs"
  then have "timed_reading a" "timed_reading b" using assms by (auto simp: list_all_iff)
  then show "jless (Fin 0) (jsub (observed_num host a) (observed_num host b)) \<longleftrightarrow> reading_time b < reading_time a"
    by (simp add: timed_readingD jsub_times_sign)
qed

lemma sort_key_unique:
  assumes "mset xs = mset ys" "distinct (map f xs)"
  shows "sort_key f xs = sort_key (f :: 'a \<Rightarrow> 'b::linorder) ys"
proof (rule map_sorted_distinct_set_unique)
  have set: "set xs = set ys" using assms(1) by (metis set_mset_mset)
  show "inj_on f (set (sort_key f xs) \<union> set (sort_key f ys))"
    using assms(2) by (simp add: set distinct_map)
  show "sorted (map f (sort_key f xs))" "sorted (map f (sort_key f ys))" by simp_all
  have "mset (map f xs) = mset (map f ys)" using assms(1) by simp
  then have "distinct (map f ys)" using assms(2) by (metis mset_eq_imp_distinct_iff)
  have key: "distinct (map f (sort_key f zs)) = distinct (map f zs)" for zs :: "'a list"
    by (rule mset_eq_imp_distinct_iff) simp
  show "distinct (map f (sort_key f xs))" "distinct (map f (sort_key f ys))"
    using key assms(2) \<open>distinct (map f ys)\<close> by simp_all
  show "set (sort_key f xs) = set (sort_key f ys)" by (simp add: set)
qed

text \<open>C22. The summary of readings with canonical instants, all different, does not depend on the order in which
  they are given.\<close>

theorem summary_ignores_arrival_order:
  assumes "list_all timed_reading rs" "distinct (map reading_time rs)" "mset rs = mset rs'"
  shows "summarizeElectricalHour host rs hour = summarizeElectricalHour host rs' hour"
proof -
  have "list_all timed_reading rs'" using assms(1,3) by (metis list_all_iff set_mset_mset)
  then have "sort_readings host rs = sort_readings host rs'"
    using assms sort_key_unique by (simp add: sort_readings_key)
  then show ?thesis by (simp only: summarizeElectricalHour_def)
qed

lemma summarize_Inr:
  assumes "summarizeElectricalHour host rs hour = Inr h"
  obtains start where "utcInstant host hour = Inr (iso_string start)" "date_parse host (iso_string start) = Some start"
    "time_in_range start" "start mod 3600000 = 0" "h = hour_of host start (sort_readings host rs)"
proof -
  from assms obtain i where i: "utcInstant host hour = Inr i"
    by (cases "utcInstant host hour") (simp_all add: summarizeElectricalHour_def)
  note rest = assms [unfolded summarizeElectricalHour_def i and_then_simps]
  from i obtain t where t: "i = iso_string t" "time_in_range t"
    unfolding utcInstant_def by (rule utc_instant_canonical) blast
  then have d: "date_parse host i = Some t" by simp
  have m: "t mod 3600000 = 0"
    by (rule ccontr) (use rest d in \<open>simp add: requires_def\<close>)
  define mixed where "mixed = (case sort_readings host rs of [] \<Rightarrow> Inr False
    | r # x \<Rightarrow> mixed_streams r (sort_readings host rs))"
  from rest have "and_then mixed (\<lambda>m. and_then (requires (\<not> m) ''Cannot summarize mixed measurement streams'')
      (\<lambda>_. Inr (hour_of host t (sort_readings host rs)))) = Inr h"
    unfolding d option.case m requires_simps and_then_simps Let_def mixed_def by simp
  then have "h = hour_of host t (sort_readings host rs)"
    by (cases mixed; simp add: requires_def split: if_splits)
  with i t m that show ?thesis by simp
qed

lemma set_sort_readings [simp]: "set (sort_readings host rs) = set rs"
  by (simp add: sort_readings_def)

lemma length_filter_sort: "length (filter P (sort_readings host rs)) = length (filter P rs)"
  unfolding sort_readings_def by (metis mset_filter mset_js_sort size_mset)

lemma reduce1_finite:
  assumes "list_all is_finite xs" "\<And>a b. f (Fin a) (Fin b) = Fin (g a b)" "\<And>a b. g a b = a \<or> g a b = b"
    "\<And>a b. le a (g a b) \<and> le b (g a b)" "\<And>a b c. le a b \<Longrightarrow> le b c \<Longrightarrow> le a c" "\<And>a. le a a"
  shows "case reduce1 f xs of None \<Rightarrow> xs = []
    | Some m \<Rightarrow> m \<in> set xs \<and> (\<forall>x\<in>set xs. \<exists>a b. x = Fin a \<and> m = Fin b \<and> le a b)"
proof (cases xs)
  case (Cons x ys)
  have "\<exists>m. foldl f (Fin q) ys = Fin m \<and> Fin m \<in> insert (Fin q) (set ys) \<and> le q m
      \<and> (\<forall>y\<in>set ys. \<exists>a. y = Fin a \<and> le a m)" if "list_all is_finite ys" for q ys
    using that
  proof (induction ys arbitrary: q)
    case (Cons y ys)
    then obtain p where p: "y = Fin p" by (auto simp: is_finite_iff)
    from Cons obtain m where m: "foldl f (Fin (g q p)) ys = Fin m" "Fin m \<in> insert (Fin (g q p)) (set ys)"
      "le (g q p) m" "\<forall>y\<in>set ys. \<exists>a. y = Fin a \<and> le a m" by fastforce
    have "le q m" "le p m" using assms(4) [of q p] m(3) assms(5) by blast+
    moreover have "Fin m \<in> insert (Fin q) (set (y # ys))" using m(2) assms(3) [of q p] p by auto
    ultimately show ?case using m p assms(2) by auto
  qed (simp add: assms(6))
  moreover from Cons assms(1) obtain q where "x = Fin q" by (auto simp: is_finite_iff)
  ultimately show ?thesis using Cons assms(1) by fastforce
qed simp

lemma minimum_least:
  assumes "list_all is_finite xs"
  shows "case reduce1 jmin xs of None \<Rightarrow> xs = [] | Some m \<Rightarrow> m \<in> set xs \<and> list_all (jle m) xs"
proof -
  have "case reduce1 jmin xs of None \<Rightarrow> xs = []
      | Some m \<Rightarrow> m \<in> set xs \<and> (\<forall>x\<in>set xs. \<exists>a b. x = Fin a \<and> m = Fin b \<and> b \<le> a)"
    by (rule reduce1_finite [where g = min, OF assms]) (auto simp: jmin_def min_def)
  then show ?thesis by (cases "reduce1 jmin xs") (fastforce simp: list_all_iff)+
qed

lemma maximum_greatest:
  assumes "list_all is_finite xs"
  shows "case reduce1 jmax xs of None \<Rightarrow> xs = [] | Some m \<Rightarrow> m \<in> set xs \<and> list_all (\<lambda>x. jle x m) xs"
proof -
  have "case reduce1 jmax xs of None \<Rightarrow> xs = []
      | Some m \<Rightarrow> m \<in> set xs \<and> (\<forall>x\<in>set xs. \<exists>a b. x = Fin a \<and> m = Fin b \<and> a \<le> b)"
    by (rule reduce1_finite [where g = max, OF assms]) (auto simp: jmax_def max_def)
  then show ?thesis by (cases "reduce1 jmax xs") (fastforce simp: list_all_iff)+
qed

lemma hour_of_fields:
  fixes host start ordered
  defines "inside \<equiv> filter (in_hour host (Fin (of_int start)) (jadd (Fin (of_int start)) (Fin 3600000))) ordered"
  shows "eh_hour (hour_of host start ordered) = iso_string start"
    "eh_sampleCount (hour_of host start ordered) = length inside"
    "eh_invalidCount (hour_of host start ordered) = length inside - length (filter (\<lambda>r. measured_value r \<noteq> None) inside)"
    "eh_minimum (hour_of host start ordered) = reduce1 jmin (List.map_filter measured_value inside)"
    "eh_maximum (hour_of host start ordered) = reduce1 jmax (List.map_filter measured_value inside)"
    "eh_counterResets (hour_of host start ordered)
       = ig_resets (integrate host (Fin (of_int start)) (jadd (Fin (of_int start)) (Fin 3600000)) ordered)"
    "eh_coveredSeconds (hour_of host start ordered)
       = ig_covered (integrate host (Fin (of_int start)) (jadd (Fin (of_int start)) (Fin 3600000)) ordered)"
  by (simp_all only: hour_of_def Let_def electrical_hour.select_convs inside_def)

lemma integrate_resets: "ig_resets (integrate host from to rs) \<le> length rs - 1"
proof -
  have step: "ig_resets (integrate_pair host from to p g) \<le> ig_resets g + 1" for p g
    by (auto simp: integrate_pair_def Let_def split: prod.split option.split)
  have "ig_resets (fold (integrate_pair host from to) ps g) \<le> ig_resets g + length ps" for ps g
  proof (induction ps arbitrary: g)
    case (Cons p ps)
    from Cons [of "integrate_pair host from to p g"] step [of p g] show ?case by simp
  qed simp
  from this [of "neighbours rs" "\<lparr>ig_resets = 0, ig_covered = Fin 0, ig_import = Fin 0, ig_export = Fin 0\<rparr>"]
  show ?thesis by (simp add: integrate_def neighbours_def)
qed

text \<open>The values measured in an hour, and the readings of it.\<close>

definition hour_readings :: "int \<Rightarrow> electrical_reading list \<Rightarrow> electrical_reading list" where
  "hour_readings start rs = filter (\<lambda>r. start \<le> reading_time r \<and> reading_time r < start + 3600000) rs"

definition hour_values :: "int \<Rightarrow> electrical_reading list \<Rightarrow> jnum list" where
  "hour_values start rs = List.map_filter measured_value (hour_readings start rs)"

lemma in_hour_time:
  assumes "timed_reading r" "time_in_range start"
  shows "in_hour host (Fin (of_int start)) (jadd (Fin (of_int start)) (Fin 3600000)) r
    \<longleftrightarrow> start \<le> reading_time r \<and> reading_time r < start + 3600000"
proof -
  have "safe_int (start + 3600000)" using assms(2) by (auto simp: time_in_range_def safe_int_def)
  from jadd_int [OF this] have "jadd (Fin (of_int start)) (Fin 3600000) = Fin (of_int (start + 3600000))" by simp
  then show ?thesis by (simp only: in_hour_def timed_readingD(1) [OF assms(1)] jle_Fin jless.simps of_int_le_iff of_int_less_iff)
qed

lemma set_map_filter: "set (List.map_filter f xs) = {y. \<exists>x\<in>set xs. f x = Some y}"
  by (induction xs) (auto simp: List.map_filter_simps split: option.split)

text \<open>C23. A summary counts the readings of its hour and those among them that are not measured, gives the least
  and the greatest measured value (none when there is none), and counts at most one reset per pair of
  neighbouring readings.\<close>

theorem hour_summary_is_exact:
  assumes "summarizeElectricalHour host rs hour = Inr h" "list_all (reading_ok host) rs"
  shows "\<exists>start. eh_hour h = iso_string start
    \<and> eh_sampleCount h = length (hour_readings start rs)
    \<and> eh_invalidCount h = length (filter (\<lambda>r. measured_value r = None) (hour_readings start rs))
    \<and> (case eh_minimum h of None \<Rightarrow> hour_values start rs = []
         | Some m \<Rightarrow> m \<in> set (hour_values start rs) \<and> list_all (jle m) (hour_values start rs))
    \<and> (case eh_maximum h of None \<Rightarrow> hour_values start rs = []
         | Some m \<Rightarrow> m \<in> set (hour_values start rs) \<and> list_all (\<lambda>x. jle x m) (hour_values start rs))
    \<and> eh_counterResets h \<le> length rs - 1"
proof -
  from assms(1) obtain start where start: "time_in_range start" "h = hour_of host start (sort_readings host rs)"
    by (rule summarize_Inr) blast
  let ?in = "in_hour host (Fin (of_int start)) (jadd (Fin (of_int start)) (Fin 3600000))"
  let ?vals = "List.map_filter measured_value (filter ?in (sort_readings host rs))"
  have timed: "r \<in> set rs \<Longrightarrow> timed_reading r" for r using assms(2) reading_ok_timed by (auto simp: list_all_iff)
  have hr: "filter ?in rs = hour_readings start rs"
    unfolding hour_readings_def by (rule filter_cong) (use timed in_hour_time [OF _ start(1)] in auto)
  have vals: "set ?vals = set (hour_values start rs)"
    unfolding hour_values_def hr [symmetric] by (simp add: set_map_filter)
  have all: "list_all P ?vals \<longleftrightarrow> list_all P (hour_values start rs)" for P by (simp only: list_all_iff vals)
  have fin: "list_all is_finite ?vals"
    using assms(2) unfolding all hour_values_def
    by (fastforce simp: list_all_iff set_map_filter hour_readings_def reading_ok_def measured_value_def
        split: if_splits option.splits)
  have count: "length (filter P (filter ?in (sort_readings host rs))) = length (filter P (hour_readings start rs))" for P
    using length_filter_sort [of "\<lambda>r. ?in r \<and> P r" host rs] by (simp add: filter_filter conj_commute flip: hr)
  have counts: "eh_sampleCount h = length (hour_readings start rs)"
    "eh_invalidCount h = length (filter (\<lambda>r. measured_value r = None) (hour_readings start rs))"
    using count [of "\<lambda>_. True"] count [of "\<lambda>r. measured_value r \<noteq> None"]
      sum_length_filter_compl [of "\<lambda>r. measured_value r \<noteq> None" "hour_readings start rs"]
    by (simp_all only: start(2) hour_of_fields filter_True) simp_all
  have mins: "case eh_minimum h of None \<Rightarrow> hour_values start rs = []
      | Some m \<Rightarrow> m \<in> set (hour_values start rs) \<and> list_all (jle m) (hour_values start rs)"
    using minimum_least [OF fin] vals all unfolding start(2) hour_of_fields
    by (cases "reduce1 jmin ?vals") auto
  have maxs: "case eh_maximum h of None \<Rightarrow> hour_values start rs = []
      | Some m \<Rightarrow> m \<in> set (hour_values start rs) \<and> list_all (\<lambda>x. jle x m) (hour_values start rs)"
    using maximum_greatest [OF fin] vals all unfolding start(2) hour_of_fields
    by (cases "reduce1 jmax ?vals") auto
  have "eh_counterResets h \<le> length rs - 1"
    unfolding start(2) hour_of_fields using integrate_resets [of host _ _ "sort_readings host rs"]
    by (simp add: sort_readings_def)
  with counts mins maxs show ?thesis by (intro exI [of _ start]) (simp add: start(2) hour_of_fields(1))
qed
lemma integrate_pair_counter:
  "\<not> is_power (er_metric a) \<Longrightarrow> ig_covered (integrate_pair host from to (a, b) g) = ig_covered g"
  by (simp add: integrate_pair_def Let_def split: option.split)

lemma integrate_pair_power:
  "is_power (er_metric a) \<Longrightarrow> ig_resets (integrate_pair host from to (a, b) g) = ig_resets g"
  by (simp add: integrate_pair_def Let_def split: option.split)

lemma neighbours_fst: "(a, b) \<in> set (neighbours xs) \<Longrightarrow> a \<in> set xs"
  by (auto simp: neighbours_def dest: set_zip_leftD)

lemma integrate_counters:
  assumes "\<And>r. r \<in> set rs \<Longrightarrow> \<not> is_power (er_metric r)"
  shows "ig_covered (integrate host from to rs) = Fin 0"
  unfolding integrate_def
  by (rule fold_invariant [where P = "\<lambda>g :: integration. ig_covered g = Fin 0"])
    (auto simp: integrate_pair_counter assms dest: neighbours_fst)

lemma integrate_power:
  assumes "\<And>r. r \<in> set rs \<Longrightarrow> is_power (er_metric r)"
  shows "ig_resets (integrate host from to rs) = 0"
  unfolding integrate_def
  by (rule fold_invariant [where P = "\<lambda>g :: integration. ig_resets g = 0"])
    (auto simp: integrate_pair_power assms dest: neighbours_fst)

text \<open>A stream of counter readings never yields an energy estimate or coverage, a stream of power readings
  never counts a reset.\<close>

lemma counters_are_not_integrated:
  assumes "summarizeElectricalHour host rs hour = Inr h"
  shows "(list_all (\<lambda>r. \<not> is_power (er_metric r)) rs
        \<longrightarrow> eh_estimatedImportKwh h = None \<and> eh_estimatedExportKwh h = None \<and> eh_coveredSeconds h = Fin 0)
    \<and> (list_all (\<lambda>r. is_power (er_metric r)) rs \<longrightarrow> eh_counterResets h = 0)"
proof -
  from assms obtain start where h: "h = hour_of host start (sort_readings host rs)" by (rule summarize_Inr)
  show ?thesis
    unfolding h hour_of_fields
    using integrate_counters [of "sort_readings host rs" host] integrate_power [of "sort_readings host rs" host]
    by (auto simp: list_all_iff hour_of_def Let_def)
qed

subsection \<open>A small hour\<close>

definition demo_hour_readings :: "electrical_reading list" where
  "demo_hour_readings = [demo_reading (JStr (js ''power'')) ''W'' (Fin 5) 0]"

lemma demo_hour_ok: "list_all (reading_ok host) demo_hour_readings"
  by (auto simp: demo_hour_readings_def metric_names_def is_power_def epoch_common
      intro!: demo_reading_ok [where m = "js ''power''"])

lemma demo_hour_summary:
  "\<exists>h. summarizeElectricalHour (\<lambda>_. None) demo_hour_readings (JStr (iso_string 0)) = Inr h"
proof -
  have "utcInstant (\<lambda>_. None) (JStr (iso_string 0)) = Inr (iso_string 0)"
    using parse_iso_string [OF epoch_common] by (simp add: utcInstant_def utc_instant_Inr)
  moreover have "date_parse (\<lambda>_. None) (iso_string 0) = Some 0"
    by (rule date_parse_iso_string) (simp add: time_in_range_def)
  ultimately show ?thesis
    by (simp add: summarizeElectricalHour_def demo_hour_readings_def sort_readings_def js_sort_simps Let_def
        stream_key_def nullish_def demo_reading_def)
qed

theorem summary_ignores_arrival_order_witness:
  "summarizeElectricalHour (\<lambda>_. None) [demo_reading (JStr (js ''power'')) ''W'' (Fin 5) 0, demo_reading (JStr (js ''power'')) ''W'' (Fin 7) 60000] (JStr (iso_string 0))
    = summarizeElectricalHour (\<lambda>_. None) [demo_reading (JStr (js ''power'')) ''W'' (Fin 7) 60000, demo_reading (JStr (js ''power'')) ''W'' (Fin 5) 0] (JStr (iso_string 0))"
proof -
  have "df_year (fields_of 60000) = 1970" by code_simp
  then have c: "common_year 60000" by (simp add: common_year_def)
  show ?thesis
    by (rule summary_ignores_arrival_order)
      (simp_all add: timed_reading_def reading_time_def demo_reading_def parse_iso_string epoch_common c)
qed

theorem hour_summary_is_exact_witness:
  "\<exists>h. summarizeElectricalHour (\<lambda>_. None) demo_hour_readings (JStr (iso_string 0)) = Inr h
    \<and> (\<exists>start. eh_sampleCount h = length (hour_readings start demo_hour_readings)) \<and> eh_counterResets h = 0"
proof -
  obtain h where h: "summarizeElectricalHour (\<lambda>_. None) demo_hour_readings (JStr (iso_string 0)) = Inr h"
    using demo_hour_summary by blast
  from hour_summary_is_exact [OF h demo_hour_ok] h show ?thesis
    by (auto simp: demo_hour_readings_def)
qed

lemma counters_are_not_integrated_example:
  "\<exists>h. summarizeElectricalHour (\<lambda>_. None) demo_hour_readings (JStr (iso_string 0)) = Inr h \<and> eh_counterResets h = 0"
proof -
  obtain h where h: "summarizeElectricalHour (\<lambda>_. None) demo_hour_readings (JStr (iso_string 0)) = Inr h"
    using demo_hour_summary by blast
  have "list_all (\<lambda>r. is_power (er_metric r)) demo_hour_readings"
    by (simp add: demo_hour_readings_def demo_reading_def is_power_def)
  with counters_are_not_integrated [OF h] h show ?thesis by auto
qed

end
