(* ===== verification/GenericMeasurement.thy ===== *)
theory GenericMeasurement
  imports ElectricalReading
begin

text \<open>
  Generic numeric measurements, \<open>libs/domain-telemetry/src/lib/generic-measurement.ts\<close>: validation of an
  untrusted measurement against a registry of metric definitions, and the extension of the registry.

  The lemmas show that a validated measurement validates to itself and lies in the range its metric's
  definition gives, and that an extended registry still defines each metric once.
\<close>

subsection \<open>Definitions of metrics\<close>

record measurement_definition =
  md_metric :: jstr
  md_unit :: jstr
  md_minimum :: "jnum option"
  md_maximum :: "jnum option"

definition CORE_MEASUREMENT_DEFINITIONS :: "measurement_definition list" where
  "CORE_MEASUREMENT_DEFINITIONS =
     [\<lparr>md_metric = js ''temperature'', md_unit = js ''Cel'', md_minimum = Some (fl (- 27315 / 100)), md_maximum = None\<rparr>,
      \<lparr>md_metric = js ''humidity'', md_unit = js ''%RH'', md_minimum = Some (Fin 0), md_maximum = Some (Fin 100)\<rparr>,
      \<lparr>md_metric = js ''pressure'', md_unit = js ''hPa'', md_minimum = Some (Fin 0), md_maximum = None\<rparr>,
      \<lparr>md_metric = js ''power'', md_unit = js ''W'', md_minimum = None, md_maximum = None\<rparr>]"

definition lower :: "nat \<Rightarrow> bool" where
  "lower c \<longleftrightarrow> 97 \<le> c \<and> c \<le> 122"

text \<open>\<open>/^[first][rest]{0,n}$/\<close>.\<close>

definition word_token :: "(nat \<Rightarrow> bool) \<Rightarrow> (nat \<Rightarrow> bool) \<Rightarrow> nat \<Rightarrow> jstr \<Rightarrow> bool" where
  "word_token first rest n s = (case s of [] \<Rightarrow> False | c # r \<Rightarrow> first c \<and> length r \<le> n \<and> list_all rest r)"

definition metric_form :: "jstr \<Rightarrow> bool" where
  "metric_form = word_token lower (\<lambda>c. lower c \<or> is_digit c \<or> c = 95) 63"

definition unit_form :: "jstr \<Rightarrow> bool" where
  "unit_form = word_token (\<lambda>c. (alnum c \<and> \<not> is_digit c) \<or> c = 37)
     (\<lambda>c. alnum c \<or> c = 37 \<or> c = 46 \<or> c = 95 \<or> c = 45) 31"

definition bad_definition :: "measurement_definition list \<Rightarrow> measurement_definition \<Rightarrow> bool" where
  "bad_definition definitions item \<longleftrightarrow>
     \<not> metric_form (md_metric item) \<or> \<not> unit_form (md_unit item)
     \<or> (case md_minimum item of Some x \<Rightarrow> \<not> is_finite x | None \<Rightarrow> False)
     \<or> (case md_maximum item of Some x \<Rightarrow> \<not> is_finite x | None \<Rightarrow> False)
     \<or> (case (md_minimum item, md_maximum item) of (Some a, Some b) \<Rightarrow> jless b a | _ \<Rightarrow> False)
     \<or> list_ex (\<lambda>e. md_metric e = md_metric item) definitions"

fun extend_definitions :: "measurement_definition list \<Rightarrow> measurement_definition list \<Rightarrow> measurement_definition list result" where
  "extend_definitions definitions [] = Inr definitions"
| "extend_definitions definitions (item # items) =
     (if bad_definition definitions item then throw ''Invalid or duplicate measurement definition''
      else extend_definitions (definitions @ [item]) items)"

definition extendMeasurementDefinitions :: "measurement_definition list \<Rightarrow> measurement_definition list result" where
  "extendMeasurementDefinitions additions = extend_definitions CORE_MEASUREMENT_DEFINITIONS additions"

subsection \<open>Validation\<close>

record generic_measurement =
  gm_tenantId :: jstr
  gm_siteId :: jstr
  gm_deviceId :: jstr
  gm_physicalDeviceId :: "jstr option"
  gm_componentId :: jstr
  gm_channel :: jstr
  gm_metric :: jstr
  gm_unit :: jstr
  gm_value :: "jnum option"
  gm_quality :: quality
  gm_source :: jstr
  gm_provenance :: jstr
  gm_sampleId :: jstr
  gm_observedAt :: jstr
  gm_receivedAt :: jstr

definition canonicalUtcInstant :: "(jstr \<Rightarrow> int option) \<Rightarrow> jval \<Rightarrow> string \<Rightarrow> jstr result" where
  "canonicalUtcInstant host v name =
     utc_instant host (Error (js name @ js '' must be a valid UTC ISO timestamp'')) v"

definition identifier_of :: "string \<Rightarrow> jval \<Rightarrow> jstr result" where
  "identifier_of key v = (case string_of v of
      Some s \<Rightarrow> if token identifier_char 160 s then Inr s else Inl (Error (js ''Invalid measurement '' @ js key))
    | None \<Rightarrow> Inl (Error (js ''Invalid measurement '' @ js key)))"

definition text_of_form :: "(jstr \<Rightarrow> bool) \<Rightarrow> string \<Rightarrow> jval \<Rightarrow> jstr result" where
  "text_of_form form msg v = (case string_of v of
      Some s \<Rightarrow> if form s then Inr s else throw msg
    | None \<Rightarrow> throw msg)"

definition find_definition :: "measurement_definition list \<Rightarrow> jstr \<Rightarrow> jstr \<Rightarrow> measurement_definition result" where
  "find_definition definitions metric unit =
     (case find (\<lambda>d. md_metric d = metric \<and> md_unit d = unit) definitions of
        Some d \<Rightarrow> Inr d | None \<Rightarrow> throw ''Unsupported measurement metric/unit pair'')"

definition quality_of :: "jval \<Rightarrow> quality result" where
  "quality_of v = (if v = JStr (js ''measured'') then Inr Measured else if v = JStr (js ''invalid'') then Inr Invalid
     else throw ''Invalid measurement quality'')"

definition out_of_range :: "measurement_definition \<Rightarrow> jnum \<Rightarrow> bool" where
  "out_of_range d x \<longleftrightarrow> (case md_minimum d of Some a \<Rightarrow> jless x a | None \<Rightarrow> False)
     \<or> (case md_maximum d of Some b \<Rightarrow> jless b x | None \<Rightarrow> False)"

definition check_value :: "measurement_definition \<Rightarrow> quality \<Rightarrow> jval \<Rightarrow> jnum option result" where
  "check_value d q v =
     (if q = Measured then
        (case finite_number v of
           None \<Rightarrow> throw ''Measured value must be finite''
         | Some x \<Rightarrow> if out_of_range d x then throw ''Measurement value is outside the metric range'' else Inr (Some x))
      else if v \<noteq> Null then throw ''Invalid measurements must not contain a numeric value'' else Inr None)"

definition validateGenericMeasurement ::
  "(jstr \<Rightarrow> int option) \<Rightarrow> measurement_definition list \<Rightarrow> jval \<Rightarrow> generic_measurement result" where
  "validateGenericMeasurement host definitions input =
     (case plain_object input of
        None \<Rightarrow> throw ''Expected a generic measurement''
      | Some ob \<Rightarrow>
          (let v = (\<lambda>k. own ob (js k)) in
           and_then (requires (v ''schemaVersion'' = Undefined \<or> same_primitive (v ''schemaVersion'') (JNum (Fin 1)))
             ''Unsupported generic measurement schema version'') (\<lambda>_.
           and_then (identifier_of ''tenantId'' (v ''tenantId'')) (\<lambda>tenantId.
           and_then (identifier_of ''siteId'' (v ''siteId'')) (\<lambda>siteId.
           and_then (identifier_of ''deviceId'' (v ''deviceId'')) (\<lambda>deviceId.
           and_then (identifier_of ''componentId'' (v ''componentId'')) (\<lambda>componentId.
           and_then (identifier_of ''channel'' (v ''channel'')) (\<lambda>channel.
           and_then (identifier_of ''source'' (v ''source'')) (\<lambda>source.
           and_then (identifier_of ''provenance'' (v ''provenance'')) (\<lambda>provenance.
           and_then (identifier_of ''sampleId'' (v ''sampleId'')) (\<lambda>sampleId.
           and_then (if v ''physicalDeviceId'' = Null then Inr None
             else and_then (identifier_of ''physicalDeviceId'' (v ''physicalDeviceId'')) (\<lambda>i. Inr (Some i))) (\<lambda>physicalDeviceId.
           and_then (text_of_form metric_form ''Invalid measurement metric'' (v ''metric'')) (\<lambda>metric.
           and_then (text_of_form unit_form ''Invalid measurement unit'' (v ''unit'')) (\<lambda>unit.
           and_then (find_definition definitions metric unit) (\<lambda>d.
           and_then (quality_of (v ''quality'')) (\<lambda>q.
           and_then (check_value d q (v ''value'')) (\<lambda>x.
           and_then (canonicalUtcInstant host (v ''observedAt'') ''observedAt'') (\<lambda>observedAt.
           and_then (canonicalUtcInstant host (v ''receivedAt'') ''receivedAt'') (\<lambda>receivedAt.
           and_then (requires (\<not> too_far_ahead host observedAt receivedAt)
             ''Measurement observedAt is too far in the future'') (\<lambda>_.
             Inr \<lparr>gm_tenantId = tenantId, gm_siteId = siteId, gm_deviceId = deviceId,
               gm_physicalDeviceId = physicalDeviceId, gm_componentId = componentId, gm_channel = channel,
               gm_metric = metric, gm_unit = unit, gm_value = x, gm_quality = q, gm_source = source,
               gm_provenance = provenance, gm_sampleId = sampleId, gm_observedAt = observedAt,
               gm_receivedAt = receivedAt\<rparr>))))))))))))))))))))"

subsection \<open>What a validated measurement satisfies\<close>

definition gm_identifiers :: "generic_measurement \<Rightarrow> jstr list" where
  "gm_identifiers m = [gm_tenantId m, gm_siteId m, gm_deviceId m, gm_componentId m, gm_channel m, gm_source m,
     gm_provenance m, gm_sampleId m]"

definition value_fits :: "measurement_definition \<Rightarrow> generic_measurement \<Rightarrow> bool" where
  "value_fits d m \<longleftrightarrow> md_metric d = gm_metric m \<and> md_unit d = gm_unit m
     \<and> (case gm_value m of None \<Rightarrow> gm_quality m = Invalid
          | Some x \<Rightarrow> gm_quality m = Measured \<and> is_finite x \<and> \<not> out_of_range d x)"

definition measurement_ok :: "(jstr \<Rightarrow> int option) \<Rightarrow> measurement_definition list \<Rightarrow> generic_measurement \<Rightarrow> bool" where
  "measurement_ok host definitions m \<longleftrightarrow>
     list_all (token identifier_char 160) (gm_identifiers m) \<and> pred_option (token identifier_char 160) (gm_physicalDeviceId m)
     \<and> metric_form (gm_metric m) \<and> unit_form (gm_unit m)
     \<and> (\<exists>d. find_definition definitions (gm_metric m) (gm_unit m) = Inr d \<and> value_fits d m)
     \<and> canonicalUtcInstant host (JStr (gm_observedAt m)) ''observedAt'' = Inr (gm_observedAt m)
     \<and> canonicalUtcInstant host (JStr (gm_receivedAt m)) ''receivedAt'' = Inr (gm_receivedAt m)
     \<and> \<not> too_far_ahead host (gm_observedAt m) (gm_receivedAt m)"

definition measurement_value :: "generic_measurement \<Rightarrow> jval" where
  "measurement_value m = JObj [(js ''schemaVersion'', JNum (Fin 1)), (js ''tenantId'', JStr (gm_tenantId m)),
     (js ''siteId'', JStr (gm_siteId m)), (js ''deviceId'', JStr (gm_deviceId m)),
     (js ''physicalDeviceId'', case gm_physicalDeviceId m of Some p \<Rightarrow> JStr p | None \<Rightarrow> Null),
     (js ''componentId'', JStr (gm_componentId m)), (js ''channel'', JStr (gm_channel m)),
     (js ''metric'', JStr (gm_metric m)), (js ''unit'', JStr (gm_unit m)),
     (js ''value'', case gm_value m of Some x \<Rightarrow> JNum x | None \<Rightarrow> Null),
     (js ''quality'', JStr (case gm_quality m of Measured \<Rightarrow> js ''measured'' | Invalid \<Rightarrow> js ''invalid'')),
     (js ''source'', JStr (gm_source m)), (js ''provenance'', JStr (gm_provenance m)),
     (js ''sampleId'', JStr (gm_sampleId m)), (js ''observedAt'', JStr (gm_observedAt m)),
     (js ''receivedAt'', JStr (gm_receivedAt m))]"

lemma measurement_parts:
  "identifier_of k v = Inr s \<longleftrightarrow> v = JStr s \<and> token identifier_char 160 s"
  "text_of_form form msg v = Inr s \<longleftrightarrow> v = JStr s \<and> form s"
  "find_definition ds metric unit = Inr d \<Longrightarrow> d \<in> set ds \<and> md_metric d = metric \<and> md_unit d = unit"
  by (cases v; auto simp: identifier_of_def text_of_form_def)
    (auto simp: find_definition_def text_of_form_def dest: find_SomeD split: option.splits)

lemma check_value_fits:
  assumes "check_value d q v = Inr x" "gm_quality m = q" "gm_value m = x" "md_metric d = gm_metric m" "md_unit d = gm_unit m"
  shows "value_fits d m"
  using assms by (cases q) (auto simp: check_value_def value_fits_def finite_number_Some dest: sym split: option.splits if_splits)

lemma canonicalUtcInstant_fixed:
  "canonicalUtcInstant host v name = Inr r \<Longrightarrow> canonicalUtcInstant host (JStr r) name = Inr r"
  unfolding canonicalUtcInstant_def by (erule utc_instant_canonical)
lemma validated_measurement_ok:
  assumes "validateGenericMeasurement host definitions v = Inr m"
  shows "measurement_ok host definitions m"
proof -
  from assms obtain ob where "v = JObj ob" by (cases v) (auto simp: validateGenericMeasurement_def)
  define p where "p = (\<lambda>k. own ob (js k))"
  from assms obtain d where
    ids: "list_all (token identifier_char 160) (gm_identifiers m)" and
    phys: "pred_option (token identifier_char 160) (gm_physicalDeviceId m)" and
    forms: "metric_form (gm_metric m)" "unit_form (gm_unit m)" and
    d: "find_definition definitions (gm_metric m) (gm_unit m) = Inr d"
      "check_value d (gm_quality m) (p ''value'') = Inr (gm_value m)" and
    ts: "canonicalUtcInstant host (p ''observedAt'') ''observedAt'' = Inr (gm_observedAt m)"
      "canonicalUtcInstant host (p ''receivedAt'') ''receivedAt'' = Inr (gm_receivedAt m)"
      "\<not> too_far_ahead host (gm_observedAt m) (gm_receivedAt m)"
    unfolding \<open>v = JObj ob\<close> validateGenericMeasurement_def plain_object.simps option.case p_def [symmetric]
    by (auto simp: and_then_Inr_iff Let_def measurement_parts(1,2) gm_identifiers_def split: if_splits)
  have "value_fits d m"
    using check_value_fits [OF d(2) refl refl] measurement_parts(3) [OF d(1)] by simp
  then show ?thesis
    using ids phys forms d(1) ts(3) canonicalUtcInstant_fixed [OF ts(1)] canonicalUtcInstant_fixed [OF ts(2)]
    by (auto simp: measurement_ok_def)
qed

lemma ok_measurement_validates:
  assumes "measurement_ok host definitions m"
  shows "validateGenericMeasurement host definitions (measurement_value m) = Inr m"
proof -
  define p where "p = (\<lambda>k. get_prop (measurement_value m) k)"
  have p: "p ''schemaVersion'' = JNum (Fin 1)" "p ''tenantId'' = JStr (gm_tenantId m)" "p ''siteId'' = JStr (gm_siteId m)"
    "p ''deviceId'' = JStr (gm_deviceId m)" "p ''componentId'' = JStr (gm_componentId m)"
    "p ''channel'' = JStr (gm_channel m)" "p ''metric'' = JStr (gm_metric m)" "p ''unit'' = JStr (gm_unit m)"
    "p ''source'' = JStr (gm_source m)" "p ''provenance'' = JStr (gm_provenance m)" "p ''sampleId'' = JStr (gm_sampleId m)"
    "p ''observedAt'' = JStr (gm_observedAt m)" "p ''receivedAt'' = JStr (gm_receivedAt m)"
    "p ''physicalDeviceId'' = (case gm_physicalDeviceId m of Some p \<Rightarrow> JStr p | None \<Rightarrow> Null)"
    "p ''value'' = (case gm_value m of Some x \<Rightarrow> JNum x | None \<Rightarrow> Null)"
    "p ''quality'' = JStr (case gm_quality m of Measured \<Rightarrow> js ''measured'' | Invalid \<Rightarrow> js ''invalid'')"
    by (simp_all add: p_def get_prop_def measurement_value_def own_simps)
  obtain ob where ob: "measurement_value m = JObj ob" by (simp add: measurement_value_def)
  then have own: "own ob (js k) = p k" for k by (simp add: p_def get_prop_def)
  from assms obtain d where d: "find_definition definitions (gm_metric m) (gm_unit m) = Inr d" "value_fits d m"
    by (auto simp: measurement_ok_def)
  have q: "quality_of (p ''quality'') = Inr (gm_quality m)"
    by (cases "gm_quality m") (simp_all add: quality_of_def p(16))
  have x: "check_value d (gm_quality m) (p ''value'') = Inr (gm_value m)"
    using d(2) by (cases "gm_value m") (auto simp: check_value_def value_fits_def finite_number_def p(15))
  have ids: "identifier_of k (JStr s) = Inr s" if "token identifier_char 160 s" for k s
    using that by (simp add: measurement_parts)
  have phys: "(if p ''physicalDeviceId'' = Null then Inr None
      else and_then (identifier_of ''physicalDeviceId'' (p ''physicalDeviceId'')) (\<lambda>i. Inr (Some i)))
      = Inr (gm_physicalDeviceId m)"
    using assms by (cases "gm_physicalDeviceId m") (simp_all add: p(14) ids measurement_ok_def)
  have forms: "text_of_form metric_form msg (JStr (gm_metric m)) = Inr (gm_metric m)"
    "text_of_form unit_form msg (JStr (gm_unit m)) = Inr (gm_unit m)" for msg
    using assms by (simp_all add: measurement_parts measurement_ok_def)
  show ?thesis
    unfolding validateGenericMeasurement_def ob plain_object.simps option.case Let_def own phys q
    using assms by (simp add: p(1-13) ids forms d(1) x measurement_ok_def gm_identifiers_def)
qed

text \<open>A validated measurement, published and validated again, is the same measurement; its metric and unit
  are registered together, its value is present exactly when measured, and then finite and in the range
  of the definition.\<close>

lemma validated_measurement_is_fixed:
  assumes "validateGenericMeasurement host definitions v = Inr m"
  shows "validateGenericMeasurement host definitions (measurement_value m) = Inr m
    \<and> list_ex (\<lambda>d. value_fits d m) definitions"
  using ok_measurement_validates [OF validated_measurement_ok [OF assms]] validated_measurement_ok [OF assms]
    measurement_parts(3)
  by (auto simp: measurement_ok_def list_ex_iff)

subsection \<open>The registry\<close>

definition definition_ok :: "measurement_definition \<Rightarrow> bool" where
  "definition_ok d \<longleftrightarrow> metric_form (md_metric d) \<and> unit_form (md_unit d)
     \<and> pred_option is_finite (md_minimum d) \<and> pred_option is_finite (md_maximum d)
     \<and> (case (md_minimum d, md_maximum d) of (Some a, Some b) \<Rightarrow> jle a b | _ \<Rightarrow> True)"

definition registry_ok :: "measurement_definition list \<Rightarrow> bool" where
  "registry_ok ds \<longleftrightarrow> distinct (map md_metric ds) \<and> list_all definition_ok ds"

lemma not_bad_iff:
  "\<not> bad_definition ds d \<longleftrightarrow> definition_ok d \<and> md_metric d \<notin> md_metric ` set ds"
proof -
  have "\<not> jless b a \<longleftrightarrow> jle a b" if "is_finite a" "is_finite b" for a b
    using that by (auto simp: is_finite_iff)
  then show ?thesis
    by (auto simp: bad_definition_def definition_ok_def list_ex_iff image_iff split: option.splits)
qed

lemma extend_definitions_iff:
  "extend_definitions ds items = Inr es \<longleftrightarrow> es = ds @ items \<and> list_all definition_ok items
     \<and> distinct (map md_metric items) \<and> md_metric ` set items \<inter> md_metric ` set ds = {}"
proof (induction items arbitrary: ds)
  case (Cons d items)
  show ?case
  proof (cases "bad_definition ds d")
    case True
    then show ?thesis using not_bad_iff [of ds d] by auto
  next
    case False
    then show ?thesis using not_bad_iff [of ds d] Cons [of "ds @ [d]"] by auto
  qed
qed auto

lemma fl_273: "fl (- (5463 / 20)) = Fin (- (2402652809016115 / 8796093022208))"
  by code_simp

lemma core_registry_ok: "registry_ok CORE_MEASUREMENT_DEFINITIONS"
proof -
  have "metric_form (js ''temperature'')" "metric_form (js ''humidity'')" "metric_form (js ''pressure'')"
    "metric_form (js ''power'')" "unit_form (js ''Cel'')" "unit_form (js ''%RH'')" "unit_form (js ''hPa'')" "unit_form (js ''W'')"
    by code_simp+
  then show ?thesis
    by (simp add: registry_ok_def CORE_MEASUREMENT_DEFINITIONS_def definition_ok_def fl_273 del: js_eq_Nil) 
qed

text \<open>C24. Extending the registry succeeds exactly when the additions are well formed, name each metric once and
  none the core defines; the result is the core followed by them, in which a metric has one definition.\<close>

theorem registry_extension:
  "extendMeasurementDefinitions additions = Inr ds
     \<longleftrightarrow> ds = CORE_MEASUREMENT_DEFINITIONS @ additions \<and> registry_ok ds"
proof -
  have dist: "distinct (map md_metric (xs @ ys)) \<longleftrightarrow> distinct (map md_metric xs) \<and> distinct (map md_metric ys)
      \<and> md_metric ` set ys \<inter> md_metric ` set xs = {}" for xs ys :: "measurement_definition list"
    by (auto simp only: map_append distinct_append set_map)
  have "registry_ok (CORE_MEASUREMENT_DEFINITIONS @ additions) \<longleftrightarrow> list_all definition_ok additions
      \<and> distinct (map md_metric additions) \<and> md_metric ` set additions \<inter> md_metric ` set CORE_MEASUREMENT_DEFINITIONS = {}"
    using core_registry_ok unfolding registry_ok_def dist list_all_append by blast
  then show ?thesis unfolding extendMeasurementDefinitions_def extend_definitions_iff by blast
qed

definition demo_measurement :: generic_measurement where
  "demo_measurement = \<lparr>gm_tenantId = js ''t'', gm_siteId = js ''s'', gm_deviceId = js ''d'', gm_physicalDeviceId = None,
     gm_componentId = js ''c'', gm_channel = js ''0'', gm_metric = js ''humidity'', gm_unit = js ''%RH'',
     gm_value = Some (Fin 40), gm_quality = Measured, gm_source = js ''m'', gm_provenance = js ''p'',
     gm_sampleId = js ''1'', gm_observedAt = iso_string 0, gm_receivedAt = iso_string 0\<rparr>"

lemma validated_measurement_is_fixed_example:
  "validateGenericMeasurement (\<lambda>_. None) CORE_MEASUREMENT_DEFINITIONS (measurement_value demo_measurement) = Inr demo_measurement"
proof -
  have "canonicalUtcInstant (\<lambda>_. None) (JStr (iso_string 0)) name = Inr (iso_string 0)" for name
    using parse_iso_string [OF epoch_common] by (simp add: canonicalUtcInstant_def utc_instant_Inr)
  moreover have "\<not> too_far_ahead (\<lambda>_. None) (iso_string 0) (iso_string 0)"
    using jadd_int [of 0 300000] by (simp add: too_far_ahead_def time_num_def time_in_range_def safe_int_def)
  moreover have "metric_form (js ''humidity'')" "unit_form (js ''%RH'')" by code_simp+
  moreover have "list_all (token identifier_char 160) (map js [''t'', ''s'', ''d'', ''c'', ''0'', ''m'', ''p'', ''1''])" by code_simp
  ultimately have "measurement_ok (\<lambda>_. None) CORE_MEASUREMENT_DEFINITIONS demo_measurement"
    by (simp add: measurement_ok_def demo_measurement_def gm_identifiers_def find_definition_def
        CORE_MEASUREMENT_DEFINITIONS_def value_fits_def out_of_range_def)
  from validated_measurement_is_fixed [OF ok_measurement_validates [OF this]] show ?thesis by blast
qed

end
