(* ===== verification/Diagnostics.thy ===== *)
theory Diagnostics
  imports DeviceControl
begin

text \<open>
  The connection report of a device, \<open>libs/domain-devices/src/lib/device-diagnostics.ts\<close>: the evidence the
  probes collected, one check per kind of evidence, and the verdict, the first case of a fixed priority
  that applies.  \<open>new URL\<close> is a parameter.  An optional or nullable boolean of the code is a
  \<open>bool option\<close>: the code only compares it with \<open>true\<close> and \<open>false\<close>.

  The lemmas show when each check passes, exactly when the verdict is that the checks passed, and when
  two broker addresses count as the same endpoint.
\<close>

subsection \<open>Evidence and report\<close>

datatype probe_status = Observed | Unavailable | AuthRequired | Skipped

record 'a probe =
  pr_status :: probe_status
  pr_checkedAt :: jstr
  pr_value :: "'a option"

datatype check_status = Passed | Failed | Warning | Unknown

record diagnostic_check =
  ck_id :: jstr
  ck_label :: jstr
  ck_status :: check_status
  ck_detail :: jstr
  ck_checkedAt :: jstr

record diagnostic_command =
  dc_action :: jstr
  dc_outcome :: jstr
  dc_requestedAt :: jstr
  dc_publishedAt :: "jstr option"
  dc_completedAt :: "jstr option"

datatype transport = ViaMqtt | ViaHttp | NoTransport

datatype listener = ListenerRunning | ListenerStopped | ListenerDisabled | ListenerUnknown

record mqtt_config =
  mc_enabled :: "bool option"
  mc_rpcEnabled :: "bool option"
  mc_notificationsEnabled :: "bool option"
  mc_topic :: "jstr option"
  mc_broker :: "jstr option"

record connection_evidence =
  ce_deviceId :: jstr
  ce_checkedAt :: jstr
  ce_transport :: transport
  ce_controlEnabled :: bool
  ce_readingsSource :: jstr
  ce_lastTelemetryAt :: "jstr option"
  ce_identity :: "bool probe"
  ce_relay :: "bool probe"
  ce_mqttConfig :: "mqtt_config probe"
  ce_mqttStatus :: "bool option probe"
  ce_expectedTopic :: "jstr option"
  ce_expectedBroker :: jstr
  ce_listener :: listener
  ce_sharedTopic :: bool
  ce_lastCommand :: "diagnostic_command option"

record verdict =
  vd_code :: jstr
  vd_title :: jstr
  vd_summary :: jstr
  vd_nextAction :: jstr

record connection_report =
  cr_deviceId :: jstr
  cr_checkedAt :: jstr
  cr_readOnly :: bool
  cr_verdict :: verdict
  cr_checks :: "diagnostic_check list"
  cr_currentRelay :: "(bool \<times> jstr) option"
  cr_lastCommand :: "diagnostic_command option"

subsection \<open>Broker endpoints\<close>

text \<open>
  The hostname of a parsed URL is ASCII, so \<open>toLowerCase\<close> is the ASCII mapping \<open>to_lower\<close> on it; \<open>toUpperCase\<close> is
  applied to the transport only.
\<close>

definition to_upper :: "jstr \<Rightarrow> jstr" where
  "to_upper = map (\<lambda>c. if 97 \<le> c \<and> c \<le> 122 then c - 32 else c)"

record broker_url = url +
  url_port :: jstr

definition broker_url_ok :: "broker_url \<Rightarrow> bool" where
  "broker_url_ok u \<longleftrightarrow>
     url_protocol u \<in> {js ''mqtt:'', js ''mqtts:'', js ''ssl:''}
     \<and> url_username u = [] \<and> url_password u = [] \<and> url_hostname u \<noteq> []
     \<and> url_search u = [] \<and> url_hash u = []
     \<and> (url_pathname u = [] \<or> url_pathname u = js ''/'')"

definition endpoint_protocol :: "broker_url \<Rightarrow> jstr" where
  "endpoint_protocol u = (if url_protocol u = js ''ssl:'' then js ''mqtts:'' else url_protocol u)"

definition endpoint_port :: "broker_url \<Rightarrow> jstr" where
  "endpoint_port u =
     (if url_port u \<noteq> [] then url_port u
      else if url_protocol u = js ''mqtt:'' then js ''1883'' else js ''8883'')"

definition brokerEndpoint :: "(jstr \<Rightarrow> broker_url option) \<Rightarrow> jstr \<Rightarrow> jstr option" where
  "brokerEndpoint parse_url value =
     (case parse_url (if includes_str value (js ''://'') then value else js ''mqtt://'' @ value) of
        None \<Rightarrow> None
      | Some u \<Rightarrow>
          if \<not> broker_url_ok u then None
          else Some (endpoint_protocol u @ js ''//'' @ to_lower (url_hostname u) @ js '':'' @ endpoint_port u))"

subsection \<open>What the evidence establishes\<close>

definition id_matched :: "connection_evidence \<Rightarrow> bool" where
  "id_matched e \<longleftrightarrow> pr_status (ce_identity e) = Observed \<and> pr_value (ce_identity e) = Some True"

definition known_config :: "connection_evidence \<Rightarrow> mqtt_config option" where
  "known_config e =
     (if id_matched e \<and> pr_status (ce_mqttConfig e) = Observed then pr_value (ce_mqttConfig e) else None)"

text \<open>\<open>config?.field\<close>.\<close>

definition config_field :: "(mqtt_config \<Rightarrow> 'a option) \<Rightarrow> connection_evidence \<Rightarrow> 'a option" where
  "config_field f e = Option.bind (known_config e) f"

definition known_connected :: "connection_evidence \<Rightarrow> bool option" where
  "known_connected e =
     (if id_matched e \<and> pr_status (ce_mqttStatus e) = Observed
      then Option.bind (pr_value (ce_mqttStatus e)) id else None)"

definition known_relay :: "connection_evidence \<Rightarrow> bool option" where
  "known_relay e = (if pr_status (ce_relay e) = Observed then pr_value (ce_relay e) else None)"

definition broker_match :: "(jstr \<Rightarrow> broker_url option) \<Rightarrow> connection_evidence \<Rightarrow> bool option" where
  "broker_match parse_url e =
     (let actual = (case config_field mc_broker e of
                      None \<Rightarrow> None
                    | Some b \<Rightarrow> if b = [] then None else brokerEndpoint parse_url b);
          expected = brokerEndpoint parse_url (ce_expectedBroker e)
      in case (actual, expected) of
           (Some a, Some x) \<Rightarrow> Some (a = x)
         | _ \<Rightarrow> None)"

fun tri_status :: "check_status \<Rightarrow> bool option \<Rightarrow> check_status" where
  "tri_status no (Some True) = Passed"
| "tri_status no (Some False) = no"
| "tri_status no None = Unknown"

fun tri_text :: "bool option \<Rightarrow> jstr \<Rightarrow> jstr \<Rightarrow> jstr \<Rightarrow> jstr" where
  "tri_text (Some True) yes no unknown = yes"
| "tri_text (Some False) yes no unknown = no"
| "tri_text None yes no unknown = unknown"

fun transport_str :: "transport \<Rightarrow> jstr" where
  "transport_str ViaMqtt = js ''mqtt''"
| "transport_str ViaHttp = js ''http''"
| "transport_str NoTransport = js ''none''"

fun listener_str :: "listener \<Rightarrow> jstr" where
  "listener_str ListenerRunning = js ''running''"
| "listener_str ListenerStopped = js ''stopped''"
| "listener_str ListenerDisabled = js ''disabled''"
| "listener_str ListenerUnknown = js ''unknown''"

text \<open>A nullable string used as a condition: the empty string counts as absent.\<close>

fun truthy_str :: "jstr option \<Rightarrow> jstr option" where
  "truthy_str None = None"
| "truthy_str (Some s) = (if s = [] then None else Some s)"

subsection \<open>The checks\<close>

definition identity_check :: "connection_evidence \<Rightarrow> diagnostic_check" where
  "identity_check e =
     \<lparr>ck_id = js ''identity'', ck_label = js ''Device over HTTP'',
      ck_status = (if id_matched e then Passed
                   else if pr_status (ce_identity e) = Observed then Failed else Unknown),
      ck_detail =
        (if id_matched e then js ''The expected Shelly answered. It is reachable over HTTP.''
         else case pr_status (ce_identity e) of
           Observed \<Rightarrow> js ''This address answered as a different device. Further checks were stopped.''
         | AuthRequired \<Rightarrow> js ''The device requires HTTP authentication. Reachability and identity could not both be verified.''
         | Skipped \<Rightarrow> js ''No verified local HTTP address is available for this device.''
         | Unavailable \<Rightarrow> js ''No valid identity response. This does not prove the device is offline.''),
      ck_checkedAt = pr_checkedAt (ce_identity e)\<rparr>"

definition route_check :: "connection_evidence \<Rightarrow> diagnostic_check" where
  "route_check e =
     \<lparr>ck_id = js ''route'', ck_label = js ''Control route'',
      ck_status = (if ce_transport e = NoTransport \<or> \<not> ce_controlEnabled e then Warning else Passed),
      ck_detail =
        (if ce_transport e = NoTransport then js ''No explicit control route is configured.''
         else to_upper (transport_str (ce_transport e)) @ js '' control is configured; switching is ''
              @ (if ce_controlEnabled e then js ''allowed'' else js ''disabled'') @ js ''.''),
      ck_checkedAt = ce_checkedAt e\<rparr>"

definition readings_check :: "connection_evidence \<Rightarrow> diagnostic_check" where
  "readings_check e =
     \<lparr>ck_id = js ''readings'', ck_label = js ''Readings'',
      ck_status = (case truthy_str (ce_lastTelemetryAt e) of Some _ \<Rightarrow> Warning | None \<Rightarrow> Unknown),
      ck_detail =
        (case truthy_str (ce_lastTelemetryAt e) of
           Some t \<Rightarrow> ce_readingsSource e @ js '': last recorded observation '' @ t
                     @ js ''. This is not a live connectivity check.''
         | None \<Rightarrow> ce_readingsSource e @ js '': no readings recorded. Missing readings do not mean offline.''),
      ck_checkedAt = ce_checkedAt e\<rparr>"

definition relay_check :: "connection_evidence \<Rightarrow> diagnostic_check" where
  "relay_check e =
     \<lparr>ck_id = js ''relay'', ck_label = js ''Relay now'',
      ck_status = (case known_relay e of Some _ \<Rightarrow> Passed | None \<Rightarrow> Unknown),
      ck_detail =
        (case known_relay e of
           Some on \<Rightarrow> js ''The relay reports '' @ (if on then js ''On'' else js ''Off'')
                      @ js '' now. This does not establish what happened to an earlier command.''
         | None \<Rightarrow> js ''The relay state could not be read.''),
      ck_checkedAt = pr_checkedAt (ce_relay e)\<rparr>"

definition enabled_check :: "connection_evidence \<Rightarrow> diagnostic_check" where
  "enabled_check e =
     \<lparr>ck_id = js ''mqtt-enabled'', ck_label = js ''MQTT on device'',
      ck_status = tri_status Failed (config_field mc_enabled e),
      ck_detail = tri_text (config_field mc_enabled e)
        (js ''MQTT is enabled on the Shelly.'')
        (js ''MQTT is disabled on the Shelly. It cannot receive MQTT commands while disabled.'')
        (js ''The device MQTT settings could not be verified.''),
      ck_checkedAt = pr_checkedAt (ce_mqttConfig e)\<rparr>"

definition connected_check :: "connection_evidence \<Rightarrow> diagnostic_check" where
  "connected_check e =
     \<lparr>ck_id = js ''mqtt-connected'', ck_label = js ''Device broker connection'',
      ck_status = tri_status Failed (known_connected e),
      ck_detail = tri_text (known_connected e)
        (js ''The Shelly reports an active MQTT connection.'')
        (js ''The Shelly reports that MQTT is disconnected.'')
        (js ''The Shelly broker connection could not be verified.''),
      ck_checkedAt = pr_checkedAt (ce_mqttStatus e)\<rparr>"

definition broker_check :: "(jstr \<Rightarrow> broker_url option) \<Rightarrow> connection_evidence \<Rightarrow> diagnostic_check" where
  "broker_check parse_url e =
     \<lparr>ck_id = js ''broker'', ck_label = js ''Broker address'',
      ck_status = tri_status Failed (broker_match parse_url e),
      ck_detail =
        (case config_field mc_broker e of
           Some b \<Rightarrow> js ''Device: '' @ b @ js ''. Energrid: '' @ ce_expectedBroker e @ js ''.''
             @ (if broker_match parse_url e = Some True then []
                else js '' These configured addresses differ; aliases have not been resolved.'')
         | None \<Rightarrow> js ''The device broker address could not be verified.''),
      ck_checkedAt = pr_checkedAt (ce_mqttConfig e)\<rparr>"

definition topic_check :: "connection_evidence \<Rightarrow> diagnostic_check" where
  "topic_check e =
     \<lparr>ck_id = js ''topic'', ck_label = js ''Command topic'',
      ck_status = (case config_field mc_topic e of
                     None \<Rightarrow> Unknown
                   | Some t \<Rightarrow> if Some t = ce_expectedTopic e then Passed else Failed),
      ck_detail =
        (case config_field mc_topic e of
           Some t \<Rightarrow> js ''Device is configured for '' @ t @ js ''; Energrid uses ''
             @ (case truthy_str (ce_expectedTopic e) of Some x \<Rightarrow> x | None \<Rightarrow> js ''no topic'') @ js ''.''
         | None \<Rightarrow> js ''The device command topic could not be verified.''),
      ck_checkedAt = pr_checkedAt (ce_mqttConfig e)\<rparr>"

definition rpc_check :: "connection_evidence \<Rightarrow> diagnostic_check" where
  "rpc_check e =
     \<lparr>ck_id = js ''rpc'', ck_label = js ''MQTT commands'',
      ck_status = tri_status Failed (config_field mc_rpcEnabled e),
      ck_detail = tri_text (config_field mc_rpcEnabled e)
        (js ''RPC over MQTT is enabled.'')
        (js ''RPC over MQTT is disabled on the Shelly.'')
        (js ''RPC over MQTT could not be verified.''),
      ck_checkedAt = pr_checkedAt (ce_mqttConfig e)\<rparr>"

definition notifications_check :: "connection_evidence \<Rightarrow> diagnostic_check" where
  "notifications_check e =
     \<lparr>ck_id = js ''notifications'', ck_label = js ''Device status notifications'',
      ck_status = tri_status Warning (config_field mc_notificationsEnabled e),
      ck_detail = tri_text (config_field mc_notificationsEnabled e)
        (js ''MQTT status notifications are enabled.'')
        (js ''Both MQTT status notification options are disabled. Command confirmation can be missing.'')
        (js ''Status notification settings could not be verified.''),
      ck_checkedAt = pr_checkedAt (ce_mqttConfig e)\<rparr>"

definition listener_check :: "connection_evidence \<Rightarrow> diagnostic_check" where
  "listener_check e =
     \<lparr>ck_id = js ''listener'', ck_label = js ''Energrid MQTT listener'',
      ck_status = (case ce_listener e of
                     ListenerRunning \<Rightarrow> Passed | ListenerUnknown \<Rightarrow> Unknown | _ \<Rightarrow> Failed),
      ck_detail =
        (if ce_listener e = ListenerRunning
         then js ''The listener is running. This alone does not prove this device is sending readings.''
         else js ''The listener is '' @ listener_str (ce_listener e) @ js ''.''),
      ck_checkedAt = ce_checkedAt e\<rparr>"

definition shared_topic_check :: "connection_evidence \<Rightarrow> diagnostic_check" where
  "shared_topic_check e =
     \<lparr>ck_id = js ''shared-topic'', ck_label = js ''Shared command topic'', ck_status = Warning,
      ck_detail = js ''Another approved physical device uses this command topic. Verify device-specific routing before testing any switch.'',
      ck_checkedAt = ce_checkedAt e\<rparr>"

definition last_command_check :: "diagnostic_command \<Rightarrow> diagnostic_check" where
  "last_command_check c =
     \<lparr>ck_id = js ''last-command'', ck_label = js ''Last command'',
      ck_status = (if dc_outcome c = js ''settled'' then Passed else Warning),
      ck_detail =
        (if dc_outcome c = js ''settled''
         then js ''Recorded state confirmation is available in execution history.''
         else dc_action c @ js '': '' @ dc_outcome c @ js ''. ''
              @ (case truthy_str (dc_publishedAt c) of
                   Some _ \<Rightarrow> js ''Publication completed, but publication alone does not prove device receipt.''
                 | None \<Rightarrow> js ''No completed publication is recorded.'')
              @ js '' Current checks cannot reconstruct an unconfirmed past action.''),
      ck_checkedAt = (case truthy_str (dc_completedAt c) of Some t \<Rightarrow> t | None \<Rightarrow> dc_requestedAt c)\<rparr>"

definition mqtt_checks :: "(jstr \<Rightarrow> broker_url option) \<Rightarrow> connection_evidence \<Rightarrow> diagnostic_check list" where
  "mqtt_checks parse_url e =
     (if ce_transport e = ViaMqtt
      then [enabled_check e, connected_check e, broker_check parse_url e, topic_check e, rpc_check e,
            notifications_check e, listener_check e]
           @ (if ce_sharedTopic e then [shared_topic_check e] else [])
      else [])"

definition connection_checks :: "(jstr \<Rightarrow> broker_url option) \<Rightarrow> connection_evidence \<Rightarrow> diagnostic_check list" where
  "connection_checks parse_url e =
     [identity_check e, route_check e, readings_check e]
     @ (if id_matched e then [relay_check e] else [])
     @ mqtt_checks parse_url e
     @ (case ce_lastCommand e of None \<Rightarrow> [] | Some c \<Rightarrow> [last_command_check c])"

subsection \<open>The verdict\<close>

definition status_of :: "diagnostic_check list \<Rightarrow> string \<Rightarrow> check_status option" where
  "status_of checks i = map_option ck_status (find (\<lambda>c. ck_id c = js i) checks)"

abbreviation vd :: "string \<Rightarrow> string \<Rightarrow> string \<Rightarrow> jstr \<Rightarrow> verdict" where
  "vd code title summary next_action \<equiv>
     \<lparr>vd_code = js code, vd_title = js title, vd_summary = js summary, vd_nextAction = next_action\<rparr>"

definition needs_auth :: "connection_evidence \<Rightarrow> bool" where
  "needs_auth e \<longleftrightarrow> pr_status (ce_identity e) = AuthRequired \<or> pr_status (ce_relay e) = AuthRequired
     \<or> pr_status (ce_mqttConfig e) = AuthRequired \<or> pr_status (ce_mqttStatus e) = AuthRequired"

definition required_checks :: "string list" where
  "required_checks =
     [''mqtt-enabled'', ''mqtt-connected'', ''broker'', ''topic'', ''rpc'', ''notifications'', ''listener'']"

definition all_verified :: "connection_evidence \<Rightarrow> diagnostic_check list \<Rightarrow> bool" where
  "all_verified e checks \<longleftrightarrow>
     id_matched e \<and>
     (if ce_transport e = ViaHttp then pr_status (ce_relay e) = Observed
      else list_all (\<lambda>i. status_of checks i = Some Passed) required_checks)"

definition connection_verdict :: "connection_evidence \<Rightarrow> diagnostic_check list \<Rightarrow> verdict" where
  "connection_verdict e checks =
     (let mqtt = (ce_transport e = ViaMqtt);
          issue = (\<lambda>i. status_of checks i = Some Failed) in
      if pr_status (ce_identity e) = Observed \<and> \<not> id_matched e then
        vd ''identity-mismatch'' ''The address belongs to another device''
           ''The expected hardware identity was not returned. No command or configuration change was made.''
           (js ''Check the local address and hardware mapping before allowing control.'')
      else if mqtt \<and> config_field mc_enabled e = Some False then
        vd ''mqtt-disabled'' ''Device reachable, but MQTT is disabled''
           ''The Shelly answers over HTTP, but its configured MQTT control route cannot receive commands while MQTT is disabled.''
           (js ''Enable MQTT in this Shelly'' @ [8217]
            @ js ''s settings with the intended broker, or deliberately configure HTTP control instead. Then check again.'')
      else if mqtt \<and> issue ''broker'' then
        vd ''broker-mismatch'' ''Broker addresses differ''
           ''The device and Energrid name different broker endpoints. They may be aliases, but a shared broker has not been verified.''
           (js ''Verify both endpoints refer to the same broker before testing control.'')
      else if mqtt \<and> issue ''topic'' then
        vd ''topic-mismatch'' ''The command topic does not match''
           ''Energrid is configured to send to a different topic than this Shelly reports.''
           (js ''Correct the control topic to match this device'' @ [8217] @ js ''s MQTT prefix followed by /rpc.'')
      else if mqtt \<and> config_field mc_rpcEnabled e = Some False then
        vd ''rpc-disabled'' ''MQTT commands are disabled on the device''
           ''MQTT may be connected, but RPC commands are disabled in the Shelly settings.''
           (js ''Enable RPC over MQTT on this Shelly, or deliberately choose HTTP control.'')
      else if mqtt \<and> known_connected e = Some False then
        vd ''mqtt-disconnected'' ''Device reachable, MQTT disconnected''
           ''The Shelly answers over HTTP but reports no active MQTT connection.''
           (js ''Check the Shelly broker address, credentials and network connection. No retry or settings change was made.'')
      else if mqtt \<and> (ce_listener e = ListenerStopped \<or> ce_listener e = ListenerDisabled) then
        vd ''listener-unavailable'' ''Energrid is not listening for MQTT updates''
           ''The configured listener is not running. Commands cannot be confirmed from MQTT telemetry here.''
           (js ''Restore the Energrid MQTT listener and check again.'')
      else if needs_auth e then
        vd ''authentication-required'' ''HTTP authentication is required''
           ''The HTTP check was refused. The MQTT connection has not been verified by this check.''
           (js ''Configure a server-side credential reference for authenticated HTTP checks. Do not put passwords in URLs or MQTT topics.'')
      else if ce_transport e = NoTransport \<or> \<not> ce_controlEnabled e then
        vd ''control-disabled''
           (if id_matched e then ''Device reachable; control is not enabled'' else ''Control is not enabled'')
           ''Approval and permission to switch are separate. This check grants neither.''
           (js ''Review the control route and permission before testing a switch.'')
      else if mqtt \<and> config_field mc_notificationsEnabled e = Some False then
        vd ''notifications-disabled'' ''Status notifications are disabled''
           ''The device is configured not to send either MQTT status notification format. A command may execute without confirmation here.''
           (js ''Enable supported status notifications in the Shelly settings, then check telemetry.'')
      else if all_verified e checks then
        (if ce_sharedTopic e then
           vd ''shared-topic'' ''Connection checks passed; verify shared routing''
              ''The device connection is configured, but another physical device shares its command topic.''
              (js ''Verify device-specific routing before any switch test.'')
         else
           vd ''checks-passed'' ''Connection checks passed''
              ''The read-only checks passed. No switching command was sent, so command delivery has not been tested.''
              (js ''Use the device controls only when you are ready to operate this exact relay.''))
      else
        vd ''incomplete'' ''Connection not fully verified''
           ''Some evidence is unavailable. Do not assume the device is offline or that a previous command succeeded.''
           (js ''Check the unavailable items and run this check again. No switch retry is performed.''))"

definition diagnoseDeviceConnection :: "(jstr \<Rightarrow> broker_url option) \<Rightarrow> connection_evidence \<Rightarrow> connection_report" where
  "diagnoseDeviceConnection parse_url e =
     (let checks = connection_checks parse_url e in
      \<lparr>cr_deviceId = ce_deviceId e, cr_checkedAt = ce_checkedAt e, cr_readOnly = True,
       cr_verdict = connection_verdict e checks, cr_checks = checks,
       cr_currentRelay =
         (if id_matched e
          then map_option (\<lambda>on. (on, pr_checkedAt (ce_relay e))) (known_relay e) else None),
       cr_lastCommand = ce_lastCommand e\<rparr>)"

subsection \<open>Which check holds which evidence\<close>

lemmas check_defs =
  identity_check_def route_check_def readings_check_def relay_check_def enabled_check_def
  connected_check_def broker_check_def topic_check_def rpc_check_def notifications_check_def
  listener_check_def shared_topic_check_def last_command_check_def

lemma tri_status_eq [simp]:
  "tri_status no b = Passed \<longleftrightarrow> b = Some True \<or> (b = Some False \<and> no = Passed)"
  "no \<noteq> Failed \<Longrightarrow> tri_status no b \<noteq> Failed"
  "tri_status Failed b = Failed \<longleftrightarrow> b = Some False"
  by (cases "(no, b)" rule: tri_status.cases; auto)+

lemma status_of_Nil [simp]: "status_of [] i = None"
  by (simp add: status_of_def)

lemma status_of_Cons [simp]:
  "status_of (c # cs) i = (if ck_id c = js i then Some (ck_status c) else status_of cs i)"
  by (simp add: status_of_def)

lemma status_of_append [simp]:
  "status_of (as @ bs) i = (case status_of as i of Some s \<Rightarrow> Some s | None \<Rightarrow> status_of bs i)"
  by (induction as) auto

text \<open>The identifier of each check, and the status it reports.\<close>

lemma check_ids [simp]:
  "ck_id (identity_check e) = js ''identity''" "ck_id (route_check e) = js ''route''"
  "ck_id (readings_check e) = js ''readings''" "ck_id (relay_check e) = js ''relay''"
  "ck_id (enabled_check e) = js ''mqtt-enabled''" "ck_id (connected_check e) = js ''mqtt-connected''"
  "ck_id (broker_check p e) = js ''broker''" "ck_id (topic_check e) = js ''topic''"
  "ck_id (rpc_check e) = js ''rpc''" "ck_id (notifications_check e) = js ''notifications''"
  "ck_id (listener_check e) = js ''listener''" "ck_id (shared_topic_check e) = js ''shared-topic''"
  "ck_id (last_command_check c) = js ''last-command''"
  by (simp_all add: check_defs)

lemma mqtt_status_of:
  assumes "ce_transport e = ViaMqtt"
  shows "status_of (connection_checks p e) ''mqtt-enabled'' = Some (ck_status (enabled_check e))"
    and "status_of (connection_checks p e) ''mqtt-connected'' = Some (ck_status (connected_check e))"
    and "status_of (connection_checks p e) ''broker'' = Some (ck_status (broker_check p e))"
    and "status_of (connection_checks p e) ''topic'' = Some (ck_status (topic_check e))"
    and "status_of (connection_checks p e) ''rpc'' = Some (ck_status (rpc_check e))"
    and "status_of (connection_checks p e) ''notifications'' = Some (ck_status (notifications_check e))"
    and "status_of (connection_checks p e) ''listener'' = Some (ck_status (listener_check e))"
  using assms by (simp_all add: connection_checks_def mqtt_checks_def)

text \<open>The evidence an MQTT route needs, read off the probes.\<close>

definition mqtt_verified :: "(jstr \<Rightarrow> broker_url option) \<Rightarrow> connection_evidence \<Rightarrow> bool" where
  "mqtt_verified p e \<longleftrightarrow>
     config_field mc_enabled e = Some True \<and> known_connected e = Some True
     \<and> broker_match p e = Some True
     \<and> config_field mc_topic e \<noteq> None \<and> config_field mc_topic e = ce_expectedTopic e
     \<and> config_field mc_rpcEnabled e = Some True \<and> config_field mc_notificationsEnabled e = Some True
     \<and> ce_listener e = ListenerRunning"

lemma all_verified_mqtt:
  assumes "ce_transport e = ViaMqtt"
  shows "all_verified e (connection_checks p e) \<longleftrightarrow> id_matched e \<and> mqtt_verified p e"
  using assms
  by (auto simp: all_verified_def mqtt_verified_def required_checks_def mqtt_status_of [OF assms]
        enabled_check_def connected_check_def broker_check_def topic_check_def rpc_check_def
        notifications_check_def listener_check_def
      split: option.splits listener.splits)

lemma mqtt_verified_no_issue:
  assumes "ce_transport e = ViaMqtt" "mqtt_verified p e"
  shows "status_of (connection_checks p e) ''broker'' \<noteq> Some Failed"
    and "status_of (connection_checks p e) ''topic'' \<noteq> Some Failed"
  using assms
  by (auto simp: mqtt_verified_def mqtt_status_of broker_check_def topic_check_def split: option.splits)

definition connection_verified :: "(jstr \<Rightarrow> broker_url option) \<Rightarrow> connection_evidence \<Rightarrow> bool" where
  "connection_verified p e \<longleftrightarrow>
     id_matched e \<and> ce_controlEnabled e \<and> \<not> needs_auth e
     \<and> (case ce_transport e of
          ViaHttp \<Rightarrow> pr_status (ce_relay e) = Observed
        | ViaMqtt \<Rightarrow> mqtt_verified p e
        | NoTransport \<Rightarrow> False)"

lemma verdict_when_verified:
  assumes "connection_verified p e"
  shows "vd_code (connection_verdict e (connection_checks p e))
    = (if ce_sharedTopic e then js ''shared-topic'' else js ''checks-passed'')"
proof (cases "ce_transport e")
  case ViaMqtt
  with assms have "id_matched e" "ce_controlEnabled e" "\<not> needs_auth e" and v: "mqtt_verified p e"
    by (simp_all add: connection_verified_def)
  with ViaMqtt show ?thesis
    using v mqtt_verified_no_issue [OF ViaMqtt v]
    by (simp add: connection_verdict_def all_verified_mqtt) (simp add: mqtt_verified_def)
next
  case ViaHttp
  with assms show ?thesis
    by (simp add: connection_verified_def connection_verdict_def all_verified_def)
qed (use assms in \<open>simp add: connection_verified_def\<close>)

lemma passing_verdict_needs:
  assumes "vd_code (connection_verdict e cs) \<in> {js ''checks-passed'', js ''shared-topic''}"
  shows "\<not> needs_auth e \<and> ce_transport e \<noteq> NoTransport \<and> ce_controlEnabled e \<and> all_verified e cs"
  using assms by (simp add: connection_verdict_def Let_def split: if_splits)

lemma verdict_when_not_verified:
  assumes "\<not> connection_verified p e"
  shows "vd_code (connection_verdict e (connection_checks p e)) \<notin> {js ''checks-passed'', js ''shared-topic''}"
proof
  assume "vd_code (connection_verdict e (connection_checks p e)) \<in> {js ''checks-passed'', js ''shared-topic''}"
  note n = passing_verdict_needs [OF this]
  then have "connection_verified p e"
    by (cases "ce_transport e")
      (simp_all add: connection_verified_def all_verified_mqtt, simp add: all_verified_def)
  with assms show False by simp
qed

text \<open>
  C25. The report says that the connection checks passed exactly when the evidence establishes it: the
  identity answered as expected, control is enabled, no probe was refused, and over HTTP the relay was
  read, over MQTT the device reports MQTT, RPC and notifications on, an active connection, the same
  broker endpoint and the same topic as Energrid, whose listener runs.  A topic shared with another
  device turns the verdict into a warning.
\<close>

theorem connection_passes_iff_verified:
  "(vd_code (cr_verdict (diagnoseDeviceConnection p e)) = js ''checks-passed''
      \<longleftrightarrow> connection_verified p e \<and> \<not> ce_sharedTopic e)
   \<and> (vd_code (cr_verdict (diagnoseDeviceConnection p e)) = js ''shared-topic''
      \<longleftrightarrow> connection_verified p e \<and> ce_sharedTopic e)"
  using verdict_when_verified [of p e] verdict_when_not_verified [of p e]
  by (cases "connection_verified p e") (simp_all add: diagnoseDeviceConnection_def Let_def)

subsection \<open>Endpoints\<close>

text \<open>The URL standard: the port of a URL is empty or decimal digits.\<close>

definition numeric_ports :: "(jstr \<Rightarrow> broker_url option) \<Rightarrow> bool" where
  "numeric_ports p \<longleftrightarrow> (\<forall>s u. p s = Some u \<longrightarrow> list_all is_digit (url_port u))"

definition broker_address :: "(jstr \<Rightarrow> broker_url option) \<Rightarrow> jstr \<Rightarrow> broker_url option" where
  "broker_address p value =
     Option.bind (p (if includes_str value (js ''://'') then value else js ''mqtt://'' @ value))
       (\<lambda>u. if broker_url_ok u then Some u else None)"

definition endpoint_str :: "broker_url \<Rightarrow> jstr" where
  "endpoint_str u =
     endpoint_protocol u @ js ''//'' @ to_lower (url_hostname u) @ js '':'' @ endpoint_port u"

lemma brokerEndpoint_alt: "brokerEndpoint p value = map_option endpoint_str (broker_address p value)"
  by (simp add: brokerEndpoint_def broker_address_def endpoint_str_def split: option.splits bind_splits)

lemma append_eq_same_length: "length a = length c \<Longrightarrow> a @ b = c @ d \<longleftrightarrow> a = c \<and> b = d"
  by (rule append_eq_append_conv) simp

lemma split_at_last_colon:
  assumes "h @ 58 # r = h' @ 58 # r'" "58 \<notin> set r" "58 \<notin> set r'"
  shows "h = h' \<and> r = (r' :: jstr)"
proof -
  have "takeWhile ((\<noteq>) 58) (rev (h @ 58 # r)) = takeWhile ((\<noteq>) 58) (rev (h' @ 58 # r'))"
    using assms(1) by simp
  moreover have "takeWhile ((\<noteq>) 58) (rev (g @ 58 # q)) = rev q" if "58 \<notin> set q" for g q :: jstr
    using that by (subst rev_append, simp, subst takeWhile_append2) auto
  ultimately have "r = r'" using assms(2,3) by simp
  with assms(1) show ?thesis by simp
qed

lemma broker_address_ok:
  assumes "numeric_ports p" "broker_address p v = Some u"
  shows "endpoint_protocol u \<in> {js ''mqtt:'', js ''mqtts:''}" and "58 \<notin> set (endpoint_port u)"
proof -
  have ok: "broker_url_ok u" and "list_all is_digit (url_port u)"
    using assms by (auto simp: broker_address_def numeric_ports_def bind_eq_Some_conv split: if_splits)
  then show "endpoint_protocol u \<in> {js ''mqtt:'', js ''mqtts:''}" "58 \<notin> set (endpoint_port u)"
    by (auto simp: endpoint_protocol_def broker_url_ok_def endpoint_port_def list_all_iff is_digit_def
          js_def)
qed

lemma broker_address_scheme:
  "broker_address p v = Some u \<Longrightarrow> url_protocol u \<in> {js ''mqtt:'', js ''mqtts:'', js ''ssl:''}"
  by (auto simp: broker_address_def bind_eq_Some_conv broker_url_ok_def split: if_splits)

lemma scheme_prefix:
  assumes "a \<in> {js ''mqtt:'', js ''mqtts:''}" "b \<in> {js ''mqtt:'', js ''mqtts:''}"
  shows "a @ r = b @ s \<longleftrightarrow> a = b \<and> r = (s :: jstr)"
  using assms by (auto simp: js_def)

text \<open>
  C26. Two broker addresses are compared equal exactly when both are encrypted (\<open>mqtts:\<close> or \<open>ssl:\<close>) or neither
  is, they name the same host up to the case of letters, and the same port, a port that is not written being
  8883 for an encrypted address and 1883 for the other.
\<close>

theorem same_endpoint_iff:
  assumes "numeric_ports p" "broker_address p a = Some u" "broker_address p b = Some v"
  shows "brokerEndpoint p a = brokerEndpoint p b
    \<longleftrightarrow> (url_protocol u \<in> {js ''mqtts:'', js ''ssl:''} \<longleftrightarrow> url_protocol v \<in> {js ''mqtts:'', js ''ssl:''})
      \<and> to_lower (url_hostname u) = to_lower (url_hostname v)
      \<and> (if url_port u \<noteq> [] then url_port u
          else if url_protocol u \<in> {js ''mqtts:'', js ''ssl:''} then js ''8883'' else js ''1883'')
        = (if url_port v \<noteq> [] then url_port v
          else if url_protocol v \<in> {js ''mqtts:'', js ''ssl:''} then js ''8883'' else js ''1883'')"
proof -
  note u = broker_address_ok [OF assms(1,2)] and v = broker_address_ok [OF assms(1,3)]
  have colon: "js '':'' = [58]" by (simp add: js_def)
  have "endpoint_str u = endpoint_str v
    \<longleftrightarrow> endpoint_protocol u = endpoint_protocol v
      \<and> to_lower (url_hostname u) @ 58 # endpoint_port u = to_lower (url_hostname v) @ 58 # endpoint_port v"
    using scheme_prefix [OF u(1) v(1)] by (simp add: endpoint_str_def colon)
  then have "brokerEndpoint p a = brokerEndpoint p b \<longleftrightarrow> endpoint_protocol u = endpoint_protocol v
      \<and> to_lower (url_hostname u) = to_lower (url_hostname v) \<and> endpoint_port u = endpoint_port v"
    using split_at_last_colon [OF _ u(2) v(2)] assms(2,3) by (auto simp: brokerEndpoint_alt)
  then show ?thesis
    using broker_address_scheme [OF assms(2)] broker_address_scheme [OF assms(3)]
    by (auto simp: endpoint_protocol_def endpoint_port_def)
qed

definition demo_broker_url :: "string \<Rightarrow> string \<Rightarrow> broker_url" where
  "demo_broker_url host port =
     \<lparr>url_protocol = js ''mqtt:'', url_username = [], url_password = [], url_hostname = js host,
      url_pathname = [], url_search = [], url_hash = [], url_origin = js ''null'', url_port = js port\<rparr>"

definition demo_broker_parser :: "jstr \<Rightarrow> broker_url option" where
  "demo_broker_parser s =
     (if s = js ''mqtt://Broker.lan'' then Some (demo_broker_url ''Broker.lan'' [])
      else if s = js ''mqtt://broker.lan:1883'' then Some (demo_broker_url ''broker.lan'' ''1883'')
      else None)"

lemma demo_numeric_ports: "numeric_ports demo_broker_parser"
  by (simp add: numeric_ports_def demo_broker_parser_def demo_broker_url_def js_def is_digit_def)

lemma demo_addresses:
  "broker_address demo_broker_parser (js ''mqtt://Broker.lan'') = Some (demo_broker_url ''Broker.lan'' [])"
  "broker_address demo_broker_parser (js ''mqtt://broker.lan:1883'') = Some (demo_broker_url ''broker.lan'' ''1883'')"
  by code_simp+

theorem same_endpoint_iff_witness:
  "brokerEndpoint demo_broker_parser (js ''mqtt://Broker.lan'')
     = brokerEndpoint demo_broker_parser (js ''mqtt://broker.lan:1883'')"
  by (subst same_endpoint_iff [OF demo_numeric_ports demo_addresses])
    (simp add: demo_broker_url_def to_lower_def js_def)

text \<open>
  When the broker address of the device cannot be parsed, the check is unknown but its text still says
  that the addresses differ.
\<close>

lemma unverified_broker_is_said_to_differ:
  assumes "config_field mc_broker e = Some b" "brokerEndpoint p b = None"
  shows "ck_status (broker_check p e) = Unknown"
    and "suffix (js '' These configured addresses differ; aliases have not been resolved.'')
           (ck_detail (broker_check p e))"
  using assms by (simp_all add: broker_check_def broker_match_def suffix_def Let_def)

end
