(* ===== verification/PowerHistory.thy ===== *)
theory PowerHistory
  imports JsValue JsSort
begin

text \<open>
  Power history analysis, \<open>libs/domain-telemetry/src/lib/power-history.ts\<close>: samples of power are integrated
  over the minutes of a queried range into local hours and days.  The formatters of \<open>Intl.DateTimeFormat\<close>
  for a time zone are parameters (\<open>intl\<close>), as is \<open>Date.parse\<close> outside the standard formats.

  Instants are integers of milliseconds: \<open>Date.parse\<close> returns one of them, and the sums, differences
  and \<open>Math.floor(at / 60000)\<close> the code forms of them are exact (\<open>minute_floor_exact\<close>).  Seconds, watt
  seconds and the other accumulated quantities are doubles.

  The inner loop takes its step from a bucket looked up by minute; it is a \<open>partial_function\<close>, whose value
  \<open>None\<close> means that it does not return.  The lemmas show that it always returns, which inputs are refused,
  that the hours tile the range, and how much of the range counts as covered.
\<close>

subsection \<open>Data\<close>

record power_observation =
  po_observedAt :: jstr
  po_powerW :: "jnum option"
  po_seriesId :: "jstr option"

record power_schedule =
  sd_start :: jstr
  sd_end :: jstr
  sd_effectiveFrom :: "jstr option"

record power_settings =
  st_timezone :: jstr
  st_activeThresholdW :: jnum
  st_schedule :: "power_schedule option"

record power_query =
  pq_from :: jstr
  pq_to :: jstr

record accumulator =
  ac_expectedSeconds :: jnum
  ac_coveredSeconds :: jnum
  ac_wattSeconds :: jnum
  ac_activeSeconds :: jnum
  ac_outsideWattSeconds :: jnum
  ac_peak :: "jnum option"

record power_statistics =
  ps_energyKwh :: "jnum option"
  ps_averagePowerW :: "jnum option"
  ps_peakPowerW :: "jnum option"
  ps_activeMinutes :: "jnum option"
  ps_outsideScheduleKwh :: "jnum option"
  ps_coveragePct :: jnum
  ps_coveredSeconds :: jnum
  ps_expectedSeconds :: jnum

record power_hour =
  ph_from :: jstr
  ph_to :: jstr
  ph_localDate :: jstr
  ph_localHour :: jstr
  ph_stats :: power_statistics

record power_day =
  pd_date :: jstr
  pd_stats :: power_statistics

record power_analysis =
  pa_maxGapSeconds :: jnum
  pa_summary :: power_statistics
  pa_hourly :: "power_hour list"
  pa_daily :: "power_day list"
  pa_invalidReadings :: nat
  pa_duplicateReadings :: nat
  pa_conflictingReadings :: nat

text \<open>
  The three formatters for one time zone: the parts of the date, the clock \<open>HH:MM\<close>, and the key of the
  local hour.  Constructing them fails for an unknown time zone.
\<close>

record intl =
  in_date_parts :: "int \<Rightarrow> (jstr \<times> jstr) list"
  in_clock :: "int \<Rightarrow> jstr"
  in_hour_key :: "int \<Rightarrow> jstr"

subsection \<open>Accumulators and clocks\<close>

definition empty_acc :: "jnum \<Rightarrow> accumulator" where
  "empty_acc expected = \<lparr>ac_expectedSeconds = expected, ac_coveredSeconds = Fin 0, ac_wattSeconds = Fin 0,
     ac_activeSeconds = Fin 0, ac_outsideWattSeconds = Fin 0, ac_peak = None\<rparr>"

definition stats :: "accumulator \<Rightarrow> bool \<Rightarrow> power_statistics" where
  "stats a scheduleKnown =
     (let known = jless (Fin 0) (ac_coveredSeconds a) in
      \<lparr>ps_energyKwh = (if known then Some (jdiv (ac_wattSeconds a) (Fin 3600000)) else None),
       ps_averagePowerW = (if known then Some (jdiv (ac_wattSeconds a) (ac_coveredSeconds a)) else None),
       ps_peakPowerW = ac_peak a,
       ps_activeMinutes = (if known then Some (jdiv (ac_activeSeconds a) (Fin 60)) else None),
       ps_outsideScheduleKwh =
         (if known \<and> scheduleKnown then Some (jdiv (ac_outsideWattSeconds a) (Fin 3600000)) else None),
       ps_coveragePct = (if jless (Fin 0) (ac_expectedSeconds a)
         then jdiv (jmul (Fin 100) (ac_coveredSeconds a)) (ac_expectedSeconds a) else Fin 0),
       ps_coveredSeconds = ac_coveredSeconds a,
       ps_expectedSeconds = ac_expectedSeconds a\<rparr>)"

text \<open>\<open>/^([01]\d|2[0-3]):[0-5]\d$/\<close>.\<close>

definition clock_form :: "jstr \<Rightarrow> bool" where
  "clock_form s \<longleftrightarrow>
     (case s of
        [a, b, c, d, e] \<Rightarrow> is_digit b \<and> (a = 48 \<or> a = 49 \<or> a = 50 \<and> b \<le> 51) \<and> c = 58
          \<and> 48 \<le> d \<and> d \<le> 53 \<and> is_digit e
      | _ \<Rightarrow> False)"

definition clockMinutes :: "jstr \<Rightarrow> int result" where
  "clockMinutes value =
     (if clock_form value then Inr (digits_val (take 2 value) * 60 + digits_val (drop 3 value))
      else throw ''Invalid schedule time'')"

definition formattedDate :: "(jstr \<times> jstr) list \<Rightarrow> jstr result" where
  "formattedDate parts =
     (case (map_of parts (js ''year''), map_of parts (js ''month''), map_of parts (js ''day'')) of
        (Some y, Some m, Some d) \<Rightarrow> Inr (js_join (js ''-'') [y, m, d])
      | _ \<Rightarrow> Inl TypeError)"

text \<open>An instant is a string or a number; formatting an invalid date throws.\<close>

definition instant_of :: "(jstr \<Rightarrow> int option) \<Rightarrow> jstr + jnum \<Rightarrow> int option" where
  "instant_of host v = (case v of Inl s \<Rightarrow> date_parse host s | Inr x \<Rightarrow> time_clip x)"

definition localDateAt ::
    "(jstr \<Rightarrow> int option) \<Rightarrow> (jstr \<Rightarrow> intl option) \<Rightarrow> jstr + jnum \<Rightarrow> jstr \<Rightarrow> jstr result" where
  "localDateAt host zones v timezone =
     (case (zones timezone, instant_of host v) of
        (Some f, Some t) \<Rightarrow> formattedDate (in_date_parts f t)
      | _ \<Rightarrow> Inl RangeError)"

subsection \<open>Settings\<close>

text \<open>\<open>/^\d{4}-\d{2}-\d{2}$/\<close>, and the date exists.\<close>

definition date_template :: jstr where
  "date_template = js ''dddd-dd-dd''"

definition valid_date :: "(jstr \<Rightarrow> int option) \<Rightarrow> jstr \<Rightarrow> bool" where
  "valid_date host s \<longleftrightarrow>
     list_all2 template_match date_template s
     \<and> (case date_parse host (s @ js ''T00:00:00Z'') of
          None \<Rightarrow> False
        | Some t \<Rightarrow> (case to_iso (Some t) of Inr i \<Rightarrow> take 10 i = s | Inl _ \<Rightarrow> False))"

text \<open>The schedule in minutes; without one the code uses 0 for both ends.\<close>

definition schedule_minutes :: "(jstr \<Rightarrow> int option) \<Rightarrow> power_schedule option \<Rightarrow> (int \<times> int) result" where
  "schedule_minutes host schedule =
     (case schedule of
        None \<Rightarrow> Inr (0, 0)
      | Some s \<Rightarrow>
          and_then (clockMinutes (sd_start s)) (\<lambda>a.
          and_then (clockMinutes (sd_end s)) (\<lambda>b.
          and_then (requires (a \<noteq> b) ''Schedule must have distinct start and end'') (\<lambda>_.
          and_then (requires (case sd_effectiveFrom s of
                      None \<Rightarrow> True | Some d \<Rightarrow> d = [] \<or> valid_date host d) ''Invalid schedule effective date'') (\<lambda>_.
            Inr (a, b))))))"

definition scheduleKnown :: "power_schedule option \<Rightarrow> jstr \<Rightarrow> bool" where
  "scheduleKnown schedule date =
     (case schedule of
        None \<Rightarrow> False
      | Some s \<Rightarrow> (case sd_effectiveFrom s of None \<Rightarrow> True | Some d \<Rightarrow> d = [] \<or> \<not> str_less date d))"

definition inside_schedule :: "int \<times> int \<Rightarrow> int \<Rightarrow> bool" where
  "inside_schedule sched minute =
     (case sched of (a, b) \<Rightarrow>
        if a < b then a \<le> minute \<and> minute < b else a \<le> minute \<or> minute < b)"

subsection \<open>Samples\<close>

record sample_table =
  tb_power :: "(int \<times> jnum option) list"
  tb_series :: "(int \<times> jstr option) list"
  tb_invalid :: nat
  tb_duplicate :: nat
  tb_conflicting :: nat

definition valid_power :: "jnum option \<Rightarrow> jnum option" where
  "valid_power p = (case p of Some w \<Rightarrow> if is_finite w \<and> jle (Fin 0) w then Some w else None | None \<Rightarrow> None)"

definition read_observation :: "(jstr \<Rightarrow> int option) \<Rightarrow> power_observation \<Rightarrow> sample_table \<Rightarrow> sample_table" where
  "read_observation host ob tb =
     (case date_parse host (po_observedAt ob) of
        None \<Rightarrow> tb\<lparr>tb_invalid := tb_invalid tb + 1\<rparr>
      | Some t \<Rightarrow>
          (let watts = valid_power (po_powerW ob);
               tb = (if watts = None then tb\<lparr>tb_invalid := tb_invalid tb + 1\<rparr> else tb)
           in case map_get (tb_power tb) t of
                Some held \<Rightarrow>
                  (let tb = tb\<lparr>tb_duplicate := tb_duplicate tb + 1\<rparr> in
                   if held \<noteq> watts \<or> map_get (tb_series tb) t \<noteq> Some (po_seriesId ob)
                   then tb\<lparr>tb_power := map_set (tb_power tb) t None, tb_conflicting := tb_conflicting tb + 1\<rparr>
                   else tb)
              | None \<Rightarrow> tb\<lparr>tb_power := map_set (tb_power tb) t watts,
                           tb_series := map_set (tb_series tb) t (po_seriesId ob)\<rparr>))"

definition read_observations :: "(jstr \<Rightarrow> int option) \<Rightarrow> power_observation list \<Rightarrow> sample_table" where
  "read_observations host obs = fold (read_observation host) obs
     \<lparr>tb_power = [], tb_series = [], tb_invalid = 0, tb_duplicate = 0, tb_conflicting = 0\<rparr>"

definition sorted_samples :: "sample_table \<Rightarrow> (int \<times> jnum option) list" where
  "sorted_samples tb = js_sort (\<lambda>a b. fst b < fst a) (tb_power tb)"

subsection \<open>Walking the minutes of the range\<close>

record hour_bucket =
  hb_from :: int
  hb_to :: int
  hb_date :: jstr
  hb_hour :: jstr
  hb_acc :: accumulator

text \<open>The map from minutes to hours holds the index of the hour, whose object the code shares.\<close>

record walk =
  wk_hours :: "hour_bucket list"
  wk_byMinute :: "(int \<times> nat) list"
  wk_days :: "(jstr \<times> accumulator) list"
  wk_key :: jstr

definition minute_end :: "int \<Rightarrow> int" where
  "minute_end t = (t div 60000 + 1) * 60000"

definition add_expected :: "jnum \<Rightarrow> accumulator \<Rightarrow> accumulator" where
  "add_expected seconds a = a\<lparr>ac_expectedSeconds := jadd (ac_expectedSeconds a) seconds\<rparr>"

definition seconds_between :: "int \<Rightarrow> int \<Rightarrow> jnum" where
  "seconds_between a b = jdiv (Fin (of_int (b - a))) (Fin 1000)"

text \<open>A new hour starts when the key of the local hour changes; the last hour then takes in the minute.\<close>

definition open_hour :: "intl \<Rightarrow> int \<Rightarrow> int \<Rightarrow> jstr \<Rightarrow> jstr \<Rightarrow> walk \<Rightarrow> hour_bucket list" where
  "open_hour f t e date key w =
     (if key \<noteq> wk_key w
      then wk_hours w @ [\<lparr>hb_from = t, hb_to = e, hb_date = date, hb_hour = in_clock f t,
                          hb_acc = empty_acc (Fin 0)\<rparr>]
      else wk_hours w)"

definition extend_hour :: "int \<Rightarrow> int \<Rightarrow> hour_bucket \<Rightarrow> hour_bucket" where
  "extend_hour t e h = h\<lparr>hb_to := e, hb_acc := add_expected (seconds_between t e) (hb_acc h)\<rparr>"

definition walk_step :: "intl \<Rightarrow> int \<Rightarrow> int \<Rightarrow> walk \<Rightarrow> walk result" where
  "walk_step f stop t w =
     (let e = min stop (minute_end t) in
      and_then (formattedDate (in_date_parts f t)) (\<lambda>date.
        let key = date @ js ''|'' @ in_hour_key f t;
            hours = open_hour f t e date key w;
            i = length hours - 1;
            day = (case map_get (wk_days w) date of Some a \<Rightarrow> a | None \<Rightarrow> empty_acc (Fin 0))
        in Inr \<lparr>wk_hours = hours[i := extend_hour t e (last hours)],
                wk_byMinute = map_set (wk_byMinute w) (t div 60000) i,
                wk_days = map_set (wk_days w) date (add_expected (seconds_between t e) day),
                wk_key = key\<rparr>))"

lemma minute_end_bounds: "t < minute_end t" "minute_end t \<le> t + 60000"
proof -
  have "t = t div 60000 * 60000 + t mod 60000" by simp
  moreover have "0 \<le> t mod 60000" "t mod 60000 < 60000" by simp_all
  ultimately show "t < minute_end t" "minute_end t \<le> t + 60000"
    by (simp_all add: minute_end_def algebra_simps)
qed

function walk_minutes :: "intl \<Rightarrow> int \<Rightarrow> int \<Rightarrow> walk \<Rightarrow> walk result" where
  "walk_minutes f stop t w =
     (if t < stop then and_then (walk_step f stop t w) (walk_minutes f stop (min stop (minute_end t)))
      else Inr w)"
  by pat_completeness auto

termination
  by (relation "measure (\<lambda>(f, stop, t, w). nat (stop - t))") (use minute_end_bounds in \<open>auto simp: min_def\<close>)

declare walk_minutes.simps [simp del]

subsection \<open>Integration\<close>

record books =
  bk_hours :: "hour_bucket list"
  bk_days :: "(jstr \<times> accumulator) list"
  bk_total :: accumulator

definition account :: "jnum \<Rightarrow> jnum \<Rightarrow> jnum \<Rightarrow> bool \<Rightarrow> accumulator \<Rightarrow> accumulator" where
  "account seconds watts threshold outside a =
     a\<lparr>ac_coveredSeconds := jadd (ac_coveredSeconds a) seconds,
       ac_wattSeconds := jadd (ac_wattSeconds a) (jmul watts seconds),
       ac_activeSeconds := jadd (ac_activeSeconds a) (if jle threshold watts then seconds else Fin 0),
       ac_peak := Some (jmax (case ac_peak a of Some p \<Rightarrow> p | None \<Rightarrow> Fin 0) watts),
       ac_outsideWattSeconds := (if outside then jadd (ac_outsideWattSeconds a) (jmul watts seconds)
         else ac_outsideWattSeconds a)\<rparr>"

definition piece_step ::
    "intl \<Rightarrow> power_settings \<Rightarrow> int \<times> int \<Rightarrow> (int \<times> nat) list \<Rightarrow> jnum \<Rightarrow> int \<Rightarrow> int \<Rightarrow> books
      \<Rightarrow> (int \<times> books) result" where
  "piece_step f asset sched byMinute watts stop cursor b =
     (case map_get byMinute (cursor div 60000) of
        None \<Rightarrow> Inl TypeError
      | Some i \<Rightarrow>
          (let bucket = bk_hours b ! i;
               pieceEnd = min (min stop (hb_to bucket)) (minute_end cursor);
               seconds = seconds_between cursor pieceEnd
           in and_then (clockMinutes (in_clock f cursor)) (\<lambda>minute.
              (case map_get (bk_days b) (hb_date bucket) of
                 None \<Rightarrow> Inl TypeError
               | Some day \<Rightarrow>
                   (let outside = (scheduleKnown (st_schedule asset) (hb_date bucket) \<and> \<not> inside_schedule sched minute);
                        add = account seconds watts (st_activeThresholdW asset) outside
                    in Inr (pieceEnd,
                         \<lparr>bk_hours = (bk_hours b)[i := bucket\<lparr>hb_acc := add (hb_acc bucket)\<rparr>],
                          bk_days = map_set (bk_days b) (hb_date bucket) (add day),
                          bk_total = add (bk_total b)\<rparr>))))))"

partial_function (option) integrate_gap ::
    "intl \<Rightarrow> power_settings \<Rightarrow> int \<times> int \<Rightarrow> (int \<times> nat) list \<Rightarrow> jnum \<Rightarrow> int \<Rightarrow> int \<Rightarrow> books
      \<Rightarrow> books result option" where
  "integrate_gap f asset sched byMinute watts stop cursor b =
     (if cursor < stop
      then (case piece_step f asset sched byMinute watts stop cursor b of
              Inl e \<Rightarrow> Some (Inl e)
            | Inr (cursor', b') \<Rightarrow> integrate_gap f asset sched byMinute watts stop cursor' b')
      else Some (Inr b))"

declare integrate_gap.simps [code]

text \<open>One pair of neighbouring samples is integrated when it lies in one series, both values are known and the gap is short.\<close>

definition bracketed :: "sample_table \<Rightarrow> jnum \<Rightarrow> int \<times> jnum option \<Rightarrow> int \<times> jnum option \<Rightarrow> bool" where
  "bracketed tb maxGap s s' \<longleftrightarrow>
     map_get (tb_series tb) (fst s) = map_get (tb_series tb) (fst s')
     \<and> snd s \<noteq> None \<and> snd s' \<noteq> None
     \<and> \<not> jless (jmul maxGap (Fin 1000)) (jsub (Fin (of_int (fst s'))) (Fin (of_int (fst s))))"

fun integrate_samples ::
    "intl \<Rightarrow> power_settings \<Rightarrow> int \<times> int \<Rightarrow> (int \<times> nat) list \<Rightarrow> sample_table \<Rightarrow> jnum \<Rightarrow> int \<Rightarrow> int
      \<Rightarrow> (int \<times> jnum option) list \<Rightarrow> books \<Rightarrow> books result option" where
  "integrate_samples f asset sched byMinute tb maxGap start stop (s # s' # ss) b =
     (if bracketed tb maxGap s s'
      then (case integrate_gap f asset sched byMinute (case snd s of Some p \<Rightarrow> p | None \<Rightarrow> NaN)
                   (min stop (fst s')) (max start (fst s)) b of
              None \<Rightarrow> None
            | Some (Inl e) \<Rightarrow> Some (Inl e)
            | Some (Inr b') \<Rightarrow> integrate_samples f asset sched byMinute tb maxGap start stop (s' # ss) b')
      else integrate_samples f asset sched byMinute tb maxGap start stop (s' # ss) b)"
| "integrate_samples f asset sched byMinute tb maxGap start stop ss b = Some (Inr b)"

subsection \<open>The analysis\<close>

definition hour_row :: "power_schedule option \<Rightarrow> hour_bucket \<Rightarrow> power_hour result" where
  "hour_row schedule h =
     and_then (to_iso (Some (hb_from h))) (\<lambda>a.
     and_then (to_iso (Some (hb_to h))) (\<lambda>b.
       Inr \<lparr>ph_from = a, ph_to = b, ph_localDate = hb_date h, ph_localHour = hb_hour h,
            ph_stats = stats (hb_acc h) (scheduleKnown schedule (hb_date h))\<rparr>))"

definition analysis_of ::
    "power_settings \<Rightarrow> jnum \<Rightarrow> sample_table \<Rightarrow> books \<Rightarrow> power_analysis result" where
  "analysis_of asset maxGap tb b =
     and_then (map_result (hour_row (st_schedule asset)) (bk_hours b)) (\<lambda>hourly.
       Inr \<lparr>pa_maxGapSeconds = maxGap,
            pa_summary = stats (bk_total b) (list_all (scheduleKnown (st_schedule asset)) (map fst (bk_days b))),
            pa_hourly = hourly,
            pa_daily = map (\<lambda>(date, a). \<lparr>pd_date = date, pd_stats = stats a (scheduleKnown (st_schedule asset) date)\<rparr>)
              (bk_days b),
            pa_invalidReadings = tb_invalid tb, pa_duplicateReadings = tb_duplicate tb,
            pa_conflictingReadings = tb_conflicting tb\<rparr>)"

text \<open>The checks of the query and the settings, in their order.\<close>

definition prepare ::
    "(jstr \<Rightarrow> int option) \<Rightarrow> (jstr \<Rightarrow> intl option) \<Rightarrow> power_query \<Rightarrow> power_settings \<Rightarrow> jnum
      \<Rightarrow> (int \<times> int \<times> intl \<times> (int \<times> int)) result" where
  "prepare host zones query asset maxGap =
     (case (date_parse host (pq_from query), date_parse host (pq_to query)) of
        (Some start, Some stop) \<Rightarrow>
          and_then (requires (start < stop \<and> stop - start \<le> 31 * 86400000) ''Invalid power history range'') (\<lambda>_.
          and_then (requires (is_finite maxGap \<and> jless (Fin 0) maxGap \<and> is_finite (st_activeThresholdW asset)
                      \<and> jle (Fin 0) (st_activeThresholdW asset)) ''Invalid power analysis settings'') (\<lambda>_.
          (case zones (st_timezone asset) of
             None \<Rightarrow> Inl RangeError
           | Some f \<Rightarrow>
               and_then (schedule_minutes host (st_schedule asset)) (\<lambda>sched. Inr (start, stop, f, sched)))))
      | _ \<Rightarrow> throw ''Invalid power history range'')"

definition analyzePowerHistory ::
    "(jstr \<Rightarrow> int option) \<Rightarrow> (jstr \<Rightarrow> intl option) \<Rightarrow> power_observation list \<Rightarrow> power_query \<Rightarrow> power_settings
      \<Rightarrow> jnum \<Rightarrow> power_analysis result option" where
  "analyzePowerHistory host zones obs query asset maxGap =
     (case prepare host zones query asset maxGap of
        Inl e \<Rightarrow> Some (Inl e)
      | Inr (start, stop, f, sched) \<Rightarrow>
          (let tb = read_observations host obs in
           case walk_minutes f stop start \<lparr>wk_hours = [], wk_byMinute = [], wk_days = [], wk_key = []\<rparr> of
             Inl e \<Rightarrow> Some (Inl e)
           | Inr w \<Rightarrow>
               (case integrate_samples f asset sched (wk_byMinute w) tb maxGap start stop (sorted_samples tb)
                       \<lparr>bk_hours = wk_hours w, bk_days = wk_days w,
                        bk_total = empty_acc (seconds_between start stop)\<rparr> of
                  None \<Rightarrow> None
                | Some (Inl e) \<Rightarrow> Some (Inl e)
                | Some (Inr b) \<Rightarrow> Some (analysis_of asset maxGap tb b))))"

text \<open>The minute of an instant, \<open>Math.floor(at / 60000)\<close>, is exact in spite of the rounded quotient.\<close>

lemma minute_floor_exact:
  assumes "time_in_range t"
  shows "jfloor (jdiv (Fin (of_int t)) (Fin 60000)) = Fin (of_int (t div 60000))"
proof (cases "t mod 60000 = 0")
  case True
  then have t: "t = 60000 * (t div 60000)" using mult_div_mod_eq [of 60000 t] by simp
  have "\<bar>60000 * (t div 60000)\<bar> \<le> 8640000000000000" using assms t by (simp add: time_in_range_def)
  then have "\<bar>t div 60000\<bar> < 2 ^ 53" by simp
  moreover have "(of_int t :: rat) / 60000 = of_int (t div 60000)" by (subst t) simp
  ultimately show ?thesis using fl_int [of "t div 60000"] by (simp add: jfloor_def)
next
  case False
  define k r where "k = t div 60000" and "r = t mod 60000"
  have t: "t = 60000 * k + r" "1 \<le> r" "r \<le> 59999"
    using False pos_mod_bound [of 60000 t] pos_mod_sign [of 60000 t] by (simp_all add: k_def r_def)
  let ?x = "(of_int t :: rat) / 60000"
  have x: "?x = of_int k + of_int r / 60000" by (simp add: t(1) add_divide_distrib)
  have r: "(1 :: rat) / 60000 \<le> of_int r / 60000" "of_int r / 60000 \<le> (59999 :: rat) / 60000"
    using t(2,3) by (simp_all add: divide_right_mono)
  have "\<bar>?x\<bar> \<le> 8640000000000000 / 60000"
  proof -
    have "\<bar>of_int t :: rat\<bar> \<le> of_int 8640000000000000" using assms by (simp only: time_in_range_def of_int_abs [symmetric] of_int_le_iff)
    then show ?thesis by (simp add: abs_divide)
  qed
  then have "\<bar>?x\<bar> < pow2 38" by (simp add: pow2_def)
  moreover have "?x \<noteq> 0" using False by auto
  ultimately obtain y where y: "fl ?x = Fin y" "\<bar>y - ?x\<bar> \<le> pow2 (- 16)" using fl_error [of ?x 38] by auto
  have "pow2 (- 16) < 1 / 60000" by (simp add: pow2_def)
  with y(2) r x have "of_int k < y" "y < of_int k + 1" by (simp_all add: abs_le_iff)
  then have "\<lfloor>y\<rfloor> = k" by (simp add: floor_unique)
  then show ?thesis using y(1) by (simp add: jfloor_def k_def)
qed

subsection \<open>The hours tile the range\<close>

fun tiles :: "int \<Rightarrow> int \<Rightarrow> (int \<times> int) list \<Rightarrow> bool" where
  "tiles a b [] = (a = b)"
| "tiles a b ((c, d) # xs) = (a = c \<and> c < d \<and> tiles d b xs)"

lemma tiles_snoc: "tiles a b (xs @ [(c, d)]) \<longleftrightarrow> tiles a c xs \<and> c < d \<and> d = b"
  by (induction a b xs rule: tiles.induct) auto

lemma tiles_le: "tiles a b xs \<Longrightarrow> a \<le> b"
  by (induction a b xs rule: tiles.induct) auto

lemma tiles_bounds: "tiles a b xs \<Longrightarrow> (c, d) \<in> set xs \<Longrightarrow> a \<le> c \<and> c < d \<and> d \<le> b"
proof (induction a b xs rule: tiles.induct)
  case (2 a b c' d' xs)
  then show ?case using tiles_le [of d' b xs] by fastforce
qed simp

abbreviation span_of :: "hour_bucket \<Rightarrow> int \<times> int" where
  "span_of h \<equiv> (hb_from h, hb_to h)"

text \<open>A minute of the range that has been walked leads to the hour that holds it.\<close>

definition minute_ok :: "int \<Rightarrow> walk \<Rightarrow> int \<Rightarrow> bool" where
  "minute_ok t w c \<longleftrightarrow>
     (case map_get (wk_byMinute w) (c div 60000) of
        None \<Rightarrow> False
      | Some i \<Rightarrow> i < length (wk_hours w) \<and> hb_from (wk_hours w ! i) \<le> c
          \<and> min t (minute_end c) \<le> hb_to (wk_hours w ! i))"

definition walk_ok :: "int \<Rightarrow> int \<Rightarrow> walk \<Rightarrow> bool" where
  "walk_ok start t w \<longleftrightarrow>
     tiles start t (map span_of (wk_hours w)) \<and> (\<forall>c. start \<le> c \<and> c < t \<longrightarrow> minute_ok t w c)
     \<and> (\<forall>h\<in>set (wk_hours w). map_get (wk_days w) (hb_date h) \<noteq> None)
     \<and> (wk_hours w = [] \<longrightarrow> wk_key w = [])"

lemma last_update: "hs \<noteq> [] \<Longrightarrow> hs[length hs - 1 := h] = butlast hs @ [h]"
  by (cases hs rule: rev_cases) simp_all

lemma minute_boundary:
  fixes t start c :: int
  assumes "t = start \<or> t mod 60000 = 0" "start \<le> c" "c < t"
  shows "c div 60000 < t div 60000"
proof -
  from assms have t: "t mod 60000 = 0" by auto
  have "c div 60000 * 60000 + c mod 60000 = c" "t div 60000 * 60000 + t mod 60000 = t" "0 \<le> c mod 60000"
    by simp_all
  with t assms(3) show ?thesis by linarith
qed

lemma minute_end_same: "c div 60000 = t div 60000 \<Longrightarrow> minute_end c = minute_end t"
  by (simp add: minute_end_def)

lemma between_same_minute:
  assumes "t \<le> c" "c < minute_end t"
  shows "c div 60000 = t div 60000"
proof -
  have "t div 60000 \<le> c div 60000" using assms(1) by (rule zdiv_mono1) simp
  moreover have "c div 60000 * 60000 \<le> c" using minute_end_bounds(2) [of c] by (simp add: minute_end_def)
  with assms(2) have "c div 60000 * 60000 < (t div 60000 + 1) * 60000" unfolding minute_end_def by linarith
  then have "c div 60000 < t div 60000 + 1" by simp
  ultimately show ?thesis by simp
qed

text \<open>The hours after a step: all but the last are as before, and the last ends with the minute.\<close>

lemma walk_step_parts:
  assumes "walk_step f stop t w = Inr w'" "wk_hours w = [] \<Longrightarrow> wk_key w = []"
  defines "e \<equiv> min stop (minute_end t)"
  obtains pre h h' where
    "wk_hours w' = pre @ [h']" "hb_to h' = e"
    "(wk_hours w = pre \<and> hb_from h' = t) \<or> (wk_hours w = pre @ [h] \<and> hb_from h' = hb_from h \<and> hb_date h' = hb_date h)"
    "map_get (wk_byMinute w') = (map_get (wk_byMinute w))(t div 60000 \<mapsto> length pre)"
    "\<And>d. map_get (wk_days w) d \<noteq> None \<Longrightarrow> map_get (wk_days w') d \<noteq> None"
    "wk_hours w = pre \<Longrightarrow> map_get (wk_days w') (hb_date h') \<noteq> None"
    "wk_key w' \<noteq> []"
proof -
  from assms(1) obtain date where date: "formattedDate (in_date_parts f t) = Inr date"
    by (auto simp: walk_step_def Let_def and_then_Inr_iff)
  define key where "key = date @ js ''|'' @ in_hour_key f t"
  define hours where "hours = open_hour f t e date key w"
  define day where "day = (case map_get (wk_days w) date of Some a \<Rightarrow> a | None \<Rightarrow> empty_acc (Fin 0))"
  have w': "w' = \<lparr>wk_hours = hours[length hours - 1 := extend_hour t e (last hours)],
        wk_byMinute = map_set (wk_byMinute w) (t div 60000) (length hours - 1),
        wk_days = map_set (wk_days w) date (add_expected (seconds_between t e) day), wk_key = key\<rparr>"
    using assms(1) by (simp add: walk_step_def Let_def date key_def hours_def day_def e_def)
  have ne: "hours \<noteq> []" using assms(2) by (auto simp: hours_def open_hour_def key_def js_def)
  have by_minute: "map_get (wk_byMinute w') = (map_get (wk_byMinute w))(t div 60000 \<mapsto> length (butlast hours))"
    by (rule ext) (simp add: w' store_simps)
  have hs: "wk_hours w' = butlast hours @ [extend_hour t e (last hours)]"
    using last_update [OF ne] by (simp add: w')
  show thesis
  proof (cases "key = wk_key w")
    case True
    then have "hours = wk_hours w" by (simp add: hours_def open_hour_def)
    with ne have "wk_hours w = butlast hours @ [last hours]" by simp
    then show thesis
      by (intro that [OF hs _ _ by_minute]) (auto simp: w' store_simps extend_hour_def key_def js_def)
  next
    case False
    then have "wk_hours w = butlast hours" "hb_from (last hours) = t" "hb_date (last hours) = date"
      by (simp_all add: hours_def open_hour_def)
    then show thesis
      by (intro that [OF hs _ _ by_minute]) (auto simp: w' store_simps extend_hour_def key_def js_def)
  qed
qed

lemma minute_end_before: "c div 60000 < t div 60000 \<Longrightarrow> minute_end c \<le> t"
proof -
  assume "c div 60000 < t div 60000"
  then have "(c div 60000 + 1) * 60000 \<le> t div 60000 * 60000" by (intro mult_right_mono) simp_all
  moreover have "t div 60000 * 60000 \<le> t" using minute_end_bounds(2) [of t] by (simp add: minute_end_def)
  ultimately show ?thesis by (simp add: minute_end_def)
qed

lemma walk_step_ok:
  assumes ok: "walk_ok start t w" and step: "walk_step f stop t w = Inr w'"
    and t: "start \<le> t" "t < stop" "t = start \<or> t mod 60000 = 0"
  shows "walk_ok start (min stop (minute_end t)) w'"
proof -
  let ?e = "min stop (minute_end t)"
  have e: "t < ?e" using t(2) minute_end_bounds(1) by simp
  from ok have tl: "tiles start t (map span_of (wk_hours w))"
    and mins: "\<And>c. start \<le> c \<Longrightarrow> c < t \<Longrightarrow> minute_ok t w c"
    and days: "\<And>h. h \<in> set (wk_hours w) \<Longrightarrow> map_get (wk_days w) (hb_date h) \<noteq> None"
    and key: "wk_hours w = [] \<Longrightarrow> wk_key w = []"
    by (simp_all add: walk_ok_def)
  from step key obtain pre h h' where p: "wk_hours w' = pre @ [h']" "hb_to h' = ?e"
    "(wk_hours w = pre \<and> hb_from h' = t) \<or> (wk_hours w = pre @ [h] \<and> hb_from h' = hb_from h \<and> hb_date h' = hb_date h)"
    "map_get (wk_byMinute w') = (map_get (wk_byMinute w))(t div 60000 \<mapsto> length pre)"
    "\<And>d. map_get (wk_days w) d \<noteq> None \<Longrightarrow> map_get (wk_days w') d \<noteq> None"
    "wk_hours w = pre \<Longrightarrow> map_get (wk_days w') (hb_date h') \<noteq> None" "wk_key w' \<noteq> []"
    by (rule walk_step_parts) blast+
  have from_le: "hb_from h' \<le> t"
    using p(3) tl tiles_snoc [of start t "map span_of pre" "hb_from h" "hb_to h"] by auto
  have "tiles start ?e (map span_of (wk_hours w'))"
    using p(1,2,3) tl e by (auto simp: tiles_snoc)
  moreover have "minute_ok ?e w' c" if c: "start \<le> c" "c < ?e" for c
  proof (cases "c < t")
    case True
    with mins [OF c(1)] obtain i where i: "map_get (wk_byMinute w) (c div 60000) = Some i" "i < length (wk_hours w)"
      "hb_from (wk_hours w ! i) \<le> c" "min t (minute_end c) \<le> hb_to (wk_hours w ! i)"
      by (auto simp: minute_ok_def split: option.splits)
    have lt: "c div 60000 < t div 60000" by (rule minute_boundary [OF t(3) c(1) True])
    then have "minute_end c \<le> t" by (rule minute_end_before)
    with i(4) have to: "minute_end c \<le> hb_to (wk_hours w ! i)" by simp
    show ?thesis
    proof (cases "i < length pre")
      case True
      with p(3) have "wk_hours w ! i = pre ! i" by (auto simp: nth_append)
      moreover have "map_get (wk_byMinute w') (c div 60000) = Some i" using i(1) lt by (simp add: p(4))
      ultimately show ?thesis using i(3) to True by (simp add: minute_ok_def p(1) nth_append)
    next
      case False
      with i(2) p(3) have last: "i = length pre" "wk_hours w = pre @ [h]" "hb_from h' = hb_from h" by auto
      have held: "map_get (wk_byMinute w') (c div 60000) = Some (length pre)"
        using i(1) lt last(1) by (simp add: p(4))
      have "hb_from h \<le> c" using i(3) last by simp
      moreover have "hb_to h = t" using tl by (simp add: last(2) tiles_snoc)
      then have "minute_end c \<le> ?e" using to last e by simp
      ultimately show ?thesis by (simp add: minute_ok_def held p(1,2) last(3))
    qed
  next
    case False
    with c have same: "c div 60000 = t div 60000" by (intro between_same_minute) simp_all
    have "map_get (wk_byMinute w') (c div 60000) = Some (length pre)" by (simp add: p(4) same)
    with from_le False show ?thesis
      by (simp add: minute_ok_def p(1,2) minute_end_same [OF same])
  qed
  moreover have "map_get (wk_days w') (hb_date g) \<noteq> None" if "g \<in> set (wk_hours w')" for g
    using that p(1,3) p(5) [OF days] p(6) by auto
  ultimately show ?thesis using p(1) by (simp add: walk_ok_def)
qed

lemma minute_end_boundary: "min stop (minute_end t) < stop \<Longrightarrow> min stop (minute_end t) mod 60000 = 0"
  by (simp add: minute_end_def min_def split: if_splits)

lemma walk_minutes_ok:
  assumes "walk_minutes f stop t w = Inr w'" "walk_ok start t w" "start \<le> t" "t \<le> stop"
    and "t < stop \<Longrightarrow> t = start \<or> t mod 60000 = 0"
  shows "walk_ok start stop w'"
  using assms
proof (induction f stop t w rule: walk_minutes.induct)
  case (1 f stop t w)
  show ?case
  proof (cases "t < stop")
    case True
    with "1.prems"(1) obtain w1 where w1: "walk_step f stop t w = Inr w1"
      and rest: "walk_minutes f stop (min stop (minute_end t)) w1 = Inr w'"
      by (auto simp: walk_minutes.simps [of f stop t w] and_then_Inr_iff)
    have "walk_ok start (min stop (minute_end t)) w1"
      using walk_step_ok [OF "1.prems"(2) w1] "1.prems"(3,5) True by blast
    then show ?thesis
      using "1.prems"(3) True minute_end_bounds(1) [of t] minute_end_boundary [of stop t]
      by (intro "1.IH" [OF True rest]) auto
  next
    case False
    with "1.prems" show ?thesis by (simp add: walk_minutes.simps)
  qed
qed

subsection \<open>The integration returns\<close>

text \<open>Integration changes the accumulators only.\<close>

definition frame_of :: "hour_bucket \<Rightarrow> int \<times> int \<times> jstr \<times> jstr" where
  "frame_of h = (hb_from h, hb_to h, hb_date h, hb_hour h)"

definition books_for :: "walk \<Rightarrow> books \<Rightarrow> bool" where
  "books_for w b \<longleftrightarrow> map frame_of (bk_hours b) = map frame_of (wk_hours w)
     \<and> map fst (bk_days b) = map fst (wk_days w)"

lemma map_get_None_iff: "map_get m k = None \<longleftrightarrow> k \<notin> set (map fst m)"
  by (simp add: map_get_def map_of_eq_None_iff)

lemma map_set_keys: "map_get m k \<noteq> None \<Longrightarrow> map fst (map_set m k v) = map fst m"
  by (force simp: map_set_def map_get_def dest: map_of_SomeD)

lemma nth_frame:
  "map frame_of hs = map frame_of gs \<Longrightarrow> i < length gs \<Longrightarrow> frame_of (hs ! i) = frame_of (gs ! i)"
  by (metis length_map nth_map)

text \<open>A step that does not throw moves the cursor forward, to the end of its minute or of the gap.\<close>

lemma min_drop: "min s m \<le> h \<Longrightarrow> a \<le> s \<Longrightarrow> min (min a h) m = min a (m :: int)"
  by (simp add: min_def split: if_splits)

lemma piece_step_moves:
  assumes w: "walk_ok start stop w" and b: "books_for w b"
    and c: "start \<le> cursor" "cursor < stop'" "stop' \<le> stop"
    and step: "piece_step f asset sched (wk_byMinute w) p stop' cursor b = Inr (cursor', b')"
  shows "cursor < cursor' \<and> cursor' \<le> stop' \<and> books_for w b'
    \<and> (\<exists>outside. bk_total b' = account (seconds_between cursor cursor') p (st_activeThresholdW asset) outside (bk_total b))
    \<and> cursor' = min stop' (minute_end cursor)"
proof -
  from w c obtain i where i: "map_get (wk_byMinute w) (cursor div 60000) = Some i" "i < length (wk_hours w)"
    "min stop (minute_end cursor) \<le> hb_to (wk_hours w ! i)"
    by (auto simp: walk_ok_def minute_ok_def split: option.splits)
  have fr: "frame_of (bk_hours b ! i) = frame_of (wk_hours w ! i)"
    using b i(2) by (intro nth_frame) (simp_all add: books_for_def)
  then have to: "hb_to (bk_hours b ! i) = hb_to (wk_hours w ! i)" by (simp add: frame_of_def)
  define e where "e = min (min stop' (hb_to (bk_hours b ! i))) (minute_end cursor)"
  from step i(1) obtain day minute where m: "clockMinutes (in_clock f cursor) = Inr minute"
    and day: "map_get (bk_days b) (hb_date (bk_hours b ! i)) = Some day"
    by (auto simp: piece_step_def Let_def and_then_Inr_iff split: option.splits)
  define outside where "outside = (scheduleKnown (st_schedule asset) (hb_date (bk_hours b ! i))
    \<and> \<not> inside_schedule sched minute)"
  have b': "cursor' = e" "b' = (let add = account (seconds_between cursor e) p (st_activeThresholdW asset) outside
      in \<lparr>bk_hours = (bk_hours b)[i := (bk_hours b ! i)\<lparr>hb_acc := add (hb_acc (bk_hours b ! i))\<rparr>],
          bk_days = map_set (bk_days b) (hb_date (bk_hours b ! i)) (add day), bk_total = add (bk_total b)\<rparr>)"
    using step by (auto simp: piece_step_def Let_def i(1) m day e_def outside_def)
  have "map frame_of (bk_hours b') = map frame_of (bk_hours b)"
    by (simp add: b'(2) Let_def map_update frame_of_def)
      (metis (no_types, lifting) frame_of_def list_update_id map_update)
  moreover have "map fst (bk_days b') = map fst (bk_days b)"
    by (simp add: b'(2) Let_def map_set_keys day)
  ultimately have "books_for w b'" using b by (simp add: books_for_def)
  moreover have "cursor < e" using c i(3) minute_end_bounds(1) [of cursor] by (simp add: e_def to)
  moreover have "e \<le> stop'" by (simp add: e_def)
  moreover have "e = min stop' (minute_end cursor)"
    unfolding e_def to by (rule min_drop [OF i(3) c(3)])
  ultimately show ?thesis by (auto simp: b' Let_def)
qed

text \<open>Integration can only throw what one of its steps throws.\<close>

definition step_throws :: "intl \<Rightarrow> power_settings \<Rightarrow> int \<times> int \<Rightarrow> int \<Rightarrow> int \<Rightarrow> walk \<Rightarrow> bool" where
  "step_throws f asset sched start stop w \<longleftrightarrow>
     (\<exists>p stop' c b. start \<le> c \<and> c < stop \<and> books_for w b
        \<and> isl (piece_step f asset sched (wk_byMinute w) p stop' c b))"

definition integrated :: "intl \<Rightarrow> power_settings \<Rightarrow> int \<times> int \<Rightarrow> int \<Rightarrow> int \<Rightarrow> walk \<Rightarrow> books result option \<Rightarrow> bool" where
  "integrated f asset sched start stop w r \<longleftrightarrow>
     (case r of
        None \<Rightarrow> False
      | Some (Inl e) \<Rightarrow> step_throws f asset sched start stop w
      | Some (Inr b) \<Rightarrow> books_for w b)"

lemma integrate_gap_returns:
  assumes "walk_ok start stop w" "books_for w b" "start \<le> cursor" "stop' \<le> stop"
  shows "integrated f asset sched start stop w (integrate_gap f asset sched (wk_byMinute w) p stop' cursor b)"
  using assms
proof (induction "nat (stop' - cursor)" arbitrary: cursor b rule: less_induct)
  case less
  note unfold = integrate_gap.simps [of f asset sched _ _ _ cursor b]
  show ?case
  proof (cases "cursor < stop'")
    case False
    with less.prems(2) show ?thesis by (simp add: unfold integrated_def)
  next
    case True
    show ?thesis
    proof (cases "piece_step f asset sched (wk_byMinute w) p stop' cursor b")
      case (Inl e)
      have "step_throws f asset sched start stop w"
        unfolding step_throws_def using less.prems True Inl
        by (intro exI [of _ p] exI [of _ stop'] exI [of _ cursor] exI [of _ b]) simp
      with True Inl show ?thesis by (simp add: unfold integrated_def)
    next
      case (Inr q)
      obtain cursor' b' where q: "q = (cursor', b')" by (cases q)
      from piece_step_moves [OF less.prems(1,2,3) True less.prems(4) Inr [unfolded q]]
      have m: "cursor < cursor'" "cursor' \<le> stop'" "books_for w b'" by blast+
      from less.hyps [OF _ less.prems(1) m(3) _ less.prems(4)] m(1,2) less.prems(3) True
      show ?thesis by (simp add: unfold Inr q)
    qed
  qed
qed

lemma integrate_samples_returns:
  assumes w: "walk_ok start stop w" and b: "books_for w b"
  shows "integrated f asset sched start stop w
    (integrate_samples f asset sched (wk_byMinute w) tb maxGap start stop ss b)"
  using b
proof (induction ss arbitrary: b)
  case (Cons s ss)
  show ?case
  proof (cases ss)
    case Nil
    with Cons.prems show ?thesis by (simp add: integrated_def)
  next
    case (Cons s' ss')
    note IH = Cons.IH [unfolded Cons]
    let ?p = "case snd s of Some p \<Rightarrow> p | None \<Rightarrow> NaN"
    let ?r = "integrate_gap f asset sched (wk_byMinute w) ?p (min stop (fst s')) (max start (fst s)) b"
    have r: "integrated f asset sched start stop w ?r"
      by (rule integrate_gap_returns [OF w Cons.prems]) simp_all
    show ?thesis
    proof (cases "bracketed tb maxGap s s'")
      case True
      then show ?thesis
        using IH r by (cases ?r; cases "the ?r") (simp_all add: Cons integrated_def)
    next
      case False
      with IH [OF Cons.prems] Cons show ?thesis by simp
    qed
  qed
qed (simp add: integrated_def)

subsection \<open>Which requests are answered\<close>

definition schedule_ok :: "(jstr \<Rightarrow> int option) \<Rightarrow> power_schedule option \<Rightarrow> bool" where
  "schedule_ok host schedule \<longleftrightarrow>
     (case schedule of
        None \<Rightarrow> True
      | Some s \<Rightarrow> clock_form (sd_start s) \<and> clock_form (sd_end s) \<and> clockMinutes (sd_start s) \<noteq> clockMinutes (sd_end s)
          \<and> (case sd_effectiveFrom s of None \<Rightarrow> True | Some d \<Rightarrow> d = [] \<or> valid_date host d))"

definition request_ok ::
    "(jstr \<Rightarrow> int option) \<Rightarrow> (jstr \<Rightarrow> intl option) \<Rightarrow> power_query \<Rightarrow> power_settings \<Rightarrow> jnum \<Rightarrow> bool" where
  "request_ok host zones query asset maxGap \<longleftrightarrow>
     (case (date_parse host (pq_from query), date_parse host (pq_to query)) of
        (Some a, Some b) \<Rightarrow> a < b \<and> b - a \<le> 31 * 86400000
      | _ \<Rightarrow> False)
     \<and> is_finite maxGap \<and> jless (Fin 0) maxGap
     \<and> is_finite (st_activeThresholdW asset) \<and> jle (Fin 0) (st_activeThresholdW asset)
     \<and> zones (st_timezone asset) \<noteq> None \<and> schedule_ok host (st_schedule asset)"

lemma schedule_minutes_iff: "isl (schedule_minutes host schedule) \<longleftrightarrow> \<not> schedule_ok host schedule"
  by (cases schedule)
    (auto simp: schedule_minutes_def schedule_ok_def clockMinutes_def requires_def and_then_def)

lemma prepare_iff: "isl (prepare host zones query asset maxGap) \<longleftrightarrow> \<not> request_ok host zones query asset maxGap"
  using schedule_minutes_iff [of host "st_schedule asset"]
  by (auto simp: prepare_def request_ok_def requires_def and_then_def split: option.split sum.split)

lemma prepare_Inr:
  assumes "prepare host zones query asset maxGap = Inr (start, stop, f, sched)"
  shows "date_parse host (pq_from query) = Some start" "date_parse host (pq_to query) = Some stop"
    "start < stop" "stop - start \<le> 31 * 86400000" "zones (st_timezone asset) = Some f"
    "is_finite maxGap" "schedule_minutes host (st_schedule asset) = Inr sched"
  using assms by (auto simp: prepare_def and_then_Inr_iff split: option.splits)

text \<open>
  What ECMA-402 promises of the formatters: the date has its parts, the clock with two digits each in
  24 hours reads \<open>HH:MM\<close>.  What ECMA-262 promises of \<open>Date.parse\<close>: a number is a time value in range.
\<close>

definition zones_ok :: "(jstr \<Rightarrow> intl option) \<Rightarrow> bool" where
  "zones_ok zones \<longleftrightarrow> (\<forall>z f t. zones z = Some f \<longrightarrow> clock_form (in_clock f t)
     \<and> {js ''year'', js ''month'', js ''day''} \<subseteq> set (map fst (in_date_parts f t)))"

definition parses_in_range :: "(jstr \<Rightarrow> int option) \<Rightarrow> bool" where
  "parses_in_range host \<longleftrightarrow> (\<forall>s t. host s = Some t \<longrightarrow> time_in_range t)"

lemma date_parse_in_range: "parses_in_range host \<Longrightarrow> date_parse host s = Some t \<Longrightarrow> time_in_range t"
  using parse_iso_common_year(1) [of s t] common_year_in_range [of t]
  by (auto simp: date_parse_def parse_expanded_def parses_in_range_def Let_def split: option.splits if_splits)

lemma formatted_date_returns:
  assumes "zones_ok zones" "zones z = Some f"
  shows "\<exists>d. formattedDate (in_date_parts f t) = Inr d"
proof -
  from assms have k: "js ''year'' \<in> set (map fst (in_date_parts f t))"
    "js ''month'' \<in> set (map fst (in_date_parts f t))" "js ''day'' \<in> set (map fst (in_date_parts f t))"
    by (simp_all add: zones_ok_def)
  have "k \<in> set (map fst m) \<Longrightarrow> \<exists>v. map_of m k = Some v" for k and m :: "(jstr \<times> jstr) list"
    by (metis list.set_map map_of_eq_None_iff not_None_eq)
  from this [OF k(1)] this [OF k(2)] this [OF k(3)] show ?thesis by (auto simp: formattedDate_def)
qed

lemma walk_minutes_returns:
  assumes "zones_ok zones" "zones z = Some f"
  shows "\<exists>w'. walk_minutes f stop t w = Inr w'"
proof (induction "nat (stop - t)" arbitrary: t w rule: less_induct)
  case less
  show ?case
  proof (cases "t < stop")
    case True
    obtain w1 where "walk_step f stop t w = Inr w1"
      using formatted_date_returns [OF assms, of t] by (auto simp: walk_step_def Let_def)
    moreover obtain w' where "walk_minutes f stop (min stop (minute_end t)) w1 = Inr w'"
      using less [of "min stop (minute_end t)" w1] True minute_end_bounds(1) [of t] by auto
    ultimately show ?thesis using True by (simp add: walk_minutes.simps [of f stop t w])
  qed (simp add: walk_minutes.simps)
qed

lemma piece_step_returns:
  assumes w: "walk_ok start stop w" and b: "books_for w b" and c: "start \<le> cursor" "cursor < stop"
    and z: "zones_ok zones" "zones z = Some f"
  shows "\<exists>q. piece_step f asset sched (wk_byMinute w) p stop' cursor b = Inr q"
proof -
  from w c obtain i where i: "map_get (wk_byMinute w) (cursor div 60000) = Some i" "i < length (wk_hours w)"
    by (auto simp: walk_ok_def minute_ok_def split: option.splits)
  have "frame_of (bk_hours b ! i) = frame_of (wk_hours w ! i)"
    using b i(2) by (intro nth_frame) (simp_all add: books_for_def)
  then have "hb_date (bk_hours b ! i) = hb_date (wk_hours w ! i)" by (simp add: frame_of_def)
  moreover have "map_get (wk_days w) (hb_date (wk_hours w ! i)) \<noteq> None"
    using w nth_mem [OF i(2)] by (simp add: walk_ok_def)
  ultimately have "map_get (bk_days b) (hb_date (bk_hours b ! i)) \<noteq> None"
    using b by (simp add: map_get_None_iff books_for_def)
  then obtain day where "map_get (bk_days b) (hb_date (bk_hours b ! i)) = Some day" by blast
  moreover have "\<exists>m. clockMinutes (in_clock f cursor) = Inr m"
    using z by (simp add: zones_ok_def clockMinutes_def)
  ultimately show ?thesis using i(1) by (auto simp: piece_step_def Let_def)
qed

lemma no_step_throws:
  assumes "walk_ok start stop w" "zones_ok zones" "zones z = Some f"
  shows "\<not> step_throws f asset sched start stop w"
proof
  assume "step_throws f asset sched start stop w"
  then obtain p stop' c b where c: "start \<le> c" "c < stop" "books_for w b"
    and l: "isl (piece_step f asset sched (wk_byMinute w) p stop' c b)"
    unfolding step_throws_def by blast
  from piece_step_returns [OF assms(1) c(3,1,2) assms(2,3)] l show False by (metis sum.disc(2))
qed

lemma hour_rows_return:
  assumes "list_all (\<lambda>h. time_in_range (hb_from h) \<and> time_in_range (hb_to h)) hs"
  shows "\<exists>rows. map_result (hour_row schedule) hs = Inr rows"
  using assms by (induction hs) (auto simp: hour_row_def to_iso_def)

abbreviation start_walk :: walk where
  "start_walk \<equiv> \<lparr>wk_hours = [], wk_byMinute = [], wk_days = [], wk_key = []\<rparr>"

lemma start_walk_ok: "walk_ok start start start_walk"
  by (auto simp: walk_ok_def)

lemma books_tiles:
  assumes "walk_ok start stop w" "books_for w b"
  shows "tiles start stop (map span_of (bk_hours b))"
proof -
  have "map span_of (bk_hours b) = map (\<lambda>(a, c, _). (a, c)) (map frame_of (bk_hours b))"
    by (simp add: frame_of_def)
  also have "\<dots> = map (\<lambda>(a, c, _). (a, c)) (map frame_of (wk_hours w))"
    using assms(2) by (simp only: books_for_def)
  also have "\<dots> = map span_of (wk_hours w)" by (simp add: frame_of_def)
  finally show ?thesis using assms(1) by (simp add: walk_ok_def)
qed

text \<open>
  C30. The analysis always returns: its loops over minutes and over the pieces of a gap end whatever the
  samples, the settings and the formatters are.
\<close>

theorem analysis_returns:
  "analyzePowerHistory host zones obs query asset maxGap \<noteq> None"
proof (cases "prepare host zones query asset maxGap")
  case (Inl e)
  then show ?thesis by (simp add: analyzePowerHistory_def)
next
  case (Inr q)
  obtain start stop f sched where q: "q = (start, stop, f, sched)" by (cases q)
  have le: "start \<le> stop" using prepare_Inr(3) [OF Inr [unfolded q]] by simp
  show ?thesis
  proof (cases "walk_minutes f stop start start_walk")
    case (Inl e)
    with Inr q show ?thesis by (simp add: analyzePowerHistory_def Let_def)
  next
    case w: (Inr w)
    let ?b = "\<lparr>bk_hours = wk_hours w, bk_days = wk_days w, bk_total = empty_acc (seconds_between start stop)\<rparr>"
    have "walk_ok start stop w" by (rule walk_minutes_ok [OF w start_walk_ok]) (use le in simp_all)
    from integrate_samples_returns [OF this, of ?b f asset sched "read_observations host obs" maxGap
        "sorted_samples (read_observations host obs)"]
    have "integrate_samples f asset sched (wk_byMinute w) (read_observations host obs) maxGap start stop
        (sorted_samples (read_observations host obs)) ?b \<noteq> None"
      by (auto simp: books_for_def integrated_def split: option.splits)
    with Inr q w show ?thesis
      by (auto simp: analyzePowerHistory_def Let_def split: sum.split)
  qed
qed

lemma analysis_parts:
  assumes "request_ok host zones query asset maxGap" "zones_ok zones" "parses_in_range host"
  shows "\<exists>start stop f sched w b rows.
    prepare host zones query asset maxGap = Inr (start, stop, f, sched)
    \<and> walk_minutes f stop start start_walk = Inr w \<and> walk_ok start stop w
    \<and> integrate_samples f asset sched (wk_byMinute w) (read_observations host obs) maxGap start stop
        (sorted_samples (read_observations host obs))
        \<lparr>bk_hours = wk_hours w, bk_days = wk_days w, bk_total = empty_acc (seconds_between start stop)\<rparr> = Some (Inr b)
    \<and> books_for w b \<and> map_result (hour_row (st_schedule asset)) (bk_hours b) = Inr rows"
proof -
  from assms(1) obtain start stop f sched
    where q: "prepare host zones query asset maxGap = Inr (start, stop, f, sched)"
    using prepare_iff [of host zones query asset maxGap] by (cases "prepare host zones query asset maxGap") auto
  note p = prepare_Inr [OF q]
  from walk_minutes_returns [OF assms(2) p(5)] obtain w where w: "walk_minutes f stop start start_walk = Inr w" ..
  have ok: "walk_ok start stop w" by (rule walk_minutes_ok [OF w start_walk_ok]) (use p(3) in simp_all)
  let ?b = "\<lparr>bk_hours = wk_hours w, bk_days = wk_days w, bk_total = empty_acc (seconds_between start stop)\<rparr>"
  have "books_for w ?b" by (simp add: books_for_def)
  from integrate_samples_returns [OF ok this, of f asset sched "read_observations host obs" maxGap
      "sorted_samples (read_observations host obs)"] no_step_throws [OF ok assms(2) p(5)]
  obtain b where b: "integrate_samples f asset sched (wk_byMinute w) (read_observations host obs) maxGap start stop
      (sorted_samples (read_observations host obs)) ?b = Some (Inr b)" "books_for w b"
    by (auto simp: integrated_def split: option.splits sum.splits)
  have "time_in_range start" "time_in_range stop"
    using date_parse_in_range [OF assms(3)] p(1,2) by blast+
  moreover note tiles_bounds [OF books_tiles [OF ok b(2)]]
  ultimately have "list_all (\<lambda>h. time_in_range (hb_from h) \<and> time_in_range (hb_to h)) (bk_hours b)"
    by (fastforce simp: list_all_iff time_in_range_def abs_le_iff)
  from hour_rows_return [OF this] q w ok b show ?thesis by blast
qed

lemma valid_requests_answered:
  assumes "request_ok host zones query asset maxGap" "zones_ok zones" "parses_in_range host"
  shows "\<exists>a. analyzePowerHistory host zones obs query asset maxGap = Some (Inr a)"
  using analysis_parts [OF assms, of obs] by (auto simp: analyzePowerHistory_def Let_def analysis_of_def)

text \<open>
  C31. With formatters and a date parser that keep the promises of the standards, the analysis answers
  exactly the requests whose range is positive and at most 31 days, whose gap and threshold are finite
  (the gap positive, the threshold not negative), whose time zone is known and whose schedule is a pair
  of distinct clock times with an existing effective date; every other request is refused with an error.
\<close>

theorem analysis_answers_valid_requests:
  assumes "zones_ok zones" "parses_in_range host"
  shows "(\<exists>a. analyzePowerHistory host zones obs query asset maxGap = Some (Inr a))
    \<longleftrightarrow> request_ok host zones query asset maxGap"
proof
  assume "request_ok host zones query asset maxGap"
  then show "\<exists>a. analyzePowerHistory host zones obs query asset maxGap = Some (Inr a)"
    by (rule valid_requests_answered [OF _ assms])
next
  assume "\<exists>a. analyzePowerHistory host zones obs query asset maxGap = Some (Inr a)"
  then have "\<not> isl (prepare host zones query asset maxGap)"
    by (auto simp: analyzePowerHistory_def split: sum.splits)
  then show "request_ok host zones query asset maxGap" using prepare_iff by blast
qed

lemma analysis_Inr:
  assumes "analyzePowerHistory host zones obs query asset maxGap = Some (Inr a)"
  obtains start stop f sched w b where
    "prepare host zones query asset maxGap = Inr (start, stop, f, sched)" "walk_ok start stop w"
    "integrate_samples f asset sched (wk_byMinute w) (read_observations host obs) maxGap start stop
        (sorted_samples (read_observations host obs))
        \<lparr>bk_hours = wk_hours w, bk_days = wk_days w, bk_total = empty_acc (seconds_between start stop)\<rparr> = Some (Inr b)"
    "books_for w b" "analysis_of asset maxGap (read_observations host obs) b = Inr a"
proof -
  from assms obtain q where q: "prepare host zones query asset maxGap = Inr q"
    by (auto simp: analyzePowerHistory_def split: sum.splits)
  obtain start stop f sched where qq: "q = (start, stop, f, sched)" by (cases q)
  from assms q qq obtain w where w: "walk_minutes f stop start start_walk = Inr w"
    by (auto simp: analyzePowerHistory_def Let_def split: sum.splits)
  have ok: "walk_ok start stop w"
    by (rule walk_minutes_ok [OF w start_walk_ok]) (use prepare_Inr(3) [OF q [unfolded qq]] in simp_all)
  let ?b = "\<lparr>bk_hours = wk_hours w, bk_days = wk_days w, bk_total = empty_acc (seconds_between start stop)\<rparr>"
  from assms q qq w obtain b where b: "integrate_samples f asset sched (wk_byMinute w) (read_observations host obs)
        maxGap start stop (sorted_samples (read_observations host obs)) ?b = Some (Inr b)"
      and a: "analysis_of asset maxGap (read_observations host obs) b = Inr a"
    by (auto simp: analyzePowerHistory_def Let_def split: sum.splits option.splits)
  have "books_for w ?b" by (simp add: books_for_def)
  from integrate_samples_returns [OF ok this, of f asset sched "read_observations host obs" maxGap
      "sorted_samples (read_observations host obs)"] b
  have "books_for w b" by (simp add: integrated_def)
  with that [OF q [unfolded qq] ok b] a show thesis by blast
qed

lemma hour_rows_spans:
  "map_result (hour_row schedule) hs = Inr rows
    \<Longrightarrow> map (\<lambda>r. (ph_from r, ph_to r)) rows = map (\<lambda>h. (iso_string (hb_from h), iso_string (hb_to h))) hs"
  by (induction hs arbitrary: rows) (auto simp: hour_row_def and_then_Inr_iff to_iso_Inr_iff)

text \<open>
  C32. The hourly rows of an analysis tile the queried range: the first starts with it, each is non-empty
  and starts where the one before it ends, and the last ends with it.
\<close>

theorem hourly_rows_tile_the_range:
  assumes "analyzePowerHistory host zones obs query asset maxGap = Some (Inr a)"
  shows "\<exists>start stop spans. date_parse host (pq_from query) = Some start \<and> date_parse host (pq_to query) = Some stop
    \<and> tiles start stop spans
    \<and> map (\<lambda>r. (ph_from r, ph_to r)) (pa_hourly a) = map (\<lambda>(c, d). (iso_string c, iso_string d)) spans"
proof -
  obtain start stop f sched w b
    where p: "prepare host zones query asset maxGap = Inr (start, stop, f, sched)" and w: "walk_ok start stop w"
    and b: "books_for w b" and a: "analysis_of asset maxGap (read_observations host obs) b = Inr a"
    by (rule analysis_Inr [OF assms])
  from a have "map_result (hour_row (st_schedule asset)) (bk_hours b) = Inr (pa_hourly a)"
    by (auto simp: analysis_of_def and_then_Inr_iff)
  from hour_rows_spans [OF this] books_tiles [OF w b] prepare_Inr(1,2) [OF p] show ?thesis
    by (intro exI [of _ start] exI [of _ stop] exI [of _ "map span_of (bk_hours b)"]) simp
qed

subsection \<open>How much of the range is covered\<close>

text \<open>
  The covered time: the part within the range of every gap between neighbouring samples that is
  bracketed.
\<close>

fun covered_ms :: "sample_table \<Rightarrow> jnum \<Rightarrow> int \<Rightarrow> int \<Rightarrow> (int \<times> jnum option) list \<Rightarrow> int" where
  "covered_ms tb maxGap start stop (s # s' # ss) =
     (if bracketed tb maxGap s s' then max 0 (min stop (fst s') - max start (fst s)) else 0)
     + covered_ms tb maxGap start stop (s' # ss)"
| "covered_ms tb maxGap start stop ss = 0"

lemma covered_nonneg: "0 \<le> covered_ms tb maxGap start stop ss"
  by (induction tb maxGap start stop ss rule: covered_ms.induct) auto

lemma covered_le:
  "sorted_wrt (<) (map fst ss) \<Longrightarrow> ss \<noteq> []
    \<Longrightarrow> covered_ms tb maxGap start stop ss \<le> max 0 (stop - max start (fst (hd ss)))"
proof (induction tb maxGap start stop ss rule: covered_ms.induct)
  case (1 tb maxGap start stop s s' ss)
  let ?here = "if bracketed tb maxGap s s' then max 0 (min stop (fst s') - max start (fst s)) else 0"
  have "covered_ms tb maxGap start stop (s' # ss) \<le> max 0 (stop - max start (fst s'))"
    using 1 by simp
  moreover have "?here + max 0 (stop - max start (fst s')) \<le> max 0 (stop - max start (fst s))"
    using "1.prems"(1) by (simp add: max_def min_def)
  ultimately show ?case by simp
qed auto

lemma covered_le_range:
  assumes "sorted_wrt (<) (map fst ss)" "start \<le> stop"
  shows "covered_ms tb maxGap start stop ss \<le> stop - start"
  using covered_le [OF assms(1), of tb maxGap start stop] assms(2) by (cases "ss = []") auto

lemma sorted_samples_ascending: "sorted_wrt (<) (map fst (sorted_samples (read_observations host obs)))"
proof -
  have "distinct (map fst (tb_power (read_observation host ob tb)))" if "distinct (map fst (tb_power tb))" for ob tb
    using that by (auto simp: read_observation_def Let_def distinct_map_set split: option.split)
  then have d: "distinct (map fst (tb_power (read_observations host obs)))"
    unfolding read_observations_def
    by (intro fold_invariant [where P = "\<lambda>tb. distinct (map fst (tb_power tb))"]) simp_all
  have "sorted_samples (read_observations host obs) = sort_key fst (tb_power (read_observations host obs))"
    unfolding sorted_samples_def by (rule js_sort_key) simp
  moreover have "distinct (map fst (sort_key fst (tb_power (read_observations host obs))))"
    using d by (simp add: distinct_map)
  ultimately show ?thesis by (simp add: strict_sorted_iff)
qed

definition whole :: "int \<Rightarrow> bool" where
  "whole t \<longleftrightarrow> 1000 dvd t"

lemma whole_minute_end: "whole (minute_end t)"
proof -
  have "(1000 :: int) dvd 60000" by simp
  then show ?thesis unfolding whole_def minute_end_def by (rule dvd_mult)
qed

lemma whole_min_max: "whole a \<Longrightarrow> whole b \<Longrightarrow> whole (min a b)" "whole a \<Longrightarrow> whole b \<Longrightarrow> whole (max a b)"
  by (simp_all add: min_def max_def)

lemma whole_diff: "whole a \<Longrightarrow> whole b \<Longrightarrow> 1000 * ((b - a) div 1000) = b - a"
  by (simp add: whole_def)

lemma seconds_between_whole:
  assumes "whole a" "whole b" "\<bar>b - a\<bar> < 2 ^ 53"
  shows "seconds_between a b = Fin (of_int ((b - a) div 1000))"
proof -
  let ?n = "(b - a) div 1000"
  have n: "b - a = 1000 * ?n" using whole_diff [OF assms(1,2)] by simp
  then have "\<bar>?n\<bar> < 2 ^ 53" using assms(3) by linarith
  moreover have "(of_int (b - a) :: rat) / 1000 = of_int ?n" by (subst n) simp
  ultimately show ?thesis using fl_int [of ?n] by (simp add: seconds_between_def del: of_int_diff)
qed

lemma integrate_gap_covers:
  assumes "walk_ok start stop w" "books_for w b" "start \<le> cursor" "stop' \<le> stop"
    and "whole cursor" "whole stop'" "ac_coveredSeconds (bk_total b) = Fin (of_int x)"
    and "0 \<le> x" "x + max 0 (stop' - cursor) < 2 ^ 53"
    and "integrate_gap f asset sched (wk_byMinute w) p stop' cursor b = Some (Inr b')"
  shows "ac_coveredSeconds (bk_total b') = Fin (of_int (x + max 0 (stop' - cursor) div 1000))
    \<and> ac_expectedSeconds (bk_total b') = ac_expectedSeconds (bk_total b)"
  using assms
proof (induction "nat (stop' - cursor)" arbitrary: cursor b x rule: less_induct)
  case less
  note unfold = integrate_gap.simps [of f asset sched _ _ _ cursor b]
  show ?case
  proof (cases "cursor < stop'")
    case False
    with less.prems(7,10) show ?thesis by (simp add: unfold)
  next
    case True
    with less.prems(10) obtain c b1
      where step: "piece_step f asset sched (wk_byMinute w) p stop' cursor b = Inr (c, b1)"
        and rest: "integrate_gap f asset sched (wk_byMinute w) p stop' c b1 = Some (Inr b')"
      by (auto simp: unfold split: sum.splits)
    from piece_step_moves [OF less.prems(1,2,3) True less.prems(4) step] obtain outside
      where m: "cursor < c" "c \<le> stop'" "books_for w b1" "c = min stop' (minute_end cursor)"
        and t: "bk_total b1 = account (seconds_between cursor c) p (st_activeThresholdW asset) outside (bk_total b)"
      by blast
    have wc: "whole c" using less.prems(6) whole_minute_end whole_min_max(1) by (simp add: m(4))
    let ?d = "(c - cursor) div 1000" and ?r = "(stop' - c) div 1000"
    have d: "1000 * ?d = c - cursor" "1000 * ?r = stop' - c" "1000 * ((stop' - cursor) div 1000) = stop' - cursor"
      using whole_diff less.prems(5,6) wc by blast+
    with m(1,2) have nn: "0 \<le> ?d" "0 \<le> ?r" by linarith+
    have bound: "x + (stop' - cursor) < 2 ^ 53" using less.prems(9) True by simp
    have "seconds_between cursor c = Fin (of_int ?d)"
      using m(1,2) bound less.prems(8) by (intro seconds_between_whole less.prems(5) wc) linarith
    moreover have "safe_int (x + ?d)"
      unfolding safe_int_def using nn d m(1,2) bound less.prems(8) by linarith
    ultimately have y: "ac_coveredSeconds (bk_total b1) = Fin (of_int (x + ?d))"
      using t less.prems(7) jadd_int [of x ?d] by (simp add: account_def)
    have "x + ?d + max 0 (stop' - c) < 2 ^ 53" using nn d m(1,2) bound by simp
    from less.hyps [OF _ less.prems(1) m(3) _ less.prems(4) wc less.prems(6) y _ this rest]
    have "ac_coveredSeconds (bk_total b') = Fin (of_int (x + ?d + max 0 (stop' - c) div 1000))
        \<and> ac_expectedSeconds (bk_total b') = ac_expectedSeconds (bk_total b1)"
      using m(1,2) less.prems(3,8) nn(1) True by simp
    moreover have "?d + ?r = (stop' - cursor) div 1000" using d by linarith
    moreover have "ac_expectedSeconds (bk_total b1) = ac_expectedSeconds (bk_total b)" by (simp add: t account_def)
    ultimately show ?thesis using m(2) True by (simp add: max_def)
  qed
qed

lemma integrate_samples_covers:
  assumes w: "walk_ok start stop w" and b: "books_for w b" and le: "start \<le> stop"
    and whole: "whole start" "whole stop" "list_all (\<lambda>s. whole (fst s)) ss"
    and x: "ac_coveredSeconds (bk_total b) = Fin (of_int x)" "0 \<le> x"
    and bound: "x + covered_ms tb maxGap start stop ss < 2 ^ 53"
    and r: "integrate_samples f asset sched (wk_byMinute w) tb maxGap start stop ss b = Some (Inr b')"
  shows "ac_coveredSeconds (bk_total b') = Fin (of_int (x + covered_ms tb maxGap start stop ss div 1000))
    \<and> 1000 dvd covered_ms tb maxGap start stop ss
    \<and> ac_expectedSeconds (bk_total b') = ac_expectedSeconds (bk_total b)"
  using b whole(3) x bound r
proof (induction ss arbitrary: b x)
  case (Cons s ss)
  show ?case
  proof (cases ss)
    case Nil
    with Cons.prems show ?thesis by simp
  next
    case (Cons s' ss')
    note IH = Cons.IH [unfolded Cons]
    have ws: "whole (fst s)" "whole (fst s')" "list_all (\<lambda>s. whole (fst s)) (s' # ss')"
      using Cons.prems(2) Cons by simp_all
    let ?p = "case snd s of Some p \<Rightarrow> p | None \<Rightarrow> NaN" and ?stop = "min stop (fst s')" and ?c = "max start (fst s)"
    let ?rest = "covered_ms tb maxGap start stop (s' # ss')"
    have rest: "0 \<le> ?rest" by (rule covered_nonneg)
    show ?thesis
    proof (cases "bracketed tb maxGap s s'")
      case False
      with IH [OF Cons.prems(1) ws(3) Cons.prems(3,4)] Cons.prems(5,6) show ?thesis by (simp add: Cons)
    next
      case True
      with Cons.prems(6) Cons obtain b1
        where g: "integrate_gap f asset sched (wk_byMinute w) ?p ?stop ?c b = Some (Inr b1)"
          and rs: "integrate_samples f asset sched (wk_byMinute w) tb maxGap start stop (s' # ss') b1 = Some (Inr b')"
        by (auto split: option.splits sum.splits)
      have wh: "whole ?c" "whole ?stop" using whole(1,2) ws(1,2) whole_min_max by blast+
      let ?g = "max 0 (?stop - ?c)"
      have tot: "x + (?g + ?rest) < 2 ^ 53" using Cons.prems(5) True by (simp add: Cons)
      have b1: "books_for w b1"
        using integrate_gap_returns [OF w Cons.prems(1), of ?c ?stop f asset sched ?p] g by (simp add: integrated_def)
      define d where "d = ?g div 1000"
      have d1: "ac_coveredSeconds (bk_total b1) = Fin (of_int (x + d))
          \<and> ac_expectedSeconds (bk_total b1) = ac_expectedSeconds (bk_total b)"
        unfolding d_def
        by (rule integrate_gap_covers [OF w Cons.prems(1) _ _ wh Cons.prems(3,4) _ g]) (use tot rest in simp_all)
      have "1000 dvd ?g" using wh by (simp add: whole_def max_def)
      then have d2: "?g = 1000 * d" by (simp only: d_def dvd_mult_div_cancel)
      have d3: "0 \<le> d" by (simp add: d_def)
      have "x + d + ?rest < 2 ^ 53" using tot d3 unfolding d2 by linarith
      from IH [OF b1 ws(3) conjunct1 [OF d1] _ this rs] Cons.prems(4) d3
      have "ac_coveredSeconds (bk_total b') = Fin (of_int (x + d + ?rest div 1000)) \<and> 1000 dvd ?rest
          \<and> ac_expectedSeconds (bk_total b') = ac_expectedSeconds (bk_total b)"
        using d1 by simp
      moreover have "(?g + ?rest) div 1000 = d + ?rest div 1000" unfolding d2 by simp
      moreover have "covered_ms tb maxGap start stop (s # ss) = ?g + ?rest" using True by (simp add: Cons)
      ultimately show ?thesis using \<open>1000 dvd ?g\<close> by (simp only: dvd_add) (simp only: add.assoc)
    qed
  qed
qed simp

definition whole_observation :: "(jstr \<Rightarrow> int option) \<Rightarrow> power_observation \<Rightarrow> bool" where
  "whole_observation host ob = (case date_parse host (po_observedAt ob) of Some t \<Rightarrow> whole t | None \<Rightarrow> True)"

lemma whole_samples:
  assumes "list_all (whole_observation host) obs"
  shows "list_all (\<lambda>s. whole (fst s)) (sorted_samples (read_observations host obs))"
proof -
  have keys: "map fst (map_set m t v) = map fst m \<or> map fst (map_set m t v) = map fst m @ [t]"
    for m t and v :: "jnum option"
    by (simp add: map_set_def)
  have "list_all whole (map fst (tb_power (read_observations host obs)))"
    unfolding read_observations_def
  proof (rule fold_invariant [where P = "\<lambda>tb :: sample_table. list_all whole (map fst (tb_power tb))"])
    fix ob and tb :: sample_table assume "ob \<in> set obs" and tb: "list_all whole (map fst (tb_power tb))"
    with assms have ob: "whole_observation host ob" by (simp add: list_all_iff)
    show "list_all whole (map fst (tb_power (read_observation host ob tb)))"
    proof (cases "date_parse host (po_observedAt ob)")
      case None
      with tb show ?thesis by (simp add: read_observation_def)
    next
      case (Some t)
      with ob have t: "whole t" by (simp add: whole_observation_def)
      have "tb_power (read_observation host ob tb) = tb_power tb
          \<or> (\<exists>v. tb_power (read_observation host ob tb) = map_set (tb_power tb) t v)"
        using Some by (auto simp: read_observation_def Let_def split: option.split)
      then have "map fst (tb_power (read_observation host ob tb)) \<in> {map fst (tb_power tb), map fst (tb_power tb) @ [t]}"
        using keys [of "tb_power tb" t] by (metis insert_iff)
      then consider "map fst (tb_power (read_observation host ob tb)) = map fst (tb_power tb)"
        | "map fst (tb_power (read_observation host ob tb)) = map fst (tb_power tb) @ [t]" by blast
      then show ?thesis
        by cases (simp_all only: tb t list_all_append list.pred_inject simp_thms)
    qed
  qed simp
  then show ?thesis by (simp add: sorted_samples_def list_all_iff)
qed

text \<open>
  C33. No extrapolation: when all instants are whole seconds, the covered seconds of the summary are
  exactly the time within the range between neighbouring samples of one series that both have a value and
  lie at most the maximal gap apart; they never exceed the expected seconds, the length of the range.
\<close>

theorem covered_seconds_are_exact:
  assumes "analyzePowerHistory host zones obs query asset maxGap = Some (Inr a)"
    and "date_parse host (pq_from query) = Some start" "date_parse host (pq_to query) = Some stop"
    and "whole start" "whole stop" "list_all (whole_observation host) obs"
  defines "tb \<equiv> read_observations host obs"
  defines "c \<equiv> covered_ms tb maxGap start stop (sorted_samples tb)"
  shows "ps_coveredSeconds (pa_summary a) = Fin (of_int (c div 1000)) \<and> 1000 dvd c \<and> 0 \<le> c \<and> c \<le> stop - start
    \<and> ps_expectedSeconds (pa_summary a) = Fin (of_int ((stop - start) div 1000))"
proof -
  obtain start' stop' f sched w b
    where p: "prepare host zones query asset maxGap = Inr (start', stop', f, sched)" and w: "walk_ok start' stop' w"
    and r: "integrate_samples f asset sched (wk_byMinute w) tb maxGap start' stop' (sorted_samples tb)
        \<lparr>bk_hours = wk_hours w, bk_days = wk_days w, bk_total = empty_acc (seconds_between start' stop')\<rparr> = Some (Inr b)"
    and b: "books_for w b" and a: "analysis_of asset maxGap tb b = Inr a"
    unfolding tb_def by (rule analysis_Inr [OF assms(1)])
  note q = prepare_Inr [OF p]
  from q(1,2) assms(2,3) have eq: "start' = start" "stop' = stop" by simp_all
  have c: "0 \<le> c" "c \<le> stop - start"
    unfolding c_def tb_def using q(3) eq
    by (simp_all add: covered_nonneg covered_le_range [OF sorted_samples_ascending])
  have small: "stop - start < 2 ^ 53" using q(4) eq by simp
  have total: "ac_coveredSeconds (bk_total b) = Fin (of_int (0 + c div 1000)) \<and> 1000 dvd c
      \<and> ac_expectedSeconds (bk_total b) = seconds_between start stop"
    using integrate_samples_covers [OF w [unfolded eq] _ _ assms(4,5) _ _ _ _ r [unfolded eq], of 0]
      whole_samples [OF assms(6)] q(3) eq c(2) small
    by (simp add: books_for_def empty_acc_def c_def tb_def)
  have "seconds_between start stop = Fin (of_int ((stop - start) div 1000))"
    using assms(4,5) small q(3) eq by (intro seconds_between_whole) simp_all
  with total c a show ?thesis by (auto simp: analysis_of_def and_then_Inr_iff stats_def Let_def)
qed

subsection \<open>An example\<close>

text \<open>Two minutes of a June morning, the first of them covered by two samples.\<close>

definition demo_zone :: "jstr \<Rightarrow> intl option" where
  "demo_zone _ = Some \<lparr>in_date_parts = (\<lambda>_. [(js ''year'', js ''2025''), (js ''month'', js ''06''), (js ''day'', js ''01'')]),
     in_clock = (\<lambda>_. js ''10:00''), in_hour_key = (\<lambda>_. js ''10 GMT'')\<rparr>"

definition demo_query :: power_query where
  "demo_query = \<lparr>pq_from = js ''2025-06-01T10:00:00.000Z'', pq_to = js ''2025-06-01T10:02:00.000Z''\<rparr>"

definition demo_settings :: power_settings where
  "demo_settings = \<lparr>st_timezone = js ''UTC'', st_activeThresholdW = Fin 10, st_schedule = None\<rparr>"

definition demo_power :: "power_observation list" where
  "demo_power = [\<lparr>po_observedAt = js ''2025-06-01T10:01:00.000Z'', po_powerW = Some (Fin 60), po_seriesId = None\<rparr>,
     \<lparr>po_observedAt = js ''2025-06-01T10:00:00.000Z'', po_powerW = Some (Fin 60), po_seriesId = None\<rparr>]"

lemma demo_power_times:
  "date_parse (\<lambda>_. None) (js ''2025-06-01T10:00:00.000Z'') = Some 1748772000000"
  "date_parse (\<lambda>_. None) (js ''2025-06-01T10:01:00.000Z'') = Some 1748772060000"
  "date_parse (\<lambda>_. None) (js ''2025-06-01T10:02:00.000Z'') = Some 1748772120000"
  by code_simp+

lemma demo_zones_ok: "zones_ok demo_zone" "parses_in_range (\<lambda>_. None)"
proof -
  have "clock_form (js ''10:00'')" by code_simp
  then show "zones_ok demo_zone" by (simp add: zones_ok_def demo_zone_def)
qed (simp add: parses_in_range_def)

lemma demo_request_ok: "request_ok (\<lambda>_. None) demo_zone demo_query demo_settings (Fin 300)"
  by (simp add: request_ok_def demo_query_def demo_settings_def demo_power_times schedule_ok_def demo_zone_def
      is_finite_def)

theorem analysis_answers_valid_requests_witness:
  "\<exists>a. analyzePowerHistory (\<lambda>_. None) demo_zone demo_power demo_query demo_settings (Fin 300) = Some (Inr a)"
  using demo_request_ok by (simp only: analysis_answers_valid_requests [OF demo_zones_ok])

lemma demo_analysis:
  "\<exists>a. analyzePowerHistory (\<lambda>_. None) demo_zone demo_power demo_query demo_settings (Fin 300) = Some (Inr a)"
  by (rule valid_requests_answered [OF demo_request_ok demo_zones_ok])

theorem hourly_rows_tile_the_range_witness:
  "\<exists>a spans. analyzePowerHistory (\<lambda>_. None) demo_zone demo_power demo_query demo_settings (Fin 300) = Some (Inr a)
     \<and> tiles 1748772000000 1748772120000 spans
     \<and> map (\<lambda>r. (ph_from r, ph_to r)) (pa_hourly a) = map (\<lambda>(c, d). (iso_string c, iso_string d)) spans"
proof -
  from demo_analysis obtain a
    where a: "analyzePowerHistory (\<lambda>_. None) demo_zone demo_power demo_query demo_settings (Fin 300) = Some (Inr a)" ..
  from hourly_rows_tile_the_range [OF this] a show ?thesis by (auto simp: demo_query_def demo_power_times)
qed

lemma demo_covered:
  "covered_ms (read_observations (\<lambda>_. None) demo_power) (Fin 300) 1748772000000 1748772120000
     (sorted_samples (read_observations (\<lambda>_. None) demo_power)) = 60000"
  using jsub_int [of 1748772060000 1748772000000]
  by (simp add: read_observations_def demo_power_def read_observation_def demo_power_times valid_power_def
      is_finite_def Let_def store_simps map_set_def map_get_def sorted_samples_def js_sort_def bracketed_def fl_numerals
      safe_int_def)

theorem covered_seconds_are_exact_witness:
  "\<exists>a. analyzePowerHistory (\<lambda>_. None) demo_zone demo_power demo_query demo_settings (Fin 300) = Some (Inr a)
     \<and> ps_coveredSeconds (pa_summary a) = Fin 60 \<and> ps_expectedSeconds (pa_summary a) = Fin 120"
proof -
  from demo_analysis obtain a
    where a: "analyzePowerHistory (\<lambda>_. None) demo_zone demo_power demo_query demo_settings (Fin 300) = Some (Inr a)" ..
  have "list_all (whole_observation (\<lambda>_. None)) demo_power"
    by (simp add: demo_power_def whole_observation_def demo_power_times whole_def)
  with covered_seconds_are_exact [OF a, of 1748772000000 1748772120000] a show ?thesis
    by (simp add: demo_query_def demo_power_times whole_def demo_covered)
qed

end
