(* ===== verification/HealthHistory.thy ===== *)
theory HealthHistory
  imports JsValue JsSort
begin

text \<open>
  The history of device health, \<open>libs/domain-devices/src/lib/device-health-history.ts\<close>: UTC hour and day
  buckets, one observation applied to a bucket, and the day summarised from its hours.

  \<open>applyDeviceHealthObservation\<close> returns a new bucket, the value of the function here.  Its code also
  updates counter objects it shares with the bucket it was given, which no caller reads again; that
  effect is not part of the model.  The lemmas show what the summary of a gauge and of a counter say of
  the samples that went into a bucket.
\<close>

subsection \<open>Observations and buckets\<close>

datatype semantics = Gauge | Counter

datatype granularity = Hourly | Daily

record metric_observation =
  mo_name :: jstr
  mo_value :: "jnum option"
  mo_unit :: jstr
  mo_semantics :: semantics
  mo_source :: jstr

record reset_evidence =
  re_reason :: jstr
  re_code :: jnum
  re_details :: "jnum jobj option"
  re_source :: jstr

record health_observation =
  ho_tenantId :: jstr
  ho_siteId :: jstr
  ho_deviceId :: jstr
  ho_physicalDeviceId :: jstr
  ho_sampleId :: jstr
  ho_observedAt :: jstr
  ho_bootSessionId :: jstr
  ho_resetEvidence :: "reset_evidence option"
  ho_metrics :: "metric_observation list"

record metric_summary =
  ms_minimum :: jnum
  ms_maximum :: jnum
  ms_sum :: jnum
  ms_sampleCount :: jnum
  ms_missingSampleCount :: jnum
  ms_firstValue :: jnum
  ms_firstObservedAt :: jstr
  ms_lastValue :: jnum
  ms_lastObservedAt :: jstr
  ms_unit :: jstr
  ms_source :: jstr

record counter_summary =
  cs_bootSessionId :: jstr
  cs_firstValue :: jnum
  cs_firstObservedAt :: jstr
  cs_lastValue :: jnum
  cs_lastObservedAt :: jstr
  cs_delta :: "jnum option"
  cs_resetObserved :: bool
  cs_orderingComplete :: bool
  cs_unit :: jstr
  cs_source :: jstr

record bucket_summary =
  bs_tenantId :: jstr
  bs_siteId :: jstr
  bs_deviceId :: jstr
  bs_physicalDeviceId :: jstr
  bs_granularity :: granularity
  bs_bucketStartAt :: jstr
  bs_bucketEndAt :: jstr
  bs_firstObservedAt :: jstr
  bs_lastObservedAt :: jstr
  bs_sampleCount :: jnum
  bs_expectedIntervalMs :: jnum
  bs_expectedSampleCount :: jnum
  bs_missingSampleCount :: jnum
  bs_coverageRatio :: jnum
  bs_partialBucket :: bool
  bs_metrics :: "metric_summary jobj"
  bs_counters :: "counter_summary list jobj"

subsection \<open>Times\<close>

definition tm :: "(jstr \<Rightarrow> int option) \<Rightarrow> jstr \<Rightarrow> jnum" where
  "tm host s = time_num (date_parse host s)"

definition width_ms :: "granularity \<Rightarrow> int" where
  "width_ms g = (case g of Hourly \<Rightarrow> 3600000 | Daily \<Rightarrow> 86400000)"

text \<open>\<open>setUTCMinutes(0, 0, 0)\<close>, and for a day also \<open>setUTCHours(0, 0, 0, 0)\<close>.\<close>

definition bucket_floor :: "granularity \<Rightarrow> int \<Rightarrow> int" where
  "bucket_floor g t =
     (let hour = t - t mod 3600000 in case g of Hourly \<Rightarrow> hour | Daily \<Rightarrow> hour - hour mod 86400000)"

definition utcBucketStart :: "(jstr \<Rightarrow> int option) \<Rightarrow> jstr \<Rightarrow> granularity \<Rightarrow> jstr result" where
  "utcBucketStart host observedAt g =
     (case date_parse host observedAt of
        None \<Rightarrow> throw ''Invalid device health observation timestamp''
      | Some t \<Rightarrow> to_iso (Some (bucket_floor g t)))"

text \<open>\<open>x || 0\<close> on a number.\<close>

definition or_zero :: "jnum \<Rightarrow> jnum" where
  "or_zero x = (if x = NaN then Fin 0 else x)"

subsection \<open>One observation\<close>

definition expected_samples :: "(jstr \<Rightarrow> int option) \<Rightarrow> jstr \<Rightarrow> jstr \<Rightarrow> jnum \<Rightarrow> jnum" where
  "expected_samples host firstAt lastAt interval =
     jmax (Fin 1) (jadd (jfloor (jdiv (jsub (tm host lastAt) (tm host firstAt)) interval)) (Fin 1))"

definition changed :: "string \<Rightarrow> jstr \<Rightarrow> string \<Rightarrow> 'a result" where
  "changed kind name unitOf =
     Inl (Error (js ''Device health '' @ js kind @ js '' '' @ name
                 @ js '' changed unit or source within a '' @ js unitOf))"

definition update_metric ::
    "(jstr \<Rightarrow> int option) \<Rightarrow> jstr \<Rightarrow> jnum \<Rightarrow> metric_observation \<Rightarrow> jnum \<Rightarrow> metric_summary option \<Rightarrow> metric_summary" where
  "update_metric host seenAt expected m v existing =
     (let count = jadd (case existing of None \<Rightarrow> Fin 0 | Some x \<Rightarrow> or_zero (ms_sampleCount x)) (Fin 1);
          is_first = (case existing of None \<Rightarrow> True | Some x \<Rightarrow> jless (tm host seenAt) (tm host (ms_firstObservedAt x)));
          is_last = (case existing of None \<Rightarrow> True | Some x \<Rightarrow> jle (tm host (ms_lastObservedAt x)) (tm host seenAt));
          old = (\<lambda>f d. case existing of None \<Rightarrow> d | Some x \<Rightarrow> f x)
      in \<lparr>ms_minimum = (case existing of None \<Rightarrow> v | Some x \<Rightarrow> jmin (ms_minimum x) v),
          ms_maximum = (case existing of None \<Rightarrow> v | Some x \<Rightarrow> jmax (ms_maximum x) v),
          ms_sum = jadd (case existing of None \<Rightarrow> Fin 0 | Some x \<Rightarrow> or_zero (ms_sum x)) v,
          ms_sampleCount = count,
          ms_missingSampleCount = jmax (Fin 0) (jsub expected count),
          ms_firstValue = (if is_first then v else old ms_firstValue v),
          ms_firstObservedAt = (if is_first then seenAt else (case existing of None \<Rightarrow> seenAt | Some x \<Rightarrow> ms_firstObservedAt x)),
          ms_lastValue = (if is_last then v else old ms_lastValue v),
          ms_lastObservedAt = (if is_last then seenAt else (case existing of None \<Rightarrow> seenAt | Some x \<Rightarrow> ms_lastObservedAt x)),
          ms_unit = mo_unit m, ms_source = mo_source m\<rparr>)"

text \<open>
  \<open>metrics[metric.name]\<close> may find what the prototype holds under that name: a value without unit, so
  the comparison fails.
\<close>

definition apply_gauge ::
    "(jstr \<Rightarrow> int option) \<Rightarrow> jstr \<Rightarrow> jnum \<Rightarrow> metric_observation \<Rightarrow> jnum \<Rightarrow> metric_summary jobj \<Rightarrow> metric_summary jobj result" where
  "apply_gauge host seenAt expected m v metrics =
     (case obj_member metrics (mo_name m) of
        Some Inherited \<Rightarrow> changed ''metric'' (mo_name m) ''bucket''
      | Some (Own x) \<Rightarrow>
          if ms_unit x \<noteq> mo_unit m \<or> ms_source x \<noteq> mo_source m then changed ''metric'' (mo_name m) ''bucket''
          else Inr (obj_put metrics (mo_name m) (update_metric host seenAt expected m v (Some x)))
      | None \<Rightarrow> Inr (obj_put metrics (mo_name m) (update_metric host seenAt expected m v None)))"

definition new_counter :: "jstr \<Rightarrow> jstr \<Rightarrow> metric_observation \<Rightarrow> jnum \<Rightarrow> counter_summary" where
  "new_counter boot seenAt m v =
     \<lparr>cs_bootSessionId = boot, cs_firstValue = v, cs_firstObservedAt = seenAt, cs_lastValue = v,
      cs_lastObservedAt = seenAt, cs_delta = Some (Fin 0), cs_resetObserved = False, cs_orderingComplete = True,
      cs_unit = mo_unit m, cs_source = mo_source m\<rparr>"

definition delta_of :: "counter_summary \<Rightarrow> jnum option" where
  "delta_of c = (if cs_orderingComplete c \<and> \<not> cs_resetObserved c
     then Some (jsub (cs_lastValue c) (cs_firstValue c)) else None)"

definition update_counter :: "(jstr \<Rightarrow> int option) \<Rightarrow> jstr \<Rightarrow> jnum \<Rightarrow> counter_summary \<Rightarrow> counter_summary" where
  "update_counter host seenAt v c =
     (if jless (tm host seenAt) (tm host (cs_firstObservedAt c)) then
        (let c' = c\<lparr>cs_firstValue := v, cs_firstObservedAt := seenAt, cs_orderingComplete := False,
                    cs_resetObserved := cs_resetObserved c \<or> jless (cs_lastValue c) v\<rparr>
         in c'\<lparr>cs_delta := delta_of c'\<rparr>)
      else if jle (tm host (cs_lastObservedAt c)) (tm host seenAt) then
        (let c' = c\<lparr>cs_resetObserved := cs_resetObserved c \<or> jless v (cs_lastValue c),
                    cs_lastValue := v, cs_lastObservedAt := seenAt\<rparr>
         in c'\<lparr>cs_delta := delta_of c'\<rparr>)
      else c\<lparr>cs_orderingComplete := False, cs_delta := None\<rparr>)"

fun update_first :: "('a \<Rightarrow> bool) \<Rightarrow> ('a \<Rightarrow> 'a) \<Rightarrow> 'a list \<Rightarrow> 'a list" where
  "update_first p f [] = []"
| "update_first p f (x # xs) = (if p x then f x # xs else x # update_first p f xs)"

definition sort_series :: "(jstr \<Rightarrow> int option) \<Rightarrow> counter_summary list \<Rightarrow> counter_summary list" where
  "sort_series host =
     js_sort (\<lambda>a b. jless (Fin 0) (jsub (tm host (cs_firstObservedAt a)) (tm host (cs_firstObservedAt b))))"

definition apply_counter ::
    "(jstr \<Rightarrow> int option) \<Rightarrow> jstr \<Rightarrow> jstr \<Rightarrow> metric_observation \<Rightarrow> jnum \<Rightarrow> counter_summary list jobj
      \<Rightarrow> counter_summary list jobj result" where
  "apply_counter host boot seenAt m v counters =
     (case obj_member counters (mo_name m) of
        Some Inherited \<Rightarrow> Inl TypeError
      | held \<Rightarrow>
          (let series = (case held of Some (Own s) \<Rightarrow> s | _ \<Rightarrow> []);
               same = (\<lambda>c. cs_bootSessionId c = boot)
           in case find same series of
                None \<Rightarrow> Inr (obj_put counters (mo_name m) (sort_series host (series @ [new_counter boot seenAt m v])))
              | Some c \<Rightarrow>
                  if cs_unit c \<noteq> mo_unit m \<or> cs_source c \<noteq> mo_source m
                  then changed ''counter'' (mo_name m) ''bucket''
                  else Inr (obj_put counters (mo_name m)
                              (sort_series host (update_first same (update_counter host seenAt v) series)))))"

definition sampled :: "metric_observation \<Rightarrow> jnum option" where
  "sampled m = (case mo_value m of Some v \<Rightarrow> if is_finite v then Some v else None | None \<Rightarrow> None)"

definition apply_metric ::
    "(jstr \<Rightarrow> int option) \<Rightarrow> health_observation \<Rightarrow> jnum \<Rightarrow> metric_observation
      \<Rightarrow> metric_summary jobj \<times> counter_summary list jobj \<Rightarrow> (metric_summary jobj \<times> counter_summary list jobj) result" where
  "apply_metric host ob expected m s =
     (case sampled m of
        None \<Rightarrow> Inr s
      | Some v \<Rightarrow>
          if mo_semantics m = Gauge
          then and_then (apply_gauge host (ho_observedAt ob) expected m v (fst s)) (\<lambda>ms. Inr (ms, snd s))
          else and_then (apply_counter host (ho_bootSessionId ob) (ho_observedAt ob) m v (snd s))
                 (\<lambda>cs. Inr (fst s, cs)))"

fun apply_metrics ::
    "(jstr \<Rightarrow> int option) \<Rightarrow> health_observation \<Rightarrow> jnum \<Rightarrow> metric_observation list
      \<Rightarrow> metric_summary jobj \<times> counter_summary list jobj \<Rightarrow> (metric_summary jobj \<times> counter_summary list jobj) result" where
  "apply_metrics host ob expected [] s = Inr s"
| "apply_metrics host ob expected (m # ms) s =
     and_then (apply_metric host ob expected m s) (apply_metrics host ob expected ms)"

definition applyDeviceHealthObservation ::
    "(jstr \<Rightarrow> int option) \<Rightarrow> bucket_summary option \<Rightarrow> health_observation \<Rightarrow> granularity \<Rightarrow> jnum \<Rightarrow> bucket_summary result" where
  "applyDeviceHealthObservation host previous ob g interval =
     and_then (utcBucketStart host (ho_observedAt ob) g) (\<lambda>start.
       let width = Fin (of_int (width_ms g));
           startMs = tm host start;
           seenAt = ho_observedAt ob;
           prior = (case previous of Some b \<Rightarrow> if bs_bucketStartAt b = start then Some b else None | None \<Rightarrow> None);
           firstAt = (case prior of
                      Some b \<Rightarrow> if jless (tm host seenAt) (tm host (bs_firstObservedAt b)) then seenAt else bs_firstObservedAt b
                    | None \<Rightarrow> seenAt);
           lastAt = (case prior of
                     Some b \<Rightarrow> if jle (tm host (bs_lastObservedAt b)) (tm host seenAt) then seenAt else bs_lastObservedAt b
                   | None \<Rightarrow> seenAt);
           count = jadd (case prior of Some b \<Rightarrow> or_zero (bs_sampleCount b) | None \<Rightarrow> Fin 0) (Fin 1);
           expected = expected_samples host firstAt lastAt interval
       in and_then
            (apply_metrics host ob expected (ho_metrics ob)
              (case prior of Some b \<Rightarrow> (bs_metrics b, bs_counters b) | None \<Rightarrow> ([], []))) (\<lambda>(metrics, counters).
          and_then (to_iso (time_clip (jadd startMs width))) (\<lambda>end_at.
            Inr \<lparr>bs_tenantId = ho_tenantId ob, bs_siteId = ho_siteId ob, bs_deviceId = ho_deviceId ob,
                 bs_physicalDeviceId = ho_physicalDeviceId ob, bs_granularity = g,
                 bs_bucketStartAt = start, bs_bucketEndAt = end_at,
                 bs_firstObservedAt = firstAt, bs_lastObservedAt = lastAt, bs_sampleCount = count,
                 bs_expectedIntervalMs = interval, bs_expectedSampleCount = expected,
                 bs_missingSampleCount = jmax (Fin 0) (jsub expected count),
                 bs_coverageRatio = jmin (Fin 1) (jdiv count expected),
                 bs_partialBucket = (jless startMs (tm host firstAt)
                   \<or> jless (tm host lastAt) (jsub (jadd startMs width) interval)),
                 bs_metrics = metrics, bs_counters = counters\<rparr>)))"

subsection \<open>A day from its hours\<close>

definition merge_metric ::
    "(jstr \<Rightarrow> int option) \<Rightarrow> metric_summary \<Rightarrow> metric_summary option \<Rightarrow> metric_summary" where
  "merge_metric host m existing =
     (case existing of
        None \<Rightarrow> m\<lparr>ms_sum := jadd (Fin 0) (ms_sum m), ms_sampleCount := jadd (Fin 0) (ms_sampleCount m),
                  ms_missingSampleCount := Fin 0\<rparr>
      | Some x \<Rightarrow>
          (let is_first = jless (tm host (ms_firstObservedAt m)) (tm host (ms_firstObservedAt x));
               is_last = jle (tm host (ms_lastObservedAt x)) (tm host (ms_lastObservedAt m))
           in \<lparr>ms_minimum = jmin (ms_minimum x) (ms_minimum m),
               ms_maximum = jmax (ms_maximum x) (ms_maximum m),
               ms_sum = jadd (or_zero (ms_sum x)) (ms_sum m),
               ms_sampleCount = jadd (or_zero (ms_sampleCount x)) (ms_sampleCount m),
               ms_missingSampleCount = Fin 0,
               ms_firstValue = ms_firstValue (if is_first then m else x),
               ms_firstObservedAt = ms_firstObservedAt (if is_first then m else x),
               ms_lastValue = ms_lastValue (if is_last then m else x),
               ms_lastObservedAt = ms_lastObservedAt (if is_last then m else x),
               ms_unit = ms_unit m, ms_source = ms_source m\<rparr>))"

definition day_metric ::
    "(jstr \<Rightarrow> int option) \<Rightarrow> jstr \<times> metric_summary \<Rightarrow> metric_summary jobj \<Rightarrow> metric_summary jobj result" where
  "day_metric host e metrics =
     (case e of (name, m) \<Rightarrow>
        (case obj_member metrics name of
           Some Inherited \<Rightarrow> changed ''metric'' name ''day''
         | Some (Own x) \<Rightarrow>
             if ms_unit x \<noteq> ms_unit m \<or> ms_source x \<noteq> ms_source m then changed ''metric'' name ''day''
             else Inr (obj_put metrics name (merge_metric host m (Some x)))
         | None \<Rightarrow> Inr (obj_put metrics name (merge_metric host m None))))"

definition merge_counter :: "(jstr \<Rightarrow> int option) \<Rightarrow> counter_summary \<Rightarrow> counter_summary \<Rightarrow> counter_summary" where
  "merge_counter host c x =
     (let earlier = jless (tm host (cs_firstObservedAt c)) (tm host (cs_firstObservedAt x));
          later = jless (tm host (cs_lastObservedAt x)) (tm host (cs_lastObservedAt c));
          x' = x\<lparr>cs_firstValue := cs_firstValue (if earlier then c else x),
                 cs_firstObservedAt := cs_firstObservedAt (if earlier then c else x),
                 cs_lastValue := cs_lastValue (if later then c else x),
                 cs_lastObservedAt := cs_lastObservedAt (if later then c else x),
                 cs_resetObserved := cs_resetObserved x \<or> cs_resetObserved c
                   \<or> (earlier \<and> jless (cs_lastValue c) (cs_firstValue x))
                   \<or> (later \<and> jless (cs_firstValue c) (cs_lastValue x)),
                 cs_orderingComplete := cs_orderingComplete x \<and> cs_orderingComplete c \<and> (earlier \<or> later)\<rparr>
      in x'\<lparr>cs_delta := delta_of x'\<rparr>)"

definition day_counter ::
    "(jstr \<Rightarrow> int option) \<Rightarrow> jstr \<Rightarrow> counter_summary list \<Rightarrow> counter_summary \<Rightarrow> counter_summary list result" where
  "day_counter host name target c =
     (let same = (\<lambda>x. cs_bootSessionId x = cs_bootSessionId c) in
      case find same target of
        None \<Rightarrow> Inr (target @ [c])
      | Some x \<Rightarrow>
          if cs_unit x \<noteq> cs_unit c \<or> cs_source x \<noteq> cs_source c then changed ''counter'' name ''day''
          else Inr (update_first same (merge_counter host c) target))"

fun fold_result :: "('s \<Rightarrow> 'a \<Rightarrow> 's result) \<Rightarrow> 'a list \<Rightarrow> 's \<Rightarrow> 's result" where
  "fold_result f [] s = Inr s"
| "fold_result f (x # xs) s = and_then (f s x) (fold_result f xs)"

text \<open>
  \<open>counters[name] || (counters[name] = [])\<close> finds an inherited function for a name of the prototype; its
  \<open>find\<close> is called as soon as the series has an element.
\<close>

definition day_series ::
    "(jstr \<Rightarrow> int option) \<Rightarrow> jstr \<times> counter_summary list \<Rightarrow> counter_summary list jobj
      \<Rightarrow> counter_summary list jobj result" where
  "day_series host e counters =
     (case e of (name, series) \<Rightarrow>
        (case obj_member counters name of
           Some Inherited \<Rightarrow> if series = [] then Inr counters else Inl TypeError
         | held \<Rightarrow>
             and_then (fold_result (day_counter host name) series (case held of Some (Own t) \<Rightarrow> t | _ \<Rightarrow> []))
               (\<lambda>target. Inr (obj_put counters name target))))"

definition day_bucket ::
    "(jstr \<Rightarrow> int option) \<Rightarrow> metric_summary jobj \<times> counter_summary list jobj \<Rightarrow> bucket_summary
      \<Rightarrow> (metric_summary jobj \<times> counter_summary list jobj) result" where
  "day_bucket host s b =
     and_then (fold_result (\<lambda>ms e. day_metric host e ms) (bs_metrics b) (fst s)) (\<lambda>ms.
     and_then (fold_result (\<lambda>cs e. day_series host e cs) (bs_counters b) (snd s)) (\<lambda>cs. Inr (ms, cs)))"

definition day_hours ::
    "(jstr \<Rightarrow> int option) \<Rightarrow> jnum \<Rightarrow> jnum \<Rightarrow> bucket_summary list \<Rightarrow> bucket_summary list" where
  "day_hours host dayStart dayEnd hourly =
     js_sort (\<lambda>a b. jless (Fin 0) (jsub (tm host (bs_bucketStartAt a)) (tm host (bs_bucketStartAt b))))
       (List.filter (\<lambda>b. jle dayStart (tm host (bs_bucketStartAt b)) \<and> jless (tm host (bs_bucketStartAt b)) dayEnd)
          hourly)"

definition set_missing :: "jnum \<Rightarrow> metric_summary \<Rightarrow> metric_summary" where
  "set_missing e m = m\<lparr>ms_missingSampleCount := jmax (Fin 0) (jsub e (ms_sampleCount m))\<rparr>"

definition earliest :: "(jstr \<Rightarrow> int option) \<Rightarrow> bucket_summary list \<Rightarrow> jstr" where
  "earliest host bs = fold (\<lambda>x t. if jless (tm host (bs_firstObservedAt x)) (tm host t)
     then bs_firstObservedAt x else t) bs (bs_firstObservedAt (hd bs))"

definition latest :: "(jstr \<Rightarrow> int option) \<Rightarrow> bucket_summary list \<Rightarrow> jstr" where
  "latest host bs = fold (\<lambda>x t. if jless (tm host t) (tm host (bs_lastObservedAt x))
     then bs_lastObservedAt x else t) bs (bs_lastObservedAt (hd bs))"

text \<open>The bucket of the day, for the hours \<open>bs\<close> of the day (not empty) and the merged summaries.\<close>

definition day_summary ::
    "(jstr \<Rightarrow> int option) \<Rightarrow> bucket_summary list \<Rightarrow> jnum \<Rightarrow> jnum \<Rightarrow> jnum \<Rightarrow> jstr \<Rightarrow> jstr
      \<Rightarrow> metric_summary jobj \<times> counter_summary list jobj \<Rightarrow> bucket_summary" where
  "day_summary host bs dayStart dayEnd interval start_at end_at merged =
     (let b = hd bs;
          firstAt = earliest host bs;
          lastAt = latest host bs;
          count = fold (\<lambda>x n. jadd n (bs_sampleCount x)) bs (Fin 0);
          expected = expected_samples host firstAt lastAt interval
      in \<lparr>bs_tenantId = bs_tenantId b, bs_siteId = bs_siteId b, bs_deviceId = bs_deviceId b,
          bs_physicalDeviceId = bs_physicalDeviceId b, bs_granularity = Daily,
          bs_bucketStartAt = start_at, bs_bucketEndAt = end_at,
          bs_firstObservedAt = firstAt, bs_lastObservedAt = lastAt, bs_sampleCount = count,
          bs_expectedIntervalMs = interval, bs_expectedSampleCount = expected,
          bs_missingSampleCount = jmax (Fin 0) (jsub expected count),
          bs_coverageRatio = jmin (Fin 1) (jdiv count expected),
          bs_partialBucket = (jless dayStart (tm host firstAt)
            \<or> jless (tm host lastAt) (jsub dayEnd interval)),
          bs_metrics = map (\<lambda>(n, m). (n, set_missing expected m)) (fst merged),
          bs_counters = map (\<lambda>(n, s). (n, sort_series host s)) (snd merged)\<rparr>)"

definition summarizeDailyFromHourly ::
    "(jstr \<Rightarrow> int option) \<Rightarrow> bucket_summary list \<Rightarrow> jstr \<Rightarrow> jnum \<Rightarrow> bucket_summary option result" where
  "summarizeDailyFromHourly host hourly dayStartAt interval =
     (let dayStart = tm host dayStartAt;
          dayEnd = jadd dayStart (Fin 86400000);
          bs = day_hours host dayStart dayEnd hourly
      in if bs = [] then Inr None
         else and_then (fold_result (day_bucket host) bs ([], [])) (\<lambda>merged.
              and_then (to_iso (time_clip dayStart)) (\<lambda>start_at.
              and_then (to_iso (time_clip dayEnd)) (\<lambda>end_at.
                Inr (Some (day_summary host bs dayStart dayEnd interval start_at end_at merged))))))"

subsection \<open>What a gauge summary says of its samples\<close>

text \<open>The samples of a gauge that an observation carries: the instant and the value.\<close>

type_synonym sample = "jstr \<times> jnum"

definition gauge_event :: "jstr \<Rightarrow> health_observation \<Rightarrow> metric_observation \<Rightarrow> sample list" where
  "gauge_event n ob m =
     (if mo_semantics m = Gauge \<and> mo_name m = n
      then (case sampled m of Some v \<Rightarrow> [(ho_observedAt ob, v)] | None \<Rightarrow> []) else [])"

definition samples_of ::
    "(health_observation \<Rightarrow> metric_observation \<Rightarrow> sample list) \<Rightarrow> health_observation list \<Rightarrow> sample list" where
  "samples_of event obs = concat (map (\<lambda>ob. concat (map (event ob) (ho_metrics ob))) obs)"

definition gauge_samples :: "jstr \<Rightarrow> health_observation list \<Rightarrow> sample list" where
  "gauge_samples n = samples_of (gauge_event n)"

definition usable :: "(jstr \<Rightarrow> int option) \<Rightarrow> sample \<Rightarrow> bool" where
  "usable host s \<longleftrightarrow> date_parse host (fst s) \<noteq> None \<and> is_finite (snd s)"

definition describes :: "(jstr \<Rightarrow> int option) \<Rightarrow> sample list \<Rightarrow> metric_summary \<Rightarrow> bool" where
  "describes host xs x \<longleftrightarrow>
     ms_minimum x \<in> snd ` set xs \<and> list_all (\<lambda>s. jle (ms_minimum x) (snd s)) xs
     \<and> ms_maximum x \<in> snd ` set xs \<and> list_all (\<lambda>s. jle (snd s) (ms_maximum x)) xs
     \<and> (ms_firstObservedAt x, ms_firstValue x) \<in> set xs
     \<and> list_all (\<lambda>s. jle (tm host (ms_firstObservedAt x)) (tm host (fst s))) xs
     \<and> (ms_lastObservedAt x, ms_lastValue x) \<in> set xs
     \<and> list_all (\<lambda>s. jle (tm host (fst s)) (tm host (ms_lastObservedAt x))) xs
     \<and> ms_sampleCount x = Fin (of_nat (length xs))"

definition describes_opt :: "(jstr \<Rightarrow> int option) \<Rightarrow> sample list \<Rightarrow> metric_summary option \<Rightarrow> bool" where
  "describes_opt host xs r = (case r of None \<Rightarrow> xs = [] | Some x \<Rightarrow> describes host xs x)"

lemma jnum_finite: "is_finite v \<longleftrightarrow> (\<exists>q. v = Fin q)"
  by (cases v) (auto simp: is_finite_def)

lemma tm_known: "date_parse host t \<noteq> None \<Longrightarrow> \<exists>q. tm host t = Fin q"
  by (auto simp: tm_def time_num_def)

lemma min_of_parts:
  assumes "a \<in> A" "\<forall>v\<in>A. jle a v" "b \<in> B" "\<forall>v\<in>B. jle b v" "is_finite a" "is_finite b"
  shows "jmin a b \<in> A \<union> B \<and> (\<forall>v\<in>A \<union> B. jle (jmin a b) v)"
proof -
  obtain p q where pq: "a = Fin p" "b = Fin q" using assms(5,6) by (auto simp: jnum_finite)
  have k: "jle a v \<or> jle b v \<Longrightarrow> jle (jmin a b) v" for v
    by (cases v) (auto simp: pq jmin_def jle_def jeq_def)
  have "jmin a b \<in> {a, b}" by (simp add: jmin_def pq)
  then have "jmin a b \<in> A \<union> B" using assms(1,3) by auto
  moreover have "jle (jmin a b) v" if "v \<in> A \<union> B" for v
    using that assms(2,4) by (intro k) auto
  ultimately show ?thesis by blast
qed

lemma max_of_parts:
  assumes "a \<in> A" "\<forall>v\<in>A. jle v a" "b \<in> B" "\<forall>v\<in>B. jle v b" "is_finite a" "is_finite b"
  shows "jmax a b \<in> A \<union> B \<and> (\<forall>v\<in>A \<union> B. jle v (jmax a b))"
proof -
  obtain p q where pq: "a = Fin p" "b = Fin q" using assms(5,6) by (auto simp: jnum_finite)
  have k: "jle v a \<or> jle v b \<Longrightarrow> jle v (jmax a b)" for v
    by (cases v) (auto simp: pq jmax_def jle_def jeq_def)
  have "jmax a b \<in> {a, b}" by (simp add: jmax_def pq)
  then have "jmax a b \<in> A \<union> B" using assms(1,3) by auto
  moreover have "jle v (jmax a b)" if "v \<in> A \<union> B" for v
    using that assms(2,4) by (intro k) auto
  ultimately show ?thesis by blast
qed

lemma jle_trans_known:
  assumes "jle a b" "jle b c" shows "jle a c"
  using assms by (cases a; cases b; cases c) (auto simp: jle_def jeq_def)

lemma jle_total_finite:
  assumes "is_finite a" "is_finite b" shows "jless a b \<or> jle b a"
  using assms by (auto simp: jnum_finite)

lemma usable_finite: "usable host s \<Longrightarrow> is_finite (snd s) \<and> is_finite (tm host (fst s))"
  using tm_known [of host "fst s"] by (auto simp: usable_def is_finite_def)

lemma describes_finite:
  assumes "describes host xs x" "list_all (usable host) xs"
  shows "is_finite (ms_minimum x)" "is_finite (ms_maximum x)"
    "is_finite (tm host (ms_firstObservedAt x))" "is_finite (tm host (ms_lastObservedAt x))"
proof -
  have fin: "s \<in> set xs \<Longrightarrow> is_finite (snd s) \<and> is_finite (tm host (fst s))" for s
    using assms(2) usable_finite [of host s] by (simp add: list_all_iff)
  from assms(1) show "is_finite (ms_minimum x)" "is_finite (ms_maximum x)"
    by (auto simp: describes_def dest: fin)
  from assms(1) show "is_finite (tm host (ms_firstObservedAt x))" "is_finite (tm host (ms_lastObservedAt x))"
    using fin [of "(ms_firstObservedAt x, ms_firstValue x)"] fin [of "(ms_lastObservedAt x, ms_lastValue x)"]
    by (auto simp: describes_def)
qed

text \<open>Merging two summaries describes the samples of both.\<close>

lemma describes_merge:
  assumes x: "describes host xs x" and y: "describes host ys y"
    and ok: "list_all (usable host) xs" "list_all (usable host) ys" and n: "length xs + length ys < 2 ^ 53"
  shows "describes host (xs @ ys) (merge_metric host y (Some x))"
proof -
  note fx = describes_finite [OF x ok(1)] and fy = describes_finite [OF y ok(2)]
  have mins: "jmin (ms_minimum x) (ms_minimum y) \<in> snd ` set xs \<union> snd ` set ys
      \<and> (\<forall>v\<in>snd ` set xs \<union> snd ` set ys. jle (jmin (ms_minimum x) (ms_minimum y)) v)"
    by (rule min_of_parts) (use x y fx fy in \<open>simp_all add: describes_def list_all_iff\<close>)
  have maxs: "jmax (ms_maximum x) (ms_maximum y) \<in> snd ` set xs \<union> snd ` set ys
      \<and> (\<forall>v\<in>snd ` set xs \<union> snd ` set ys. jle v (jmax (ms_maximum x) (ms_maximum y)))"
    by (rule max_of_parts) (use x y fx fy in \<open>simp_all add: describes_def list_all_iff\<close>)
  let ?fx = "tm host (ms_firstObservedAt x)" and ?fy = "tm host (ms_firstObservedAt y)"
  let ?lx = "tm host (ms_lastObservedAt x)" and ?ly = "tm host (ms_lastObservedAt y)"
  have firsts: "jless ?fy ?fx \<Longrightarrow> jle ?fy ?fx" "\<not> jless ?fy ?fx \<Longrightarrow> jle ?fx ?fy"
    and lasts: "\<not> jle ?lx ?ly \<Longrightarrow> jle ?ly ?lx"
    using fx fy jle_total_finite by (auto simp: jle_def)
  have count: "jadd (Fin (of_nat (length xs))) (Fin (of_nat (length ys))) = Fin (of_nat (length xs + length ys))"
    using jadd_int [of "int (length xs)" "int (length ys)"] n by (simp add: safe_int_def)
  let ?z = "merge_metric host y (Some x)"
  have "ms_minimum ?z \<in> snd ` set (xs @ ys)" "list_all (\<lambda>s. jle (ms_minimum ?z) (snd s)) (xs @ ys)"
    using mins by (auto simp: merge_metric_def Let_def list_all_iff)
  moreover have "ms_maximum ?z \<in> snd ` set (xs @ ys)" "list_all (\<lambda>s. jle (snd s) (ms_maximum ?z)) (xs @ ys)"
    using maxs by (auto simp: merge_metric_def Let_def list_all_iff)
  moreover have "(ms_firstObservedAt ?z, ms_firstValue ?z) \<in> set (xs @ ys)"
      "list_all (\<lambda>s. jle (tm host (ms_firstObservedAt ?z)) (tm host (fst s))) (xs @ ys)"
    using x y firsts
    by (auto simp: describes_def merge_metric_def Let_def list_all_iff intro: jle_trans_known)
  moreover have "(ms_lastObservedAt ?z, ms_lastValue ?z) \<in> set (xs @ ys)"
      "list_all (\<lambda>s. jle (tm host (fst s)) (tm host (ms_lastObservedAt ?z))) (xs @ ys)"
    using x y lasts
    by (auto simp: describes_def merge_metric_def Let_def list_all_iff intro: jle_trans_known)
  moreover have "ms_sampleCount ?z = Fin (of_nat (length (xs @ ys)))"
    using x y count by (simp add: describes_def merge_metric_def Let_def or_zero_def)
  ultimately show ?thesis unfolding describes_def by blast
qed

lemma describes_first:
  assumes "is_finite v"
  shows "describes host [(t, v)] (update_metric host t e m v None) \<longleftrightarrow> date_parse host t \<noteq> None"
  using assms fl_int [of 1]
  by (auto simp: describes_def update_metric_def Let_def jnum_finite tm_def time_num_def jle_def jeq_def
      split: option.splits)

text \<open>Updating a summary is merging it with the summary of the sample.\<close>

lemma update_is_merge:
  "describes host xs (update_metric host t e m v (Some x))
    \<longleftrightarrow> describes host xs (merge_metric host (update_metric host t e m v None) (Some x))"
  by (simp add: describes_def update_metric_def merge_metric_def Let_def) (use fl_int [of 1] in simp)

lemma describes_update:
  assumes "describes_opt host xs r" "list_all (usable host) (xs @ [(t, v)])" "length xs + 1 < 2 ^ 53"
  shows "describes host (xs @ [(t, v)]) (update_metric host t e m v r)"
proof -
  from assms(2) have tv: "usable host (t, v)" and xs: "list_all (usable host) xs" by simp_all
  then have one: "describes host [(t, v)] (update_metric host t e m v None)"
    by (simp add: describes_first usable_def)
  show ?thesis
  proof (cases r)
    case None
    with assms(1) one show ?thesis by (simp add: describes_opt_def)
  next
    case (Some x)
    with assms(1) have "describes host xs x" by (simp add: describes_opt_def)
    from describes_merge [OF this one xs] tv assms(3) Some show ?thesis
      by (simp add: update_is_merge)
  qed
qed

lemma apply_gauge_describes:
  assumes "apply_gauge host t e m v ms = Inr ms'" "describes_opt host xs (obj_get ms n)"
    and "mo_name m = n \<Longrightarrow> list_all (usable host) (xs @ [(t, v)]) \<and> length xs + 1 < 2 ^ 53"
  shows "describes_opt host (if mo_name m = n then xs @ [(t, v)] else xs) (obj_get ms' n)"
proof -
  from assms(1) have "ms' = obj_put ms (mo_name m) (update_metric host t e m v (obj_get ms (mo_name m)))"
    by (auto simp: apply_gauge_def obj_member_def changed_def split: option.splits member.splits if_splits)
  with assms(2,3) describes_update show ?thesis by (auto simp: store_simps describes_opt_def)
qed

subsection \<open>Observations applied one after the other\<close>

text \<open>Each observation is applied to the bucket the previous one left.\<close>

definition apply_observations ::
    "(jstr \<Rightarrow> int option) \<Rightarrow> granularity \<Rightarrow> jnum \<Rightarrow> health_observation list \<Rightarrow> bucket_summary option
      \<Rightarrow> bucket_summary option result" where
  "apply_observations host g interval =
     fold_result (\<lambda>b ob. and_then (applyDeviceHealthObservation host b ob g interval) (\<lambda>b'. Inr (Some b')))"

definition in_bucket :: "(jstr \<Rightarrow> int option) \<Rightarrow> granularity \<Rightarrow> jstr \<Rightarrow> health_observation \<Rightarrow> bool" where
  "in_bucket host g start ob \<longleftrightarrow> utcBucketStart host (ho_observedAt ob) g = Inr start"

definition prior_of :: "jstr \<Rightarrow> bucket_summary option \<Rightarrow> bucket_summary option" where
  "prior_of start p = (case p of Some b \<Rightarrow> if bs_bucketStartAt b = start then Some b else None | None \<Rightarrow> None)"

lemma in_bucket_known: "in_bucket host g start ob \<Longrightarrow> date_parse host (ho_observedAt ob) \<noteq> None"
  by (auto simp: in_bucket_def utcBucketStart_def split: option.splits)

text \<open>What one successful application gives.\<close>

lemma apply_observation_parts:
  assumes "applyDeviceHealthObservation host p ob g interval = Inr b" "in_bucket host g start ob"
  shows "\<exists>e. apply_metrics host ob e (ho_metrics ob)
       (case prior_of start p of Some b' \<Rightarrow> (bs_metrics b', bs_counters b') | None \<Rightarrow> ([], []))
     = Inr (bs_metrics b, bs_counters b)"
    and "bs_bucketStartAt b = start"
    and "bs_sampleCount b = jadd (case prior_of start p of Some b' \<Rightarrow> or_zero (bs_sampleCount b') | None \<Rightarrow> Fin 0) (Fin 1)"
proof -
  note b = assms(1) [unfolded applyDeviceHealthObservation_def assms(2) [unfolded in_bucket_def] and_then_simps
    prior_of_def [symmetric] Let_def]
  from b [THEN and_then_Inr_iff [THEN iffD1]] obtain ms cs where
    m: "apply_metrics host ob (expected_samples host
          (case prior_of start p of
             Some b \<Rightarrow> if jless (tm host (ho_observedAt ob)) (tm host (bs_firstObservedAt b)) then ho_observedAt ob
               else bs_firstObservedAt b
           | None \<Rightarrow> ho_observedAt ob)
          (case prior_of start p of
             Some b \<Rightarrow> if jle (tm host (bs_lastObservedAt b)) (tm host (ho_observedAt ob)) then ho_observedAt ob
               else bs_lastObservedAt b
           | None \<Rightarrow> ho_observedAt ob) interval) (ho_metrics ob)
        (case prior_of start p of Some b' \<Rightarrow> (bs_metrics b', bs_counters b') | None \<Rightarrow> ([], [])) = Inr (ms, cs)"
    and rest: "bs_metrics b = ms \<and> bs_counters b = cs \<and> bs_bucketStartAt b = start
      \<and> bs_sampleCount b = jadd (case prior_of start p of Some b' \<Rightarrow> or_zero (bs_sampleCount b') | None \<Rightarrow> Fin 0) (Fin 1)"
    by (auto simp: and_then_Inr_iff)
  from rest m show "\<exists>e. apply_metrics host ob e (ho_metrics ob)
       (case prior_of start p of Some b' \<Rightarrow> (bs_metrics b', bs_counters b') | None \<Rightarrow> ([], []))
     = Inr (bs_metrics b, bs_counters b)" by blast
  from rest show "bs_bucketStartAt b = start"
    and "bs_sampleCount b = jadd (case prior_of start p of Some b' \<Rightarrow> or_zero (bs_sampleCount b') | None \<Rightarrow> Fin 0) (Fin 1)"
    by blast+
qed

lemma samples_of_simps [simp]:
  "samples_of event [] = []"
  "samples_of event (as @ bs) = samples_of event as @ samples_of event bs"
  by (simp_all add: samples_of_def)

lemma samples_of_Cons:
  "samples_of event (ob # obs) = concat (map (event ob) (ho_metrics ob)) @ samples_of event obs"
  by (simp add: samples_of_def)

text \<open>
  A property of the summaries that every metric keeps, with the samples the metric adds, holds of the
  bucket that a sequence of observations of one bucket leaves.  The property may rest on a condition
  on the samples that holds of every prefix when it holds of the whole.
\<close>

locale metric_fold =
  fixes host :: "jstr \<Rightarrow> int option"
    and event :: "health_observation \<Rightarrow> metric_observation \<Rightarrow> sample list"
    and holds :: "sample list \<Rightarrow> metric_summary jobj \<times> counter_summary list jobj \<Rightarrow> bool"
    and ok :: "sample list \<Rightarrow> bool"
  assumes empty: "holds [] ([], [])"
    and prefix: "ok (xs @ ys) \<Longrightarrow> ok xs"
    and step: "apply_metric host ob e m s = Inr s' \<Longrightarrow> holds xs s \<Longrightarrow> ok (xs @ event ob m)
      \<Longrightarrow> holds (xs @ event ob m) s'"
begin

lemma metrics:
  "apply_metrics host ob e ms s = Inr s' \<Longrightarrow> holds xs s \<Longrightarrow> ok (xs @ concat (map (event ob) ms))
    \<Longrightarrow> holds (xs @ concat (map (event ob) ms)) s'"
proof (induction ms arbitrary: s xs)
  case (Cons m ms)
  from Cons.prems(1) obtain s1 where s1: "apply_metric host ob e m s = Inr s1"
    and rest: "apply_metrics host ob e ms s1 = Inr s'"
    by (auto simp: and_then_Inr_iff)
  have all: "ok ((xs @ event ob m) @ concat (map (event ob) ms))" using Cons.prems(3) by simp
  from Cons.IH [OF rest step [OF s1 Cons.prems(2) prefix [OF all]] all] show ?case by simp
qed simp

lemma observations:
  assumes "apply_observations host g interval obs p = Inr p'" "list_all (in_bucket host g start) obs"
    and "case p of None \<Rightarrow> xs = []
      | Some b \<Rightarrow> bs_bucketStartAt b = start \<and> holds xs (bs_metrics b, bs_counters b)"
    and "ok (xs @ samples_of event obs)"
  shows "case p' of None \<Rightarrow> xs @ samples_of event obs = []
      | Some b \<Rightarrow> bs_bucketStartAt b = start \<and> holds (xs @ samples_of event obs) (bs_metrics b, bs_counters b)"
  using assms
proof (induction obs arbitrary: p xs)
  case (Cons ob obs)
  from Cons.prems(1) obtain b where b: "applyDeviceHealthObservation host p ob g interval = Inr b"
    and rest: "apply_observations host g interval obs (Some b) = Inr p'"
    by (auto simp: apply_observations_def and_then_Inr_iff)
  from Cons.prems(2) have ob: "in_bucket host g start ob" and obs: "list_all (in_bucket host g start) obs"
    by simp_all
  let ?new = "concat (map (event ob) (ho_metrics ob))"
  from apply_observation_parts(1) [OF b ob] obtain e where
    m: "apply_metrics host ob e (ho_metrics ob)
          (case prior_of start p of Some b' \<Rightarrow> (bs_metrics b', bs_counters b') | None \<Rightarrow> ([], []))
        = Inr (bs_metrics b, bs_counters b)" ..
  have "holds xs (case prior_of start p of Some b' \<Rightarrow> (bs_metrics b', bs_counters b') | None \<Rightarrow> ([], []))"
    using Cons.prems(3) empty by (cases p) (simp_all add: prior_of_def)
  note metrics [OF m this]
  moreover have all: "ok ((xs @ ?new) @ samples_of event obs)"
    using Cons.prems(4) by (simp add: samples_of_Cons)
  ultimately have "holds (xs @ ?new) (bs_metrics b, bs_counters b)" using prefix by blast
  with apply_observation_parts(2) [OF b ob] Cons.IH [OF rest obs _ all]
  show ?case by (simp add: samples_of_Cons split: option.splits)
qed (simp add: apply_observations_def split: option.splits)

lemma bucket:
  assumes "apply_observations host g interval obs None = Inr (Some b)" "list_all (in_bucket host g start) obs"
    and "ok (samples_of event obs)"
  shows "holds (samples_of event obs) (bs_metrics b, bs_counters b)"
  using observations [OF assms(1,2), of "[]"] assms(3) by simp

end

text \<open>The names of the metrics stay distinct.\<close>

interpretation keys: metric_fold host "\<lambda>_ _. []" "\<lambda>_ s. distinct (map fst (fst s))" "\<lambda>_. True"
  for host
proof unfold_locales
  fix ob e m and s s' :: "metric_summary jobj \<times> counter_summary list jobj"
  assume "apply_metric host ob e m s = Inr s'" "distinct (map fst (fst s))"
  moreover from this(1) have "fst s' = fst s \<or> (\<exists>x. fst s' = obj_put (fst s) (mo_name m) x)"
    by (auto simp: apply_metric_def apply_gauge_def changed_def and_then_Inr_iff
        split: option.splits member.splits if_splits)
  ultimately show "distinct (map fst (fst s'))" by (auto intro: distinct_obj_put)
qed simp

text \<open>The summary of a gauge describes its samples.\<close>

definition gauge_ok :: "(jstr \<Rightarrow> int option) \<Rightarrow> sample list \<Rightarrow> bool" where
  "gauge_ok host xs \<longleftrightarrow> list_all (usable host) xs \<and> length xs < 2 ^ 53"

interpretation gauge: metric_fold host "gauge_event n" "\<lambda>xs s. describes_opt host xs (obj_get (fst s) n)"
    "gauge_ok host"
  for host n
proof unfold_locales
  fix ob e m xs and s s' :: "metric_summary jobj \<times> counter_summary list jobj"
  assume s': "apply_metric host ob e m s = Inr s'" and xs: "describes_opt host xs (obj_get (fst s) n)"
    and ok: "gauge_ok host (xs @ gauge_event n ob m)"
  show "describes_opt host (xs @ gauge_event n ob m) (obj_get (fst s') n)"
  proof (cases "sampled m")
    case None
    with s' xs show ?thesis by (simp add: apply_metric_def gauge_event_def)
  next
    case (Some v)
    show ?thesis
    proof (cases "mo_semantics m = Gauge")
      case True
      with s' Some have "apply_gauge host (ho_observedAt ob) e m v (fst s) = Inr (fst s')"
        by (auto simp: apply_metric_def and_then_Inr_iff)
      from apply_gauge_describes [OF this xs] True Some ok show ?thesis
        by (auto simp: gauge_event_def gauge_ok_def)
    next
      case False
      with s' Some have "fst s' = fst s" by (auto simp: apply_metric_def and_then_Inr_iff)
      with False xs show ?thesis by (simp add: gauge_event_def)
    qed
  qed
qed (simp_all add: gauge_ok_def describes_opt_def store_simps)

lemma gauge_samples_simps [simp]:
  "gauge_samples n [] = []"
  "gauge_samples n (as @ bs) = gauge_samples n as @ gauge_samples n bs"
  by (simp_all add: gauge_samples_def)

lemma gauge_event_usable:
  "date_parse host (ho_observedAt ob) \<noteq> None \<Longrightarrow> list_all (usable host) (gauge_event n ob m)"
  by (auto simp: gauge_event_def usable_def sampled_def split: option.splits if_splits)

lemma gauge_samples_usable:
  "list_all (in_bucket host g start) obs \<Longrightarrow> list_all (usable host) (gauge_samples n obs)"
  using gauge_event_usable
  by (fastforce simp: gauge_samples_def samples_of_def list_all_iff dest: in_bucket_known)

lemma bucket_gauges:
  assumes "apply_observations host g interval obs None = Inr (Some b)" "list_all (in_bucket host g start) obs"
    and "length (gauge_samples n obs) < 2 ^ 53"
  shows "describes_opt host (gauge_samples n obs) (obj_get (bs_metrics b) n)"
  using gauge.bucket [OF assms(1,2), of n] gauge_samples_usable [OF assms(2), of n] assms(3)
  by (simp add: gauge_ok_def gauge_samples_def)

subsection \<open>The day summarised from its hours\<close>

lemma merge_metric_none:
  assumes "describes host ys m" "length ys < 2 ^ 53"
  shows "describes host ys (merge_metric host m None)"
  using assms jadd_int [of 0 "int (length ys)"] by (simp add: describes_def merge_metric_def safe_int_def)

lemma day_metric_describes:
  assumes "day_metric host (k, m) ms = Inr ms'" "describes_opt host xs (obj_get ms n)"
    and "k = n \<Longrightarrow> describes host ys m"
    and "list_all (usable host) xs" "list_all (usable host) ys" "length xs + length ys < 2 ^ 53"
  shows "describes_opt host (if k = n then xs @ ys else xs) (obj_get ms' n)"
proof -
  from assms(1) have "ms' = obj_put ms k (merge_metric host m (obj_get ms k))"
    by (auto simp: day_metric_def obj_member_def changed_def split: option.splits member.splits if_splits)
  moreover have "describes host (xs @ ys) (merge_metric host m (obj_get ms n))" if "k = n"
    using assms(2,6) describes_merge [OF _ assms(3) [OF that] assms(4,5,6)]
      merge_metric_none [OF assms(3) [OF that]]
    by (cases "obj_get ms n") (simp_all add: describes_opt_def)
  ultimately show ?thesis using assms(2) by (auto simp: store_simps describes_opt_def)
qed

lemma day_metrics_describe:
  assumes "fold_result (\<lambda>ms e. day_metric host e ms) es ms = Inr ms'" "distinct (map fst es)"
    and "describes_opt host xs (obj_get ms n)" "describes_opt host ys (map_of es n)"
    and "list_all (usable host) xs" "list_all (usable host) ys" "length xs + length ys < 2 ^ 53"
  shows "describes_opt host (xs @ ys) (obj_get ms' n)"
  using assms
proof (induction es arbitrary: ms xs ys)
  case Nil
  then show ?case by (simp add: describes_opt_def)
next
  case (Cons e es)
  obtain k m where e: "e = (k, m)" by (cases e)
  from Cons.prems(1) obtain ms1 where ms1: "day_metric host (k, m) ms = Inr ms1"
    and rest: "fold_result (\<lambda>ms e. day_metric host e ms) es ms1 = Inr ms'"
    by (auto simp: e and_then_Inr_iff)
  from Cons.prems(2) have d: "distinct (map fst es)" and k: "map_of es k = None"
    by (simp_all add: e map_of_eq_None_iff)
  show ?case
  proof (cases "k = n")
    case True
    with Cons.prems(4) have "k = n \<Longrightarrow> describes host ys m" by (simp add: e describes_opt_def)
    from day_metric_describes [OF ms1 Cons.prems(3) this Cons.prems(5-7)] True
    have "describes_opt host (xs @ ys) (obj_get ms1 n)" by simp
    moreover have "describes_opt host [] (map_of es n)" using k True by (simp add: describes_opt_def)
    ultimately have "describes_opt host ((xs @ ys) @ []) (obj_get ms' n)"
      by (rule Cons.IH [OF rest d]) (use Cons.prems(5-7) in simp_all)
    then show ?thesis by simp
  next
    case False
    then have kn: "k = n \<Longrightarrow> describes host [] m" by simp
    from day_metric_describes [OF ms1 Cons.prems(3) this Cons.prems(5)] False Cons.prems(7)
    have "describes_opt host xs (obj_get ms1 n)" by simp
    with Cons.prems(4-7) False show ?thesis by (intro Cons.IH [OF rest d]) (simp_all add: e)
  qed
qed

text \<open>A bucket together with samples of one gauge that its summary of the gauge describes.\<close>

definition bucket_with :: "(jstr \<Rightarrow> int option) \<Rightarrow> jstr \<Rightarrow> bucket_summary \<times> sample list \<Rightarrow> bool" where
  "bucket_with host n p \<longleftrightarrow>
     distinct (map fst (bs_metrics (fst p))) \<and> describes_opt host (snd p) (obj_get (bs_metrics (fst p)) n)
     \<and> list_all (usable host) (snd p)"

lemma day_buckets_describe:
  assumes "fold_result (day_bucket host) (map fst ps) s = Inr s'" "list_all (bucket_with host n) ps"
    and "describes_opt host xs (obj_get (fst s) n)" "list_all (usable host) xs"
    and "length xs + length (concat (map snd ps)) < 2 ^ 53"
  shows "describes_opt host (xs @ concat (map snd ps)) (obj_get (fst s') n)"
  using assms
proof (induction ps arbitrary: s xs)
  case Nil
  then show ?case by simp
next
  case (Cons p ps)
  from Cons.prems(1) obtain s1 where s1: "day_bucket host s (fst p) = Inr s1"
    and rest: "fold_result (day_bucket host) (map fst ps) s1 = Inr s'"
    by (auto simp: and_then_Inr_iff)
  then have "fold_result (\<lambda>ms e. day_metric host e ms) (bs_metrics (fst p)) (fst s) = Inr (fst s1)"
    by (auto simp: day_bucket_def and_then_Inr_iff)
  from day_metrics_describe [OF this _ Cons.prems(3), of "snd p"] Cons.prems(2,4,5)
  have "describes_opt host (xs @ snd p) (obj_get (fst s1) n)"
    by (simp add: bucket_with_def obj_get_def)
  with Cons.prems(2,4,5) have "describes_opt host ((xs @ snd p) @ concat (map snd ps)) (obj_get (fst s') n)"
    by (intro Cons.IH [OF rest]) (simp_all add: bucket_with_def)
  then show ?case by simp
qed

lemma bucket_floor_bounds: "bucket_floor g t \<le> t" "t < bucket_floor g t + width_ms g"
proof -
  let ?q = "t div 3600000"
  have t: "t - t mod 3600000 = 3600000 * ?q" by (simp add: minus_mod_eq_mult_div)
  have "(3600000 * ?q) mod (3600000 * 24) = 3600000 * (?q mod 24)" by (rule mod_mult_mult1)
  moreover have "?q mod 24 \<le> 23" "0 \<le> ?q mod 24" by simp_all
  ultimately have "(t - t mod 3600000) mod 86400000 \<le> 3600000 * 23" "0 \<le> (t - t mod 3600000) mod 86400000"
    by (simp_all add: t)
  moreover have "0 \<le> t mod 3600000" "t mod 3600000 < 3600000" by simp_all
  ultimately show "bucket_floor g t \<le> t" "t < bucket_floor g t + width_ms g"
    unfolding bucket_floor_def width_ms_def Let_def by (cases g; simp only: granularity.case; linarith)+
qed

lemma hour_in_day:
  "bucket_floor Daily t \<le> bucket_floor Hourly t" "bucket_floor Hourly t < bucket_floor Daily t + 86400000"
  by (simp_all add: bucket_floor_def Let_def)

lemma utcBucketStart_Inr:
  "utcBucketStart host s g = Inr start
    \<longleftrightarrow> (\<exists>t. date_parse host s = Some t \<and> time_in_range (bucket_floor g t)
          \<and> start = iso_string (bucket_floor g t))"
  by (auto simp: utcBucketStart_def to_iso_Inr_iff split: option.splits)

text \<open>The hour of an instant of the day lies in the day.\<close>

lemma hour_of_day:
  assumes "utcBucketStart host s Hourly = Inr hour" "utcBucketStart host s Daily = Inr day"
  shows "jle (tm host day) (tm host hour) \<and> jless (tm host hour) (jadd (tm host day) (Fin 86400000))"
proof -
  from assms obtain t where h: "time_in_range (bucket_floor Hourly t)" "hour = iso_string (bucket_floor Hourly t)"
    and d: "time_in_range (bucket_floor Daily t)" "day = iso_string (bucket_floor Daily t)"
    by (auto simp: utcBucketStart_Inr)
  have "jadd (Fin (of_int (bucket_floor Daily t))) (Fin (of_int 86400000))
      = Fin (of_int (bucket_floor Daily t + 86400000))"
    using d(1) by (intro jadd_int) (simp add: safe_int_def time_in_range_def)
  with h d hour_in_day [of t] show ?thesis
    by (simp add: tm_def time_num_def)
qed

text \<open>The hourly buckets and the observations that filled each of them.\<close>

definition filled_hour ::
    "(jstr \<Rightarrow> int option) \<Rightarrow> jnum \<Rightarrow> jstr \<Rightarrow> bucket_summary \<times> health_observation list \<Rightarrow> bool" where
  "filled_hour host interval day p \<longleftrightarrow>
     apply_observations host Hourly interval (snd p) None = Inr (Some (fst p))
     \<and> list_all (in_bucket host Hourly (bs_bucketStartAt (fst p))) (snd p)
     \<and> list_all (in_bucket host Daily day) (snd p)"

lemma filled_hour_kept:
  assumes "filled_hour host interval day p"
  shows "jle (tm host day) (tm host (bs_bucketStartAt (fst p)))
    \<and> jless (tm host (bs_bucketStartAt (fst p))) (jadd (tm host day) (Fin 86400000))"
proof (cases "snd p")
  case Nil
  with assms show ?thesis by (simp add: filled_hour_def apply_observations_def)
next
  case (Cons ob obs)
  with assms show ?thesis
    by (intro hour_of_day [of host "ho_observedAt ob"]) (simp_all add: filled_hour_def in_bucket_def)
qed

lemma filled_hour_with:
  assumes "filled_hour host interval day p" "length (gauge_samples n (snd p)) < 2 ^ 53"
  shows "bucket_with host n (fst p, gauge_samples n (snd p))"
proof -
  from assms(1) have a: "apply_observations host Hourly interval (snd p) None = Inr (Some (fst p))"
    and b: "list_all (in_bucket host Hourly (bs_bucketStartAt (fst p))) (snd p)"
    by (simp_all add: filled_hour_def)
  have "distinct (map fst (bs_metrics (fst p)))" using keys.bucket [OF a b] by simp
  with bucket_gauges [OF a b assms(2)] gauge_samples_usable [OF b] show ?thesis
    by (simp add: bucket_with_def)
qed

lemma mset_gauge_samples: "mset as = mset bs \<Longrightarrow> mset (gauge_samples n as) = mset (gauge_samples n bs)"
  unfolding gauge_samples_def samples_of_def mset_concat map_map
  by (simp only: mset_map flip: sum_mset_sum_list)

lemma gauge_samples_concat: "gauge_samples n (concat obss) = concat (map (gauge_samples n) obss)"
  by (induction obss) simp_all

lemma summarize_parts:
  assumes "summarizeDailyFromHourly host hourly day interval = Inr (Some d)"
    and "day_hours host (tm host day) (jadd (tm host day) (Fin 86400000)) hourly = bs"
  shows "\<exists>ms e. fold_result (day_bucket host) bs ([], []) = Inr ms
    \<and> bs_metrics d = map (\<lambda>(k, m). (k, set_missing e m)) (fst ms)"
proof -
  from assms obtain ms a b where "fold_result (day_bucket host) bs ([], []) = Inr ms"
    and "d = day_summary host bs (tm host day) (jadd (tm host day) (Fin 86400000)) interval a b ms"
    by (auto simp: summarizeDailyFromHourly_def Let_def and_then_Inr_iff split: if_splits)
  then show ?thesis by (auto simp: day_summary_def Let_def)
qed

lemma set_missing_describes:
  "describes_opt host xs (obj_get (map (\<lambda>(k, m). (k, set_missing e m)) ms) n)
    \<longleftrightarrow> describes_opt host xs (obj_get ms n)"
  by (simp add: obj_get_def map_of_map describes_opt_def describes_def set_missing_def split: option.split)

lemma samples_of_part:
  "p \<in> set hours \<Longrightarrow> length (gauge_samples n (snd p)) \<le> length (gauge_samples n (concat (map snd hours)))"
  by (induction hours) auto

text \<open>What the gauge summaries of the day say of all the samples of the day.\<close>

lemma daily_summary_describes:
  assumes hours: "list_all (filled_hour host interval day) hours"
    and d: "summarizeDailyFromHourly host (map fst hours) day interval = Inr (Some d)"
    and n: "length (gauge_samples n (concat (map snd hours))) < 2 ^ 53"
  shows "\<exists>xs. mset xs = mset (gauge_samples n (concat (map snd hours)))
    \<and> describes_opt host xs (obj_get (bs_metrics d) n)"
proof -
  let ?gt = "\<lambda>a b. jless (Fin 0) (jsub (tm host (bs_bucketStartAt a)) (tm host (bs_bucketStartAt b)))"
  let ?sorted = "js_sort (\<lambda>a b. ?gt (fst a) (fst b)) hours"
  let ?ps = "map (\<lambda>p. (fst p, gauge_samples n (snd p))) ?sorted"
  have kept: "day_hours host (tm host day) (jadd (tm host day) (Fin 86400000)) (map fst hours) = map fst ?ps"
  proof -
    have "List.filter (\<lambda>b. jle (tm host day) (tm host (bs_bucketStartAt b))
        \<and> jless (tm host (bs_bucketStartAt b)) (jadd (tm host day) (Fin 86400000))) (map fst hours) = map fst hours"
      using hours filled_hour_kept by (intro filter_True) (auto simp: list_all_iff)
    then show ?thesis by (simp add: day_hours_def js_sort_map comp_def)
  qed
  have mset: "mset (concat (map snd ?ps)) = mset (gauge_samples n (concat (map snd hours)))"
  proof -
    have "mset (map snd ?sorted) = mset (map snd hours)" by simp
    then have "mset (concat (map snd ?sorted)) = mset (concat (map snd hours))"
      unfolding mset_concat by (simp only: mset_map flip: sum_mset_sum_list)
    from mset_gauge_samples [OF this, of n] show ?thesis by (simp add: gauge_samples_concat comp_def)
  qed
  have len: "length (concat (map snd ?ps)) < 2 ^ 53" using n by (simp only: mset_eq_length [OF mset])
  have each: "bucket_with host n (fst p, gauge_samples n (snd p))" if p: "p \<in> set hours" for p
  proof -
    have "length (gauge_samples n (snd p)) < 2 ^ 53" by (rule le_less_trans [OF samples_of_part [OF p] n])
    with hours p show ?thesis by (intro filled_hour_with [of host interval day]) (simp_all add: list_all_iff)
  qed
  then have ok: "list_all (bucket_with host n) ?ps" by (simp add: list_all_iff)
  from summarize_parts [OF d kept] obtain ms e
    where ms: "fold_result (day_bucket host) (map fst ?ps) ([], []) = Inr ms"
    and dm: "bs_metrics d = map (\<lambda>(k, m). (k, set_missing e m)) (fst ms)"
    by (elim exE conjE)
  have "describes_opt host ([] @ concat (map snd ?ps)) (obj_get (fst ms) n)"
    by (rule day_buckets_describe [OF ms ok]) (use len in \<open>simp_all add: describes_opt_def store_simps\<close>)
  then have "describes_opt host (concat (map snd ?ps)) (obj_get (bs_metrics d) n)"
    by (simp only: dm set_missing_describes append_Nil)
  with mset show ?thesis by blast
qed

text \<open>Two summaries of a gauge that agree, up to the order in which equal instants arrived.\<close>

definition same_gauge :: "(jstr \<Rightarrow> int option) \<Rightarrow> metric_summary option \<Rightarrow> metric_summary option \<Rightarrow> bool" where
  "same_gauge host p q =
     (case (p, q) of
        (None, None) \<Rightarrow> True
      | (Some x, Some y) \<Rightarrow> ms_minimum x = ms_minimum y \<and> ms_maximum x = ms_maximum y
          \<and> ms_sampleCount x = ms_sampleCount y
          \<and> tm host (ms_firstObservedAt x) = tm host (ms_firstObservedAt y)
          \<and> tm host (ms_lastObservedAt x) = tm host (ms_lastObservedAt y)
      | _ \<Rightarrow> False)"

lemma jle_antisym: "jle a b \<Longrightarrow> jle b a \<Longrightarrow> a = b"
  by (cases a; cases b) (auto simp: jle_def jeq_def)

lemma describes_mono:
  assumes x: "describes host xs x" and y: "describes host ys y" and sets: "set ys \<subseteq> set xs"
  shows "jle (ms_minimum x) (ms_minimum y)" "jle (ms_maximum y) (ms_maximum x)"
    "jle (tm host (ms_firstObservedAt x)) (tm host (ms_firstObservedAt y))"
    "jle (tm host (ms_lastObservedAt y)) (tm host (ms_lastObservedAt x))"
proof -
  have all: "jle (ms_minimum x) (snd s)" "jle (snd s) (ms_maximum x)"
    "jle (tm host (ms_firstObservedAt x)) (tm host (fst s))"
    "jle (tm host (fst s)) (tm host (ms_lastObservedAt x))" if "s \<in> set ys" for s
    using x subsetD [OF sets that] by (simp_all add: describes_def list_all_iff)
  from y have "ms_minimum y \<in> snd ` set ys" "ms_maximum y \<in> snd ` set ys"
    by (simp_all add: describes_def)
  then show "jle (ms_minimum x) (ms_minimum y)" "jle (ms_maximum y) (ms_maximum x)"
    using all(1,2) by (elim imageE; simp)+
  from y have "(ms_firstObservedAt y, ms_firstValue y) \<in> set ys" "(ms_lastObservedAt y, ms_lastValue y) \<in> set ys"
    by (simp_all add: describes_def)
  from all(3) [OF this(1)] all(4) [OF this(2)]
  show "jle (tm host (ms_firstObservedAt x)) (tm host (ms_firstObservedAt y))"
    "jle (tm host (ms_lastObservedAt y)) (tm host (ms_lastObservedAt x))"
    by simp_all
qed

lemma describes_unique:
  assumes "describes_opt host xs p" "describes_opt host ys q" "mset xs = mset ys"
  shows "same_gauge host p q"
proof -
  have sets: "set xs \<subseteq> set ys" "set ys \<subseteq> set xs" and len: "length xs = length ys"
    using assms(3) mset_eq_setD mset_eq_length by blast+
  show ?thesis
  proof (cases p; cases q)
    fix x y assume pq: "p = Some x" "q = Some y"
    with assms(1,2) have x: "describes host xs x" and y: "describes host ys y"
      by (simp_all add: describes_opt_def)
    note le = describes_mono [OF x y sets(2)] describes_mono [OF y x sets(1)]
    show ?thesis
      using x y len le [THEN jle_antisym] by (simp add: same_gauge_def pq describes_def le jle_antisym)
  qed (use assms in \<open>auto simp: describes_opt_def describes_def same_gauge_def\<close>)
qed

text \<open>
  C27. The summary a bucket keeps of a gauge describes exactly the finite samples of the observations
  applied to it: its minimum and maximum are the least and the greatest of them, its first and last
  samples are an earliest and a latest one, and it counts them all; without samples there is none.
\<close>

theorem gauge_summary_is_exact:
  assumes "apply_observations host g interval obs None = Inr (Some b)"
    and "list_all (in_bucket host g start) obs" "length (gauge_samples n obs) < 2 ^ 53"
  shows "describes_opt host (gauge_samples n obs) (obj_get (bs_metrics b) n)"
  using assms by (rule bucket_gauges)

text \<open>
  C28. A day rebuilt from its hourly buckets has, for every gauge, the same minimum, maximum, number of
  samples and first and last instants as the day bucket the same observations fill directly, in whatever
  order the hours are stored and the observations came.
\<close>

theorem day_from_hours_is_the_direct_day:
  assumes "list_all (filled_hour host interval day) hours"
    and "summarizeDailyFromHourly host (map fst hours) day interval = Inr (Some d)"
    and "apply_observations host Daily interval obs None = Inr (Some direct)"
    and "mset obs = mset (concat (map snd hours))" "length (gauge_samples n obs) < 2 ^ 53"
  shows "same_gauge host (obj_get (bs_metrics d) n) (obj_get (bs_metrics direct) n)"
proof -
  note mset = mset_gauge_samples [OF assms(4), of n]
  have "length (gauge_samples n (concat (map snd hours))) < 2 ^ 53"
    using assms(5) by (simp only: mset_eq_length [OF mset])
  from daily_summary_describes [OF assms(1,2) this] obtain xs
    where xs: "mset xs = mset (gauge_samples n obs)" "describes_opt host xs (obj_get (bs_metrics d) n)"
    by (auto simp: mset)
  have "list_all (in_bucket host Daily day) obs"
    using assms(1) mset_eq_setD [OF assms(4)] by (auto simp: list_all_iff filled_hour_def)
  from bucket_gauges [OF assms(3) this assms(5)]
  have "describes_opt host (gauge_samples n obs) (obj_get (bs_metrics direct) n)" .
  from describes_unique [OF xs(2) this xs(1)] show ?thesis .
qed

subsection \<open>What a counter summary says of its samples\<close>

definition counter_event :: "jstr \<Rightarrow> jstr \<Rightarrow> health_observation \<Rightarrow> metric_observation \<Rightarrow> sample list" where
  "counter_event n boot ob m =
     (if mo_semantics m = Counter \<and> mo_name m = n \<and> ho_bootSessionId ob = boot
      then (case sampled m of Some v \<Rightarrow> [(ho_observedAt ob, v)] | None \<Rightarrow> []) else [])"

definition counter_samples :: "jstr \<Rightarrow> jstr \<Rightarrow> health_observation list \<Rightarrow> sample list" where
  "counter_samples n boot = samples_of (counter_event n boot)"

definition counter_entry :: "jstr \<Rightarrow> jstr \<Rightarrow> counter_summary list jobj \<Rightarrow> counter_summary option" where
  "counter_entry n boot counters =
     Option.bind (obj_get counters n) (find (\<lambda>c. cs_bootSessionId c = boot))"

text \<open>The values never go down from one sample to the next.\<close>

definition nondecreasing :: "sample list \<Rightarrow> bool" where
  "nondecreasing xs \<longleftrightarrow> successively (\<lambda>a b. \<not> jless (snd b) (snd a)) xs"

definition counts :: "sample list \<Rightarrow> counter_summary \<Rightarrow> bool" where
  "counts xs c \<longleftrightarrow>
     xs \<noteq> [] \<and> (cs_firstObservedAt c, cs_firstValue c) = hd xs \<and> (cs_lastObservedAt c, cs_lastValue c) = last xs
     \<and> cs_orderingComplete c \<and> cs_resetObserved c = (\<not> nondecreasing xs)
     \<and> cs_delta c = (if nondecreasing xs then Some (jsub (snd (last xs)) (snd (hd xs))) else None)"

definition counts_opt :: "sample list \<Rightarrow> counter_summary option \<Rightarrow> bool" where
  "counts_opt xs r = (case r of None \<Rightarrow> xs = [] | Some c \<Rightarrow> counts xs c)"

definition chronological :: "(jstr \<Rightarrow> int option) \<Rightarrow> sample list \<Rightarrow> bool" where
  "chronological host xs \<longleftrightarrow> list_all (usable host) xs \<and> sorted_wrt (\<lambda>a b. jle (tm host (fst a)) (tm host (fst b))) xs"

lemma jle_not_less: "jle a b \<Longrightarrow> \<not> jless b a"
  by (cases a; cases b) (auto simp: jle_def jeq_def)

lemma counts_new:
  "is_finite v \<Longrightarrow> counts [(t, v)] (new_counter boot t m v)"
  using fl_numerals(1) by (auto simp: counts_def new_counter_def nondecreasing_def jnum_finite jsub_def)

lemma successively_snoc: "successively P (xs @ [x]) \<longleftrightarrow> successively P xs \<and> (xs \<noteq> [] \<longrightarrow> P (last xs) x)"
  by (auto simp: successively_append_iff)

lemma counts_update:
  assumes "counts xs c" "chronological host (xs @ [(t, v)])"
  shows "counts (xs @ [(t, v)]) (update_counter host t v c)"
proof -
  from assms(1) have ne: "xs \<noteq> []" by (simp add: counts_def)
  with assms have "jle (tm host (fst (hd xs))) (tm host t)" "jle (tm host (fst (last xs))) (tm host t)"
    by (simp_all add: chronological_def sorted_wrt_append)
  moreover from assms(1) have "cs_firstObservedAt c = fst (hd xs)" "cs_lastObservedAt c = fst (last xs)"
    "cs_lastValue c = snd (last xs)" "cs_firstValue c = snd (hd xs)"
    by (simp_all add: counts_def prod_eq_iff)
  ultimately show ?thesis
    using assms(1) ne
    by (simp add: counts_def update_counter_def jle_not_less Let_def delta_of_def nondecreasing_def
        successively_snoc)
qed

definition boots_distinct :: "counter_summary list jobj \<Rightarrow> bool" where
  "boots_distinct counters \<longleftrightarrow>
     (\<forall>n series. obj_get counters n = Some series \<longrightarrow> distinct (map cs_bootSessionId series))"

lemma find_boot:
  "distinct (map cs_bootSessionId s)
    \<Longrightarrow> find (\<lambda>c. cs_bootSessionId c = b) s = Some c \<longleftrightarrow> c \<in> set s \<and> cs_bootSessionId c = b"
  by (induction s) force+

lemma mset_sort_series [simp]: "mset (sort_series host s) = mset s"
  by (simp add: sort_series_def)

lemma distinct_boot_sort [simp]:
  "distinct (map cs_bootSessionId (sort_series host s)) \<longleftrightarrow> distinct (map cs_bootSessionId s)"
  by (rule mset_eq_imp_distinct_iff) simp

lemma find_boot_sort:
  assumes "distinct (map cs_bootSessionId s)"
  shows "find (\<lambda>c. cs_bootSessionId c = b) (sort_series host s) = find (\<lambda>c. cs_bootSessionId c = b) s"
proof -
  have "set (sort_series host s) = set s" by (rule mset_eq_setD) simp
  with assms have "find (\<lambda>c. cs_bootSessionId c = b) (sort_series host s) = Some c
      \<longleftrightarrow> find (\<lambda>c. cs_bootSessionId c = b) s = Some c" for c
    by (simp add: find_boot)
  then show ?thesis by (metis not_None_eq)
qed

lemma update_counter_boot [simp]: "cs_bootSessionId (update_counter host t v c) = cs_bootSessionId c"
  by (simp add: update_counter_def Let_def)

lemma boots_update_first [simp]:
  "map cs_bootSessionId (update_first q (update_counter host t v) s) = map cs_bootSessionId s"
  by (induction s) simp_all

lemma find_update_first:
  "find (\<lambda>c. cs_bootSessionId c = b)
     (update_first (\<lambda>c. cs_bootSessionId c = b') (update_counter host t v) s)
   = (if b = b' then map_option (update_counter host t v) (find (\<lambda>c. cs_bootSessionId c = b) s)
      else find (\<lambda>c. cs_bootSessionId c = b) s)"
  by (induction s) auto

lemma find_boot_None: "find (\<lambda>c. cs_bootSessionId c = b) s = None \<longleftrightarrow> b \<notin> set (map cs_bootSessionId s)"
  by (auto simp: find_None_iff)

lemma find_other: "b \<noteq> b' \<Longrightarrow> find (\<lambda>c. cs_bootSessionId c = b) (s @ [new_counter b' t m v])
    = find (\<lambda>c. cs_bootSessionId c = b) s"
  by (simp add: find_snoc new_counter_def split: option.split)

text \<open>What one sample does to the entry of its boot session, and that it leaves the others alone.\<close>

lemma apply_counter_entry:
  assumes "apply_counter host boot t m v cs = Inr cs'" "boots_distinct cs"
  shows "boots_distinct cs'"
    and "counter_entry (mo_name m) boot cs' = Some (case counter_entry (mo_name m) boot cs of
           None \<Rightarrow> new_counter boot t m v | Some c \<Rightarrow> update_counter host t v c)"
    and "n \<noteq> mo_name m \<or> b \<noteq> boot \<Longrightarrow> counter_entry n b cs' = counter_entry n b cs"
proof -
  define series where "series = (case obj_get cs (mo_name m) of Some s \<Rightarrow> s | None \<Rightarrow> [])"
  have d: "distinct (map cs_bootSessionId series)"
    using assms(2) by (auto simp: series_def boots_distinct_def split: option.split)
  have entry: "counter_entry (mo_name m) b cs = find (\<lambda>c. cs_bootSessionId c = b) series" for b
    by (simp add: counter_entry_def series_def split: option.split)
  have held: "obj_member cs (mo_name m) \<noteq> Some Inherited
      \<and> (case obj_member cs (mo_name m) of Some (Own s) \<Rightarrow> s | _ \<Rightarrow> []) = series"
    using assms(1) by (auto simp: apply_counter_def obj_member_def series_def split: option.splits)
  define s' where "s' = (case find (\<lambda>c. cs_bootSessionId c = boot) series of
      None \<Rightarrow> series @ [new_counter boot t m v]
    | Some c \<Rightarrow> update_first (\<lambda>c. cs_bootSessionId c = boot) (update_counter host t v) series)"
  have cs': "cs' = obj_put cs (mo_name m) (sort_series host s')"
    using assms(1) held
    by (auto simp: apply_counter_def s'_def changed_def Let_def split: option.splits member.splits if_splits)
  have d': "distinct (map cs_bootSessionId s')"
    using d by (auto simp: s'_def find_boot_None new_counter_def split: option.split)
  show "boots_distinct cs'"
    using assms(2) d' by (simp add: cs' boots_distinct_def store_simps)
  have entry': "counter_entry (mo_name m) b cs' = find (\<lambda>c. cs_bootSessionId c = b) s'" for b
    by (simp add: counter_entry_def cs' store_simps find_boot_sort [OF d'])
  show "counter_entry (mo_name m) boot cs' = Some (case counter_entry (mo_name m) boot cs of
           None \<Rightarrow> new_counter boot t m v | Some c \<Rightarrow> update_counter host t v c)"
    by (simp add: entry entry' s'_def find_update_first find_snoc split: option.split)
      (simp add: new_counter_def)
  show "counter_entry n b cs' = counter_entry n b cs" if "n \<noteq> mo_name m \<or> b \<noteq> boot"
  proof (cases "n = mo_name m")
    case True
    with that have "b \<noteq> boot" by simp
    with True show ?thesis
      by (simp add: entry entry' s'_def find_other find_update_first split: option.split)
  qed (simp add: counter_entry_def cs' store_simps)
qed

interpretation counter: metric_fold host "counter_event n boot"
    "\<lambda>xs s. counts_opt xs (counter_entry n boot (snd s)) \<and> boots_distinct (snd s)" "chronological host"
  for host n boot
proof unfold_locales
  fix xs ys assume "chronological host (xs @ ys)"
  then show "chronological host xs" by (simp add: chronological_def sorted_wrt_append)
next
  fix ob e m xs and s s' :: "metric_summary jobj \<times> counter_summary list jobj"
  assume s': "apply_metric host ob e m s = Inr s'"
    and xs: "counts_opt xs (counter_entry n boot (snd s)) \<and> boots_distinct (snd s)"
    and ok: "chronological host (xs @ counter_event n boot ob m)"
  show "counts_opt (xs @ counter_event n boot ob m) (counter_entry n boot (snd s')) \<and> boots_distinct (snd s')"
  proof (cases "mo_semantics m = Counter \<and> sampled m \<noteq> None")
    case False
    with s' have "snd s' = snd s"
      by (cases "mo_semantics m") (auto simp: apply_metric_def and_then_Inr_iff split: option.splits)
    with False xs show ?thesis by (auto simp: counter_event_def)
  next
    case True
    then obtain v where v: "sampled m = Some v" and c: "mo_semantics m = Counter" by auto
    with s' have "apply_counter host (ho_bootSessionId ob) (ho_observedAt ob) m v (snd s) = Inr (snd s')"
      by (auto simp: apply_metric_def and_then_Inr_iff)
    note a = apply_counter_entry [OF this conjunct2 [OF xs]]
    show ?thesis
    proof (cases "mo_name m = n \<and> ho_bootSessionId ob = boot")
      case True
      then have ev: "counter_event n boot ob m = [(ho_observedAt ob, v)]" by (simp add: counter_event_def v c)
      have "is_finite v" using v by (auto simp: sampled_def split: option.splits if_splits)
      with xs ok True a(1,2) ev show ?thesis
        by (auto simp: counts_opt_def counts_new intro: counts_update split: option.splits)
    next
      case False
      with xs a(1) a(3) [of n boot] show ?thesis by (auto simp: counter_event_def)
    qed
  qed
qed (simp_all add: counts_opt_def counter_entry_def boots_distinct_def store_simps)

text \<open>
  C29. When the samples of a counter within one boot session arrive in time order, its summary starts with
  the first and ends with the last of them, a reset is recorded exactly when some value is below the one
  before it, and the delta is the last minus the first value exactly when none is.
\<close>

theorem counter_reset_detection_is_exact:
  assumes "apply_observations host g interval obs None = Inr (Some b)"
    and "list_all (in_bucket host g start) obs" "chronological host (counter_samples n boot obs)"
  shows "counts_opt (counter_samples n boot obs) (counter_entry n boot (bs_counters b))"
  using counter.bucket [OF assms(1,2), of n boot] assms(3) by (simp add: counter_samples_def)


text \<open>
  Outside time order the reset tests compare with the wrong end: a late sample from before the first one
  is compared with the last value, so a drop to the first value goes unseen, and merging the earlier part
  of a session takes a plain increase for a reset.
\<close>

lemma early_sample_hides_reset:
  assumes "jless (tm host t) (tm host (cs_firstObservedAt c))" "\<not> cs_resetObserved c"
    and "cs_firstValue c = Fin p" "cs_lastValue c = Fin q" "p < v" "v \<le> q"
  shows "\<not> cs_resetObserved (update_counter host t (Fin v) c)"
  using assms by (simp add: update_counter_def Let_def)

lemma earlier_increase_counts_as_reset:
  assumes "jless (tm host (cs_firstObservedAt c)) (tm host (cs_firstObservedAt x))"
    and "cs_lastValue c = Fin p" "cs_firstValue x = Fin q" "p < q"
  shows "cs_resetObserved (merge_counter host c x)"
  using assms by (simp add: merge_counter_def Let_def)

subsection \<open>An example\<close>

definition demo_metric :: "semantics \<Rightarrow> int \<Rightarrow> metric_observation" where
  "demo_metric s v = \<lparr>mo_name = js ''m'', mo_value = Some (Fin (of_int v)), mo_unit = js ''u'',
     mo_semantics = s, mo_source = js ''s''\<rparr>"

definition demo_observation :: "string \<Rightarrow> metric_observation \<Rightarrow> health_observation" where
  "demo_observation t m = \<lparr>ho_tenantId = js ''t'', ho_siteId = js ''s'', ho_deviceId = js ''d'',
     ho_physicalDeviceId = js ''p'', ho_sampleId = js ''i'', ho_observedAt = js t, ho_bootSessionId = js ''b'',
     ho_resetEvidence = None, ho_metrics = [m]\<rparr>"

definition demo_summary :: "string \<Rightarrow> int \<Rightarrow> metric_summary" where
  "demo_summary t v = \<lparr>ms_minimum = Fin (of_int v), ms_maximum = Fin (of_int v), ms_sum = Fin (of_int v),
     ms_sampleCount = Fin 1, ms_missingSampleCount = Fin 0, ms_firstValue = Fin (of_int v),
     ms_firstObservedAt = js t, ms_lastValue = Fin (of_int v), ms_lastObservedAt = js t,
     ms_unit = js ''u'', ms_source = js ''s''\<rparr>"

definition demo_bucket :: "string \<Rightarrow> string \<Rightarrow> int \<Rightarrow> bucket_summary" where
  "demo_bucket t t' v = \<lparr>bs_tenantId = js ''t'', bs_siteId = js ''s'', bs_deviceId = js ''d'',
     bs_physicalDeviceId = js ''p'', bs_granularity = Hourly, bs_bucketStartAt = js t, bs_bucketEndAt = js t',
     bs_firstObservedAt = js t, bs_lastObservedAt = js t, bs_sampleCount = Fin 1,
     bs_expectedIntervalMs = Fin 3600000, bs_expectedSampleCount = Fin 1, bs_missingSampleCount = Fin 0,
     bs_coverageRatio = Fin 1, bs_partialBucket = False,
     bs_metrics = [(js ''m'', demo_summary t v)], bs_counters = []\<rparr>"

abbreviation no_host :: "jstr \<Rightarrow> int option" where
  "no_host \<equiv> \<lambda>_. None"

definition demo_early :: health_observation where
  "demo_early = demo_observation ''2025-06-01T10:00:00.000Z'' (demo_metric Gauge (- 60))"

definition demo_late :: health_observation where
  "demo_late = demo_observation ''2025-06-01T11:00:00.000Z'' (demo_metric Gauge (- 70))"

definition demo_early_bucket :: bucket_summary where
  "demo_early_bucket = demo_bucket ''2025-06-01T10:00:00.000Z'' ''2025-06-01T11:00:00.000Z'' (- 60)"

definition demo_late_bucket :: bucket_summary where
  "demo_late_bucket = demo_bucket ''2025-06-01T11:00:00.000Z'' ''2025-06-01T12:00:00.000Z'' (- 70)"

lemma demo_times:
  "date_parse no_host (js ''2025-06-01T00:00:00.000Z'') = Some 1748736000000"
  "date_parse no_host (js ''2025-06-01T10:00:00.000Z'') = Some 1748772000000"
  "date_parse no_host (js ''2025-06-01T11:00:00.000Z'') = Some 1748775600000"
  by code_simp+

lemma demo_isos:
  "to_iso (Some 1748772000000) = Inr (js ''2025-06-01T10:00:00.000Z'')"
  "to_iso (Some 1748775600000) = Inr (js ''2025-06-01T11:00:00.000Z'')"
  "to_iso (Some 1748779200000) = Inr (js ''2025-06-01T12:00:00.000Z'')"
  "to_iso (Some 1748736000000) = Inr (js ''2025-06-01T00:00:00.000Z'')"
  "to_iso (Some 1748822400000) = Inr (js ''2025-06-02T00:00:00.000Z'')"
  by code_simp+

text \<open>The evaluation keeps the strings symbolic: only their equality matters.\<close>

lemmas demo_eval = applyDeviceHealthObservation_def utcBucketStart_def demo_early_def demo_late_def
  demo_observation_def demo_metric_def tm_def time_num_def demo_times demo_isos bucket_floor_def width_ms_def
  expected_samples_def jsub_def fl_numerals jmax_def jmin_def jfloor_def time_clip_def truncate_rat_def Let_def
  apply_metric_def sampled_def is_finite_def apply_gauge_def update_metric_def or_zero_def obj_put_def obj_get_def
  obj_member_def object_prototype_names_def array_index_def in_bucket_def demo_summary_def demo_early_bucket_def demo_late_bucket_def demo_bucket_def

lemma demo_hours_applied:
  "apply_observations no_host Hourly (Fin 3600000) [demo_early] None = Inr (Some demo_early_bucket)"
  "apply_observations no_host Hourly (Fin 3600000) [demo_late] None = Inr (Some demo_late_bucket)"
  by (simp_all add: apply_observations_def demo_eval)

lemma demo_hours_in:
  "in_bucket no_host Hourly (bs_bucketStartAt demo_early_bucket) demo_early"
  "in_bucket no_host Hourly (bs_bucketStartAt demo_late_bucket) demo_late"
  "in_bucket no_host Daily (js ''2025-06-01T00:00:00.000Z'') demo_early"
  "in_bucket no_host Daily (js ''2025-06-01T00:00:00.000Z'') demo_late"
  by (simp_all add: demo_eval)

lemma demo_samples_few: "length (gauge_samples (js ''m'') [demo_early]) < 2 ^ 53"
  "length (gauge_samples (js ''m'') [demo_late, demo_early]) < 2 ^ 53"
  by (simp_all add: gauge_samples_def samples_of_def gauge_event_def demo_early_def demo_late_def
      demo_observation_def demo_metric_def sampled_def)

theorem gauge_summary_is_exact_witness:
  "describes_opt no_host (gauge_samples (js ''m'') [demo_early])
     (obj_get (bs_metrics demo_early_bucket) (js ''m''))"
  by (rule gauge_summary_is_exact [OF demo_hours_applied(1) _ demo_samples_few(1),
        where start = "bs_bucketStartAt demo_early_bucket"]) (simp add: demo_hours_in(1))

lemma demo_hour_buckets:
  "list_all (filled_hour no_host (Fin 3600000) (js ''2025-06-01T00:00:00.000Z''))
     [(demo_early_bucket, [demo_early]), (demo_late_bucket, [demo_late])]"
  by (simp add: filled_hour_def demo_hours_applied demo_hours_in)

text \<open>The day bucket after the late observation, and after both.\<close>

definition demo_day :: "string \<Rightarrow> int \<Rightarrow> metric_summary \<Rightarrow> bucket_summary" where
  "demo_day t n m = \<lparr>bs_tenantId = js ''t'', bs_siteId = js ''s'', bs_deviceId = js ''d'',
     bs_physicalDeviceId = js ''p'', bs_granularity = Daily, bs_bucketStartAt = js ''2025-06-01T00:00:00.000Z'',
     bs_bucketEndAt = js ''2025-06-02T00:00:00.000Z'',
     bs_firstObservedAt = js t, bs_lastObservedAt = js ''2025-06-01T11:00:00.000Z'', bs_sampleCount = Fin (of_int n),
     bs_expectedIntervalMs = Fin 3600000, bs_expectedSampleCount = Fin (of_int n), bs_missingSampleCount = Fin 0,
     bs_coverageRatio = Fin 1, bs_partialBucket = True, bs_metrics = [(js ''m'', m)], bs_counters = []\<rparr>"

definition demo_late_day :: bucket_summary where
  "demo_late_day = demo_day ''2025-06-01T11:00:00.000Z'' 1 (demo_summary ''2025-06-01T11:00:00.000Z'' (- 70))"

definition demo_whole_day :: bucket_summary where
  "demo_whole_day = demo_day ''2025-06-01T10:00:00.000Z'' 2
     \<lparr>ms_minimum = Fin (- 70), ms_maximum = Fin (- 60), ms_sum = Fin (- 130), ms_sampleCount = Fin 2,
      ms_missingSampleCount = Fin 0, ms_firstValue = Fin (- 60), ms_firstObservedAt = js ''2025-06-01T10:00:00.000Z'',
      ms_lastValue = Fin (- 70), ms_lastObservedAt = js ''2025-06-01T11:00:00.000Z'',
      ms_unit = js ''u'', ms_source = js ''s''\<rparr>"

lemma demo_day_steps:
  "applyDeviceHealthObservation no_host None demo_late Daily (Fin 3600000) = Inr demo_late_day"
  "applyDeviceHealthObservation no_host (Some demo_late_day) demo_early Daily (Fin 3600000) = Inr demo_whole_day"
  by (simp_all add: demo_eval demo_late_day_def demo_whole_day_def demo_day_def)

lemma demo_day_from_hours:
  "summarizeDailyFromHourly no_host [demo_early_bucket, demo_late_bucket] (js ''2025-06-01T00:00:00.000Z'')
     (Fin 3600000) = Inr (Some demo_whole_day)"
  by (simp add: demo_eval summarizeDailyFromHourly_def day_hours_def js_sort_def day_bucket_def day_metric_def
      merge_metric_def day_summary_def earliest_def latest_def set_missing_def demo_whole_day_def demo_day_def)

theorem day_from_hours_is_the_direct_day_witness:
  "same_gauge no_host (obj_get (bs_metrics demo_whole_day) (js ''m''))
     (obj_get (bs_metrics demo_whole_day) (js ''m''))"
  by (rule day_from_hours_is_the_direct_day [OF demo_hour_buckets _ _ _ demo_samples_few(2)])
    (simp_all add: demo_day_from_hours apply_observations_def demo_day_steps add_mset_commute)

text \<open>A counter that goes from 9 to 2 within the day and the boot session.\<close>

definition demo_count :: "string \<Rightarrow> int \<Rightarrow> bool \<Rightarrow> counter_summary" where
  "demo_count t v reset = \<lparr>cs_bootSessionId = js ''b'', cs_firstValue = Fin 9,
     cs_firstObservedAt = js ''2025-06-01T10:00:00.000Z'', cs_lastValue = Fin (of_int v), cs_lastObservedAt = js t,
     cs_delta = (if reset then None else Some (Fin 0)), cs_resetObserved = reset, cs_orderingComplete = True,
     cs_unit = js ''u'', cs_source = js ''s''\<rparr>"

definition demo_count_day :: "string \<Rightarrow> int \<Rightarrow> counter_summary \<Rightarrow> bucket_summary" where
  "demo_count_day t n c = (demo_day ''2025-06-01T10:00:00.000Z'' n (demo_summary t 0))
     \<lparr>bs_lastObservedAt := js t, bs_metrics := [], bs_counters := [(js ''m'', [c])]\<rparr>"

definition demo_counted :: "health_observation list" where
  "demo_counted = [demo_observation ''2025-06-01T10:00:00.000Z'' (demo_metric Counter 9),
     demo_observation ''2025-06-01T11:00:00.000Z'' (demo_metric Counter 2)]"

lemma demo_count_steps:
  "applyDeviceHealthObservation no_host None (demo_observation ''2025-06-01T10:00:00.000Z'' (demo_metric Counter 9))
     Daily (Fin 3600000)
   = Inr (demo_count_day ''2025-06-01T10:00:00.000Z'' 1 (demo_count ''2025-06-01T10:00:00.000Z'' 9 False))"
  "applyDeviceHealthObservation no_host
     (Some (demo_count_day ''2025-06-01T10:00:00.000Z'' 1 (demo_count ''2025-06-01T10:00:00.000Z'' 9 False)))
     (demo_observation ''2025-06-01T11:00:00.000Z'' (demo_metric Counter 2)) Daily (Fin 3600000)
   = Inr (demo_count_day ''2025-06-01T11:00:00.000Z'' 2 (demo_count ''2025-06-01T11:00:00.000Z'' 2 True))"
  by (simp_all add: demo_eval demo_count_day_def demo_count_def demo_day_def apply_counter_def sort_series_def
      js_sort_def new_counter_def update_counter_def delta_of_def)

theorem counter_reset_detection_is_exact_witness:
  "counts_opt (counter_samples (js ''m'') (js ''b'') demo_counted)
     (Some (demo_count ''2025-06-01T11:00:00.000Z'' 2 True))"
proof -
  have "counts_opt (counter_samples (js ''m'') (js ''b'') demo_counted) (counter_entry (js ''m'') (js ''b'')
      (bs_counters (demo_count_day ''2025-06-01T11:00:00.000Z'' 2 (demo_count ''2025-06-01T11:00:00.000Z'' 2 True))))"
    by (rule counter_reset_detection_is_exact [where host = no_host and g = Daily and interval = "Fin 3600000"
          and start = "js ''2025-06-01T00:00:00.000Z''"])
      (simp_all add: apply_observations_def demo_counted_def demo_count_steps, simp_all add: demo_eval counter_samples_def
        samples_of_def counter_event_def chronological_def usable_def)
  then show ?thesis by (simp add: counter_entry_def demo_count_day_def demo_day_def obj_get_def demo_count_def)
qed

end
