(* ===== verification/HealthEvidence.thy ===== *)
theory HealthEvidence
  imports HealthHistory
begin

text \<open>
  The types of health queries, \<open>libs/domain-devices/src/lib/device-health-query.ts\<close>: the request and the
  evidence it is answered from, and the parts of the answer.  The host supplies \<open>Date.parse\<close> outside ISO,
  the time zones \<open>Intl\<close> knows and \<open>localeCompare\<close>.
\<close>

subsection \<open>Requests and evidence\<close>

record runtime =
  rt_parse :: "jstr \<Rightarrow> int option"
  rt_zone :: "jstr \<Rightarrow> bool"
  rt_after :: "jstr \<Rightarrow> jstr \<Rightarrow> bool"

text \<open>\<open>rt_after h a b\<close> is \<open>a.localeCompare(b) > 0\<close>.\<close>

record query_scope =
  sc_tenantId :: jstr
  sc_siteId :: jstr

record query_request =
  rq_from :: jstr
  rq_to :: jstr
  rq_granularity :: jstr
  rq_timezone :: "jstr option"
  rq_deviceId :: "jstr option"
  rq_metrics :: "jstr list option"
  rq_limit :: "jnum option"
  rq_cursor :: "jstr option"

datatype event_confidence = Confirmed | Possible

datatype event_basis = Server_detection_time

record evidence_reference =
  rf_observedAt :: jstr
  rf_bootSessionId :: jstr

record event_evidence =
  hv_tenantId :: jstr
  hv_siteId :: jstr
  hv_id :: jstr
  hv_deviceId :: jstr
  hv_physicalDeviceId :: jstr
  hv_observedAt :: jstr
  hv_kind :: jstr
  hv_bootSessionId :: jstr
  hv_confidence :: event_confidence
  hv_source :: "jstr option"
  hv_summary :: jstr
  hv_explanation :: jstr
  hv_observedAtBasis :: "event_basis option"
  hv_detectedAt :: "jstr option"
  hv_inferredBootAt :: "jstr option"
  hv_evidenceReferences :: "evidence_reference list"

record failure_evidence =
  hf_tenantId :: jstr
  hf_siteId :: jstr
  hf_id :: jstr
  hf_deviceId :: jstr
  hf_physicalDeviceId :: jstr
  hf_attemptedAt :: jstr
  hf_reason :: jstr
  hf_source :: jstr
  hf_requestDurationMs :: "jnum option"

record supported_metric =
  sm_name :: jstr
  sm_unit :: jstr
  sm_semantics :: semantics

record authorized_device =
  ad_tenantId :: jstr
  ad_siteId :: jstr
  ad_deviceId :: jstr
  ad_physicalDeviceId :: "jstr option"

record query_dataset =
  ds_observations :: "health_observation list"
  ds_buckets :: "bucket_summary list"
  ds_events :: "event_evidence list"
  ds_failures :: "failure_evidence list"
  ds_expectedIntervalMs :: jnum
  ds_supportedMetrics :: "supported_metric list"
  ds_authorizedDevices :: "authorized_device list"

subsection \<open>Results\<close>

record metric_statistics =
  st_minimum :: jnum
  st_maximum :: jnum
  st_average :: jnum
  st_sum :: jnum
  st_count :: jnum
  st_missingCount :: jnum
  st_unit :: jstr
  st_source :: jstr
  st_first :: "jnum \<times> jstr"
  st_latest :: "jnum \<times> jstr"

datatype metric_status = Available | Unavailable | Unsupported

datatype absence_reason = No_samples_in_range | Metric_not_supported

record metric_availability =
  ma_name :: jstr
  ma_status :: metric_status
  ma_reason :: "absence_reason option"
  ma_semantics :: "semantics option"
  ma_statistics :: "metric_statistics option"
  ma_counterSeries :: "counter_summary list option"

datatype boot_basis = Sample_collected | Summary_first_observation | Detected_by_server

record boot_time =
  bt_at :: jstr
  bt_basis :: boot_basis
  bt_eventId :: "jstr option"
  bt_evidenceReferences :: "evidence_reference list"

record boot_transition =
  tn_from :: jstr
  tn_to :: jstr
  tn_observedAt :: jstr
  tn_observedAtBasis :: boot_basis
  tn_eventId :: "jstr option"
  tn_evidenceReferences :: "evidence_reference list"

record recovered_failure =
  rc_failure :: failure_evidence
  rc_recoveryObservedAt :: "jstr option"
  rc_recoveryObservedAfterMs :: "jnum option"

datatype coverage_basis = Observed_sample_span | Requested_window_no_samples

record device_analysis =
  da_deviceId :: jstr
  da_physicalDeviceId :: "jstr option"
  da_firstObservedAt :: "jstr option"
  da_latestObservedAt :: "jstr option"
  da_observedSampleCount :: jnum
  da_expectedSampleCount :: jnum
  da_missingSampleCount :: jnum
  da_coverageRatio :: "jnum option"
  da_coverageBasis :: coverage_basis
  da_metrics :: "metric_availability list"
  da_failureCount :: nat
  da_failures :: "recovered_failure list"
  da_bootSessionTransitions :: "boot_transition list"
  da_resetEvidence :: "(jstr \<times> reset_evidence) list"
  da_resetEvents :: "event_evidence list"
  da_events :: "event_evidence list"

datatype series_row = Observation_row health_observation | Bucket_row bucket_summary
  | Event_row event_evidence | Failure_row failure_evidence

record metric_average =
  av_name :: jstr
  av_average :: jnum
  av_count :: jnum
  av_unit :: jstr
  av_sources :: "jstr list"

record site_summary =
  sy_deviceCount :: nat
  sy_observedSampleCount :: jnum
  sy_failureCount :: nat
  sy_metricAverages :: "metric_average list"

record result_page =
  pg_limit :: jnum
  pg_nextCursor :: "jstr option"
  pg_hasMore :: bool

record query_result =
  qr_tenantId :: jstr
  qr_siteId :: jstr
  qr_from :: jstr
  qr_to :: jstr
  qr_timezone :: jstr
  qr_granularity :: jstr
  qr_devices :: "device_analysis list"
  qr_site :: site_summary
  qr_series :: "series_row list"
  qr_page :: result_page

end
