(* ===== verification/HealthQuery.thy ===== *)
theory HealthQuery
  imports HealthEvidence
begin

text \<open>
  Queries over device health evidence, \<open>libs/domain-devices/src/lib/device-health-query.ts\<close>: the rows of a
  scope in a range, per device statistics, boot transitions and recoveries, and one page of the selected
  series behind a cursor.

  The names of supported metrics are taken not to be names of \<open>Object.prototype\<close> (the caller passes nine
  fixed ones).  The lemmas show that a query sees only its scope, that the statistics of a gauge describe
  the samples behind the rows, and when following the cursors visits every row once.
\<close>

subsection \<open>Validation\<close>

text \<open>\<open>s || fallback\<close> on an optional string.\<close>

definition or_string :: "jstr option \<Rightarrow> jstr \<Rightarrow> jstr" where
  "or_string s fallback = (case s of Some t \<Rightarrow> if t = [] then fallback else t | None \<Rightarrow> fallback)"

text \<open>
  \<open>validOffsetDate\<close>: the expression \<open>/^\d{4}-\d\d-\d\dT\d\d:\d\d:\d\d(?:\.\d{1,3})?(?:Z|[+-]\d\d:\d\d)$/\<close> and a
  time \<open>Date.parse\<close> reads.  The offset has six characters, so the text before it is known.
\<close>

definition fraction_part :: "jstr \<Rightarrow> bool" where
  "fraction_part s \<longleftrightarrow> s = [] \<or> (hd s = 46 \<and> 2 \<le> length s \<and> length s \<le> 4 \<and> list_all is_digit (tl s))"

definition offset_part :: "jstr \<Rightarrow> bool" where
  "offset_part s \<longleftrightarrow> length s = 6 \<and> (hd s = 43 \<or> hd s = 45) \<and> list_all2 template_match (js ''dd:dd'') (tl s)"

definition zone_part :: "jstr \<Rightarrow> bool" where
  "zone_part s \<longleftrightarrow>
     (s \<noteq> [] \<and> last s = 90 \<and> fraction_part (butlast s))
     \<or> (6 \<le> length s \<and> offset_part (drop (length s - 6) s) \<and> fraction_part (take (length s - 6) s))"

definition validOffsetDate :: "(jstr \<Rightarrow> int option) \<Rightarrow> jstr \<Rightarrow> bool" where
  "validOffsetDate host s \<longleftrightarrow>
     list_all2 template_match iso_template (take 19 s) \<and> zone_part (drop 19 s) \<and> date_parse host s \<noteq> None"

definition inRange :: "(jstr \<Rightarrow> int option) \<Rightarrow> jstr \<Rightarrow> int \<Rightarrow> int \<Rightarrow> bool" where
  "inRange host at_time lo hi = (case date_parse host at_time of Some t \<Rightarrow> lo \<le> t \<and> t \<le> hi | None \<Rightarrow> False)"

definition is_safe_integer :: "jnum \<Rightarrow> bool" where
  "is_safe_integer x = (case x of Fin q \<Rightarrow> of_int \<lfloor>q\<rfloor> = q \<and> \<bar>q\<bar> \<le> 9007199254740991 | _ \<Rightarrow> False)"

text \<open>\<open>/^[a-z][a-z0-9_.-]{0,79}$/\<close>.\<close>

definition metric_name :: "jstr \<Rightarrow> bool" where
  "metric_name s \<longleftrightarrow> s \<noteq> [] \<and> 97 \<le> hd s \<and> hd s \<le> 122 \<and> length s \<le> 80
     \<and> list_all (\<lambda>c. (97 \<le> c \<and> c \<le> 122) \<or> is_digit c \<or> c = 95 \<or> c = 46 \<or> c = 45) (tl s)"

definition granularity_names :: "jstr list" where
  "granularity_names = map js [''raw'', ''hourly'', ''daily'', ''events'', ''failures'']"

definition limit_ok :: "jnum option \<Rightarrow> bool" where
  "limit_ok l = (case l of None \<Rightarrow> True
     | Some n \<Rightarrow> is_safe_integer n \<and> \<not> jless n (Fin 1) \<and> \<not> jless (Fin 1000) n)"

definition device_id_ok :: "jstr option \<Rightarrow> bool" where
  "device_id_ok d = (case d of None \<Rightarrow> True | Some s \<Rightarrow> 1 \<le> length s \<and> length s \<le> 240)"

definition metrics_ok :: "jstr list option \<Rightarrow> bool" where
  "metrics_ok m = (case m of None \<Rightarrow> True | Some ns \<Rightarrow> length ns \<le> 25 \<and> list_all metric_name ns)"

text \<open>The range in milliseconds of a request that is accepted.\<close>

definition query_range :: "runtime \<Rightarrow> query_scope \<Rightarrow> query_request \<Rightarrow> query_dataset \<Rightarrow> (int \<times> int) result" where
  "query_range h scope req ds =
     (case (date_parse (rt_parse h) (rq_from req), date_parse (rt_parse h) (rq_to req)) of
        (Some lo, Some hi) \<Rightarrow>
          if js_trim (sc_tenantId scope) \<noteq> [] \<and> js_trim (sc_siteId scope) \<noteq> []
            \<and> validOffsetDate (rt_parse h) (rq_from req) \<and> validOffsetDate (rt_parse h) (rq_to req)
            \<and> lo \<le> hi \<and> hi - lo \<le> 63072000000
            \<and> rt_zone h (or_string (rq_timezone req) (js ''UTC''))
            \<and> rq_granularity req \<in> set granularity_names
            \<and> (rq_granularity req = js ''hourly'' \<longrightarrow> lo mod 3600000 = 0 \<and> hi mod 3600000 = 0)
            \<and> (rq_granularity req = js ''daily'' \<longrightarrow> lo mod 86400000 = 0 \<and> hi mod 86400000 = 0)
            \<and> is_safe_integer (ds_expectedIntervalMs ds) \<and> jless (Fin 0) (ds_expectedIntervalMs ds)
            \<and> limit_ok (rq_limit req) \<and> device_id_ok (rq_deviceId req) \<and> metrics_ok (rq_metrics req)
          then Inr (lo, hi)
          else throw ''Invalid device health query range, scope or options''
      | _ \<Rightarrow> throw ''Invalid device health query range, scope or options'')"

subsection \<open>Gauge statistics\<close>

text \<open>\<open>.sort((a, b) => Date.parse(f(a)) - Date.parse(f(b)))\<close>.\<close>

definition by_time :: "(jstr \<Rightarrow> int option) \<Rightarrow> ('a \<Rightarrow> jstr) \<Rightarrow> 'a list \<Rightarrow> 'a list" where
  "by_time host f = js_sort (\<lambda>a b. jless (Fin 0) (jsub (tm host (f a)) (tm host (f b))))"

text \<open>
  \<open>Number(value.toFixed(6))\<close>: the nearest multiple of a millionth (the larger of two), read back as a
  double; from \<open>10^21\<close> on \<open>toFixed\<close> prints the number itself.
\<close>

definition round6 :: "jnum \<Rightarrow> jnum" where
  "round6 x = (case x of
     Fin q \<Rightarrow> if 10 ^ 21 \<le> \<bar>q\<bar> then x else fl (sgn q * of_int \<lfloor>\<bar>q\<bar> * 1000000 + 1 / 2\<rfloor> / 1000000)
   | _ \<Rightarrow> x)"

definition num_total :: "jnum list \<Rightarrow> jnum" where
  "num_total vs = fold (\<lambda>v t. jadd t v) vs (Fin 0)"

definition num_least :: "jnum list \<Rightarrow> jnum" where
  "num_least vs = fold (\<lambda>v t. jmin t v) vs PosInf"

definition num_greatest :: "jnum list \<Rightarrow> jnum" where
  "num_greatest vs = fold (\<lambda>v t. jmax t v) vs NegInf"

definition count_num :: "'a list \<Rightarrow> jnum" where
  "count_num xs = Fin (of_nat (length xs))"

record valid_row =
  vr_value :: jnum
  vr_at :: jstr
  vr_unit :: jstr
  vr_source :: jstr

definition valid_rows :: "jstr \<Rightarrow> health_observation list \<Rightarrow> valid_row list" where
  "valid_rows name obs =
     concat (map (\<lambda>ob. List.map_filter
         (\<lambda>m. if mo_name m = name
             then map_option (\<lambda>v. \<lparr>vr_value = v, vr_at = ho_observedAt ob, vr_unit = mo_unit m, vr_source = mo_source m\<rparr>)
                    (sampled m)
             else None)
         (ho_metrics ob)) obs)"

definition inconsistent :: "jstr \<Rightarrow> 'a result" where
  "inconsistent name =
     Inl (Error (js ''Device health query metric '' @ name @ js '' has inconsistent unit or provenance''))"

definition metricStats ::
    "(jstr \<Rightarrow> int option) \<Rightarrow> health_observation list \<Rightarrow> jstr \<Rightarrow> jstr \<Rightarrow> jstr \<Rightarrow> metric_statistics option result" where
  "metricStats host obs name unit source =
     (let valid = valid_rows name obs
      in if valid = [] then Inr None
         else if list_ex (\<lambda>r. vr_unit r \<noteq> unit \<or> vr_source r \<noteq> source) valid then inconsistent name
         else (let rows = by_time host vr_at valid; total = num_total (map vr_value rows)
               in Inr (Some \<lparr>st_minimum = num_least (map vr_value rows), st_maximum = num_greatest (map vr_value rows),
                    st_average = round6 (jdiv total (count_num rows)), st_sum = total, st_count = count_num rows,
                    st_missingCount = jmax (Fin 0) (jsub (count_num obs) (count_num rows)),
                    st_unit = unit, st_source = source,
                    st_first = (vr_value (hd rows), vr_at (hd rows)),
                    st_latest = (vr_value (last rows), vr_at (last rows))\<rparr>)))"

text \<open>The oldest and the newest of some summaries (not empty), the first of equally old or new ones.\<close>

definition oldest_summary :: "(jstr \<Rightarrow> int option) \<Rightarrow> metric_summary list \<Rightarrow> metric_summary" where
  "oldest_summary host xs = fold (\<lambda>x o'. if jless (tm host (ms_firstObservedAt x)) (tm host (ms_firstObservedAt o'))
     then x else o') (tl xs) (hd xs)"

definition newest_summary :: "(jstr \<Rightarrow> int option) \<Rightarrow> metric_summary list \<Rightarrow> metric_summary" where
  "newest_summary host xs = fold (\<lambda>x n. if jless (tm host (ms_lastObservedAt n)) (tm host (ms_lastObservedAt x))
     then x else n) (tl xs) (hd xs)"

definition bucketMetricStats ::
    "(jstr \<Rightarrow> int option) \<Rightarrow> bucket_summary list \<Rightarrow> jstr \<Rightarrow> metric_statistics option result" where
  "bucketMetricStats host buckets name =
     (let values = List.map_filter (\<lambda>b. obj_get (bs_metrics b) name) buckets
      in if values = [] then Inr None
         else (let unit = ms_unit (hd values); source = ms_source (hd values) in
           if list_ex (\<lambda>x. ms_unit x \<noteq> unit \<or> ms_source x \<noteq> source) values then inconsistent name
           else (let count = num_total (map ms_sampleCount values);
                     total = num_total (map ms_sum values);
                     o' = oldest_summary host values;
                     n = newest_summary host values
                 in Inr (Some \<lparr>st_minimum = num_least (map ms_minimum values),
                      st_maximum = num_greatest (map ms_maximum values),
                      st_average = round6 (jdiv total count), st_sum = total, st_count = count,
                      st_missingCount = num_total (map ms_missingSampleCount values),
                      st_unit = unit, st_source = source,
                      st_first = (ms_firstValue o', ms_firstObservedAt o'),
                      st_latest = (ms_lastValue n, ms_lastObservedAt n)\<rparr>))))"

definition combineMetricStats ::
    "(jstr \<Rightarrow> int option) \<Rightarrow> metric_statistics option \<Rightarrow> metric_statistics option \<Rightarrow> metric_statistics option result" where
  "combineMetricStats host raw aggregate =
     (case (raw, aggregate) of
        (None, _) \<Rightarrow> Inr aggregate
      | (Some r, None) \<Rightarrow> Inr (Some r)
      | (Some r, Some a) \<Rightarrow>
          if st_unit r \<noteq> st_unit a \<or> st_source r \<noteq> st_source a
          then throw ''Device health query metric has inconsistent unit or provenance across raw and summarized history''
          else Inr (Some \<lparr>st_minimum = jmin (st_minimum r) (st_minimum a), st_maximum = jmax (st_maximum r) (st_maximum a),
                 st_average = round6 (jdiv (jadd (st_sum r) (st_sum a)) (jadd (st_count r) (st_count a))),
                 st_sum = jadd (st_sum r) (st_sum a), st_count = jadd (st_count r) (st_count a),
                 st_missingCount = jadd (st_missingCount r) (st_missingCount a),
                 st_unit = st_unit r, st_source = st_source r,
                 st_first = (if jle (tm host (snd (st_first r))) (tm host (snd (st_first a))) then st_first r else st_first a),
                 st_latest = (if jle (tm host (snd (st_latest a))) (tm host (snd (st_latest r))) then st_latest r
                              else st_latest a)\<rparr>))"

subsection \<open>Counter series\<close>

text \<open>The rows of a list under the key of each, keys in the order they appear.\<close>

definition group_by :: "('a \<Rightarrow> 'k) \<Rightarrow> 'a list \<Rightarrow> ('k \<times> 'a list) list" where
  "group_by key xs =
     fold (\<lambda>x m. map_set m (key x) ((case map_get m (key x) of Some rows \<Rightarrow> rows | None \<Rightarrow> []) @ [x])) xs []"

definition adjacent :: "'a list \<Rightarrow> ('a \<times> 'a) list" where
  "adjacent xs = zip xs (tl xs)"

definition close_to :: "(jstr \<Rightarrow> int option) \<Rightarrow> jnum \<Rightarrow> jstr \<Rightarrow> jstr \<Rightarrow> bool" where
  "close_to host interval earlier later =
     jle (jsub (tm host later) (tm host earlier)) (jmul interval (Fin (3 / 2)))"

definition raw_series ::
    "(jstr \<Rightarrow> int option) \<Rightarrow> jstr \<Rightarrow> jstr \<Rightarrow> jnum \<Rightarrow> jstr \<times> valid_row list \<Rightarrow> counter_summary result" where
  "raw_series host name unit interval entry =
     (let rows = by_time host vr_at (snd entry); first = hd rows; final = last rows;
          reset = list_ex (\<lambda>(p, r). jless (vr_value r) (vr_value p)) (adjacent rows);
          complete = list_all (\<lambda>(p, r). close_to host interval (vr_at p) (vr_at r)) (adjacent rows)
      in if list_ex (\<lambda>r. vr_source r \<noteq> vr_source first) rows
         then Inl (Error (js ''Device health counter '' @ name @ js '' has inconsistent provenance''))
         else Inr \<lparr>cs_bootSessionId = fst entry, cs_firstValue = vr_value first, cs_firstObservedAt = vr_at first,
                cs_lastValue = vr_value final, cs_lastObservedAt = vr_at final,
                cs_delta = (if reset \<or> \<not> complete then None else Some (jsub (vr_value final) (vr_value first))),
                cs_resetObserved = reset, cs_orderingComplete = complete,
                cs_unit = unit, cs_source = vr_source first\<rparr>)"

text \<open>The valid rows of a counter with the boot session of their observation.\<close>

definition boot_rows :: "jstr \<Rightarrow> health_observation list \<Rightarrow> (jstr \<times> valid_row) list" where
  "boot_rows name obs = concat (map (\<lambda>ob. map (Pair (ho_bootSessionId ob)) (valid_rows name [ob])) obs)"

definition rawCounterSeries ::
    "(jstr \<Rightarrow> int option) \<Rightarrow> health_observation list \<Rightarrow> jstr \<Rightarrow> jstr \<Rightarrow> jnum \<Rightarrow> counter_summary list result" where
  "rawCounterSeries host obs name unit interval =
     and_then (map_result (\<lambda>(boot, rows). raw_series host name unit interval (boot, map snd rows))
                 (group_by fst (boot_rows name obs)))
       (\<lambda>series. Inr (by_time host cs_firstObservedAt series))"

text \<open>One summary of the summaries of a boot session, which are not empty.\<close>

definition join_series :: "(jstr \<Rightarrow> int option) \<Rightarrow> jnum \<Rightarrow> counter_summary list \<Rightarrow> counter_summary" where
  "join_series host interval items =
     (let first = hd items; final = last items;
          reset = (list_ex cs_resetObserved items
            \<or> list_ex (\<lambda>(p, c). jless (cs_firstValue c) (cs_lastValue p)) (adjacent items));
          complete = (list_all cs_orderingComplete items
            \<and> list_all (\<lambda>(p, c). close_to host interval (cs_lastObservedAt p) (cs_firstObservedAt c)) (adjacent items))
      in first\<lparr>cs_lastValue := cs_lastValue final, cs_lastObservedAt := cs_lastObservedAt final,
               cs_delta := (if reset \<or> \<not> complete then None else Some (jsub (cs_lastValue final) (cs_firstValue first))),
               cs_resetObserved := reset, cs_orderingComplete := complete\<rparr>)"

definition merge_boot :: "(jstr \<Rightarrow> int option) \<Rightarrow> jnum \<Rightarrow> jstr \<times> counter_summary list \<Rightarrow> counter_summary result" where
  "merge_boot host interval entry =
     (let items = by_time host cs_firstObservedAt (snd entry) in
      if list_ex (\<lambda>c. cs_unit c \<noteq> cs_unit (hd items) \<or> cs_source c \<noteq> cs_source (hd items)) items
      then throw ''Device health counter has inconsistent unit or provenance across raw and summarized history''
      else Inr (join_series host interval items))"

definition mergeCounterSeries ::
    "(jstr \<Rightarrow> int option) \<Rightarrow> counter_summary list \<Rightarrow> counter_summary list \<Rightarrow> jnum \<Rightarrow> counter_summary list result" where
  "mergeCounterSeries host raw aggregate interval =
     and_then (map_result (merge_boot host interval) (group_by cs_bootSessionId (aggregate @ raw)))
       (\<lambda>series. Inr (by_time host cs_firstObservedAt series))"

text \<open>
  \<open>bucket.counters[name] || []\<close>; iterating over a function of the prototype throws.
\<close>

fun counters_of :: "jstr \<Rightarrow> bucket_summary list \<Rightarrow> counter_summary list result" where
  "counters_of name [] = Inr []"
| "counters_of name (b # bs) =
     (case obj_member (bs_counters b) name of
        Some Inherited \<Rightarrow> Inl TypeError
      | held \<Rightarrow> and_then (counters_of name bs) (\<lambda>cs. Inr ((case held of Some (Own s) \<Rightarrow> s | _ \<Rightarrow> []) @ cs)))"

definition bucketCounterSeries ::
    "(jstr \<Rightarrow> int option) \<Rightarrow> bucket_summary list \<Rightarrow> jstr \<Rightarrow> jnum \<Rightarrow> counter_summary list result" where
  "bucketCounterSeries host buckets name interval =
     and_then (counters_of name buckets) (\<lambda>cs.
       Inr (by_time host cs_firstObservedAt
         (map (\<lambda>(boot, items). join_series host interval (by_time host cs_firstObservedAt items))
            (group_by cs_bootSessionId cs))))"

subsection \<open>One device\<close>

definition scopeMatches :: "query_scope \<Rightarrow> jstr \<Rightarrow> jstr \<Rightarrow> bool" where
  "scopeMatches scope tenant site \<longleftrightarrow> tenant = sc_tenantId scope \<and> site = sc_siteId scope"

text \<open>\<open>!request.deviceId || id === request.deviceId\<close>.\<close>

definition wants_device :: "query_request \<Rightarrow> jstr \<Rightarrow> bool" where
  "wants_device req d = (case rq_deviceId req of None \<Rightarrow> True | Some s \<Rightarrow> s = [] \<or> d = s)"

text \<open>\<open>a || b || \<dots> || null\<close> on optional strings.\<close>

definition first_string :: "jstr option list \<Rightarrow> jstr option" where
  "first_string xs = (case find (\<lambda>x. x \<noteq> None \<and> x \<noteq> Some []) xs of Some s \<Rightarrow> s | None \<Rightarrow> None)"

definition head_opt :: "('a \<Rightarrow> 'b) \<Rightarrow> 'a list \<Rightarrow> 'b option" where
  "head_opt f xs = (case xs of [] \<Rightarrow> None | x # _ \<Rightarrow> Some (f x))"

text \<open>The rows of one device.\<close>

record device_rows =
  dr_observations :: "health_observation list"
  dr_buckets :: "bucket_summary list"
  dr_outside :: "bucket_summary list"
  dr_events :: "event_evidence list"
  dr_failures :: "failure_evidence list"

definition outside_raw ::
    "(jstr \<Rightarrow> int option) \<Rightarrow> health_observation list \<Rightarrow> bucket_summary list \<Rightarrow> bucket_summary list" where
  "outside_raw host obs buckets =
     (if obs = [] then buckets
      else (let start = tm host (ho_observedAt (hd obs)); stop = tm host (ho_observedAt (last obs))
            in List.filter (\<lambda>b. jless (tm host (bs_lastObservedAt b)) start \<or> jless stop (tm host (bs_firstObservedAt b)))
                 buckets))"

definition rows_of_device ::
    "(jstr \<Rightarrow> int option) \<Rightarrow> health_observation list \<Rightarrow> bucket_summary list \<Rightarrow> event_evidence list
      \<Rightarrow> failure_evidence list \<Rightarrow> jstr \<Rightarrow> device_rows" where
  "rows_of_device host observations buckets events failures d =
     (let obs = by_time host ho_observedAt (List.filter (\<lambda>x. ho_deviceId x = d) observations);
          bs = by_time host bs_bucketStartAt (List.filter (\<lambda>x. bs_deviceId x = d) buckets)
      in \<lparr>dr_observations = obs, dr_buckets = bs, dr_outside = outside_raw host obs bs,
          dr_events = List.filter (\<lambda>x. hv_deviceId x = d) events,
          dr_failures = by_time host hf_attemptedAt (List.filter (\<lambda>x. hf_deviceId x = d) failures)\<rparr>)"

definition physical_device :: "query_scope \<Rightarrow> query_dataset \<Rightarrow> device_rows \<Rightarrow> jstr \<Rightarrow> jstr option" where
  "physical_device scope ds r d =
     first_string
       [head_opt ho_physicalDeviceId (dr_observations r), head_opt bs_physicalDeviceId (dr_buckets r),
        head_opt hv_physicalDeviceId (dr_events r), head_opt hf_physicalDeviceId (dr_failures r),
        Option.bind (find (\<lambda>x. ad_deviceId x = d \<and> scopeMatches scope (ad_tenantId x) (ad_siteId x))
                       (ds_authorizedDevices ds)) ad_physicalDeviceId]"

definition first_observed :: "(jstr \<Rightarrow> int option) \<Rightarrow> device_rows \<Rightarrow> jstr option" where
  "first_observed host r =
     first_string [head_opt id (by_time host id
       (map ho_observedAt (take 1 (dr_observations r)) @ map bs_firstObservedAt (dr_outside r)))]"

definition latest_observed :: "(jstr \<Rightarrow> int option) \<Rightarrow> device_rows \<Rightarrow> jstr option" where
  "latest_observed host r =
     first_string [head_opt id (js_sort (\<lambda>a b. jless (Fin 0) (jsub (tm host b) (tm host a)))
       ((if dr_observations r = [] then [] else [ho_observedAt (last (dr_observations r))])
        @ map bs_lastObservedAt (dr_outside r)))]"

definition expected_between :: "jnum \<Rightarrow> jnum \<Rightarrow> jnum \<Rightarrow> jnum" where
  "expected_between start stop interval = jmax (Fin 1) (jadd (jfloor (jdiv (jsub stop start) interval)) (Fin 1))"

definition gauge_availability ::
    "(jstr \<Rightarrow> int option) \<Rightarrow> device_rows \<Rightarrow> supported_metric \<Rightarrow> metric_availability result" where
  "gauge_availability host r sm =
     (let sample = find (\<lambda>m. mo_name m = sm_name sm) (concat (map ho_metrics (dr_observations r)))
      in and_then
           (if dr_observations r = [] then Inr None
            else metricStats host (dr_observations r) (sm_name sm)
                   (or_string (map_option mo_unit sample) (sm_unit sm)) (or_string (map_option mo_source sample) []))
           (\<lambda>raw. and_then (bucketMetricStats host (dr_outside r) (sm_name sm)) (\<lambda>aggregate.
            and_then (combineMetricStats host raw aggregate) (\<lambda>stats.
              Inr (case stats of
                 Some s \<Rightarrow> \<lparr>ma_name = sm_name sm, ma_status = Available, ma_reason = None,
                    ma_semantics = Some (sm_semantics sm), ma_statistics = Some s, ma_counterSeries = None\<rparr>
               | None \<Rightarrow> \<lparr>ma_name = sm_name sm, ma_status = Unavailable, ma_reason = Some No_samples_in_range,
                    ma_semantics = Some (sm_semantics sm), ma_statistics = None, ma_counterSeries = None\<rparr>)))))"

definition counter_availability ::
    "(jstr \<Rightarrow> int option) \<Rightarrow> jnum \<Rightarrow> device_rows \<Rightarrow> supported_metric \<Rightarrow> metric_availability result" where
  "counter_availability host interval r sm =
     and_then
       (if dr_observations r = [] then Inr []
        else rawCounterSeries host (dr_observations r) (sm_name sm) (sm_unit sm) interval)
       (\<lambda>raw. and_then (bucketCounterSeries host (dr_outside r) (sm_name sm) interval) (\<lambda>aggregate.
        and_then (mergeCounterSeries host raw aggregate interval) (\<lambda>series.
          Inr (if series \<noteq> []
               then \<lparr>ma_name = sm_name sm, ma_status = Available, ma_reason = None,
                   ma_semantics = Some (sm_semantics sm), ma_statistics = None, ma_counterSeries = Some series\<rparr>
               else \<lparr>ma_name = sm_name sm, ma_status = Unavailable, ma_reason = Some No_samples_in_range,
                   ma_semantics = Some (sm_semantics sm), ma_statistics = None, ma_counterSeries = None\<rparr>))))"

definition metric_availability_of ::
    "(jstr \<Rightarrow> int option) \<Rightarrow> query_dataset \<Rightarrow> device_rows \<Rightarrow> jstr \<Rightarrow> metric_availability result" where
  "metric_availability_of host ds r name =
     (case find (\<lambda>sm. sm_name sm = name) (ds_supportedMetrics ds) of
        None \<Rightarrow> Inr \<lparr>ma_name = name, ma_status = Unsupported, ma_reason = Some Metric_not_supported,
           ma_semantics = None, ma_statistics = None, ma_counterSeries = None\<rparr>
      | Some sm \<Rightarrow> if sm_semantics sm = Counter then counter_availability host (ds_expectedIntervalMs ds) r sm
           else gauge_availability host r sm)"

definition requested_metrics :: "query_request \<Rightarrow> query_dataset \<Rightarrow> jstr list" where
  "requested_metrics req ds =
     (case rq_metrics req of
        Some (n # ns) \<Rightarrow> n # ns
      | _ \<Rightarrow> map sm_name (ds_supportedMetrics ds))"

definition note_boot ::
    "(jstr \<Rightarrow> int option) \<Rightarrow> boot_basis \<Rightarrow> jstr \<times> jstr \<Rightarrow> (jstr \<times> boot_time) list \<Rightarrow> (jstr \<times> boot_time) list" where
  "note_boot host basis e m =
     (case e of (boot, seenAt) \<Rightarrow>
        if (case map_get m boot of None \<Rightarrow> True | Some p \<Rightarrow> jless (tm host seenAt) (tm host (bt_at p)))
        then map_set m boot \<lparr>bt_at = seenAt, bt_basis = basis, bt_eventId = None, bt_evidenceReferences = []\<rparr>
        else m)"

definition note_reboot :: "event_evidence \<Rightarrow> (jstr \<times> boot_time) list \<Rightarrow> (jstr \<times> boot_time) list" where
  "note_reboot ev m =
     (case (hv_observedAtBasis ev, hv_detectedAt ev) of
        (Some Server_detection_time, Some t) \<Rightarrow>
          if hv_kind ev = js ''reboot-detected'' \<and> t \<noteq> [] \<and> map_get m (hv_bootSessionId ev) = None
          then map_set m (hv_bootSessionId ev)
                 \<lparr>bt_at = t, bt_basis = Detected_by_server, bt_eventId = Some (hv_id ev),
                  bt_evidenceReferences = hv_evidenceReferences ev\<rparr>
          else m
      | _ \<Rightarrow> m)"

definition boot_times :: "(jstr \<Rightarrow> int option) \<Rightarrow> device_rows \<Rightarrow> (jstr \<times> boot_time) list" where
  "boot_times host r =
     (let sampled = fold (note_boot host Sample_collected)
            (map (\<lambda>x. (ho_bootSessionId x, ho_observedAt x)) (dr_observations r)) [];
          summarised = fold (note_boot host Summary_first_observation)
            (map (\<lambda>c. (cs_bootSessionId c, cs_firstObservedAt c))
               (concat (map (\<lambda>b. concat (map snd (bs_counters b))) (dr_outside r)))) sampled
      in fold note_reboot (dr_events r) summarised)"

definition boot_transition_of :: "event_evidence list \<Rightarrow> (jstr \<times> boot_time) \<times> (jstr \<times> boot_time) \<Rightarrow> boot_transition" where
  "boot_transition_of events p =
     (case p of ((prior, _), (boot, b)) \<Rightarrow>
        (let matched = find (\<lambda>x. hv_kind x = js ''reboot-detected'' \<and> hv_bootSessionId x = boot) events
         in \<lparr>tn_from = prior, tn_to = boot, tn_observedAt = bt_at b, tn_observedAtBasis = bt_basis b,
             tn_eventId = first_string [bt_eventId b, map_option hv_id matched],
             tn_evidenceReferences =
               (if bt_evidenceReferences b \<noteq> [] then bt_evidenceReferences b
                else (case matched of Some x \<Rightarrow> hv_evidenceReferences x | None \<Rightarrow> []))\<rparr>))"

definition boot_transitions :: "(jstr \<Rightarrow> int option) \<Rightarrow> device_rows \<Rightarrow> boot_transition list" where
  "boot_transitions host r =
     map (boot_transition_of (dr_events r)) (adjacent (by_time host (\<lambda>e. bt_at (snd e)) (boot_times host r)))"

definition recover :: "(jstr \<Rightarrow> int option) \<Rightarrow> device_rows \<Rightarrow> failure_evidence \<Rightarrow> recovered_failure" where
  "recover host r f =
     (let recovery = first_string [head_opt id (by_time host id
            (List.filter (\<lambda>t. jle (tm host (hf_attemptedAt f)) (tm host t))
               (map ho_observedAt (dr_observations r) @ map bs_firstObservedAt (dr_buckets r))))]
      in \<lparr>rc_failure = f, rc_recoveryObservedAt = recovery,
          rc_recoveryObservedAfterMs = map_option (\<lambda>t. jsub (tm host t) (tm host (hf_attemptedAt f))) recovery\<rparr>)"

definition reset_kinds :: "jstr list" where
  "reset_kinds = map js [''watchdog-reset'', ''exception-reset'', ''reset-cause-unknown'']"

definition device_analysis_of ::
    "(jstr \<Rightarrow> int option) \<Rightarrow> query_scope \<Rightarrow> query_request \<Rightarrow> query_dataset \<Rightarrow> int \<times> int \<Rightarrow> device_rows \<Rightarrow> jstr
      \<Rightarrow> device_analysis result" where
  "device_analysis_of host scope req ds rng r d =
     (let firstAt = first_observed host r; latestAt = latest_observed host r;
          observed = jadd (count_num (dr_observations r)) (num_total (map bs_sampleCount (dr_outside r)));
          interval = ds_expectedIntervalMs ds;
          expected = (case (firstAt, latestAt) of
             (Some f, Some l) \<Rightarrow> expected_between (tm host f) (tm host l) interval
           | _ \<Rightarrow> expected_between (Fin (of_int (fst rng))) (Fin (of_int (snd rng))) interval)
      in and_then (map_result (metric_availability_of host ds r) (requested_metrics req ds)) (\<lambda>metrics.
           Inr \<lparr>da_deviceId = d, da_physicalDeviceId = physical_device scope ds r d,
                da_firstObservedAt = firstAt, da_latestObservedAt = latestAt,
                da_observedSampleCount = observed, da_expectedSampleCount = expected,
                da_missingSampleCount = jmax (Fin 0) (jsub expected observed),
                da_coverageRatio = (if expected = NaN \<or> expected = Fin 0 then None
                  else Some (jmin (Fin 1) (jdiv observed expected))),
                da_coverageBasis = (if jless (Fin 0) observed then Observed_sample_span else Requested_window_no_samples),
                da_metrics = metrics, da_failureCount = length (dr_failures r),
                da_failures = map (recover host r) (dr_failures r),
                da_bootSessionTransitions = boot_transitions host r,
                da_resetEvidence = List.map_filter
                  (\<lambda>x. map_option (Pair (ho_observedAt x)) (ho_resetEvidence x)) (dr_observations r),
                da_resetEvents = List.filter (\<lambda>x. hv_kind x \<in> set reset_kinds) (dr_events r),
                da_events = dr_events r\<rparr>))"

subsection \<open>The query\<close>

definition granularity_str :: "granularity \<Rightarrow> jstr" where
  "granularity_str g = (case g of Hourly \<Rightarrow> js ''hourly'' | Daily \<Rightarrow> js ''daily'')"

definition seriesCursor :: "series_row \<Rightarrow> jstr" where
  "seriesCursor row = (case row of
     Observation_row x \<Rightarrow> ho_observedAt x @ js ''|'' @ ho_deviceId x @ js ''|'' @ ho_sampleId x
   | Bucket_row x \<Rightarrow> bs_bucketStartAt x @ js ''|'' @ bs_deviceId x @ js ''|''
       @ bs_bucketStartAt x @ js '':'' @ granularity_str (bs_granularity x)
   | Event_row x \<Rightarrow> hv_observedAt x @ js ''|'' @ hv_deviceId x @ js ''|'' @ hv_id x
   | Failure_row x \<Rightarrow> hf_attemptedAt x @ js ''|'' @ hf_deviceId x @ js ''|'' @ hf_id x)"

text \<open>The evidence of the scope, the requested device and the range.\<close>

definition selected_evidence ::
    "(jstr \<Rightarrow> int option) \<Rightarrow> query_scope \<Rightarrow> query_request \<Rightarrow> query_dataset \<Rightarrow> int \<times> int \<Rightarrow> query_dataset" where
  "selected_evidence host scope req ds rng =
     ds\<lparr>ds_observations := List.filter (\<lambda>x. scopeMatches scope (ho_tenantId x) (ho_siteId x)
            \<and> wants_device req (ho_deviceId x) \<and> inRange host (ho_observedAt x) (fst rng) (snd rng)) (ds_observations ds),
        ds_buckets := List.filter (\<lambda>x. scopeMatches scope (bs_tenantId x) (bs_siteId x)
            \<and> wants_device req (bs_deviceId x) \<and> inRange host (bs_bucketStartAt x) (fst rng) (snd rng)) (ds_buckets ds),
        ds_events := List.filter (\<lambda>x. scopeMatches scope (hv_tenantId x) (hv_siteId x)
            \<and> wants_device req (hv_deviceId x) \<and> inRange host (hv_observedAt x) (fst rng) (snd rng)) (ds_events ds),
        ds_failures := List.filter (\<lambda>x. scopeMatches scope (hf_tenantId x) (hf_siteId x)
            \<and> wants_device req (hf_deviceId x) \<and> inRange host (hf_attemptedAt x) (fst rng) (snd rng)) (ds_failures ds)\<rparr>"

definition device_ids :: "query_scope \<Rightarrow> query_request \<Rightarrow> query_dataset \<Rightarrow> jstr list" where
  "device_ids scope req sel =
     set_of_list (map ho_deviceId (ds_observations sel) @ map bs_deviceId (ds_buckets sel)
       @ map hv_deviceId (ds_events sel) @ map hf_deviceId (ds_failures sel)
       @ map ad_deviceId (List.filter (\<lambda>x. scopeMatches scope (ad_tenantId x) (ad_siteId x)
           \<and> wants_device req (ad_deviceId x)) (ds_authorizedDevices sel)))"

definition bounded_evidence :: "jstr list \<Rightarrow> query_dataset \<Rightarrow> bool" where
  "bounded_evidence ids sel \<longleftrightarrow> length ids \<le> 100
     \<and> length (ds_observations sel) + length (ds_buckets sel) + length (ds_events sel) + length (ds_failures sel) \<le> 20000"

definition analyse_devices ::
    "(jstr \<Rightarrow> int option) \<Rightarrow> query_scope \<Rightarrow> query_request \<Rightarrow> int \<times> int \<Rightarrow> query_dataset \<Rightarrow> device_analysis list result" where
  "analyse_devices host scope req rng sel =
     (let ids = device_ids scope req sel
      in if \<not> bounded_evidence ids sel then throw ''Device health query exceeds bounded result size''
         else map_result (\<lambda>d. device_analysis_of host scope req sel rng
                (rows_of_device host (ds_observations sel) (ds_buckets sel) (ds_events sel) (ds_failures sel) d) d)
              (js_sort (\<lambda>a b. str_less b a) ids))"

definition selected_series :: "query_request \<Rightarrow> query_dataset \<Rightarrow> series_row list" where
  "selected_series req sel =
     (if rq_granularity req = js ''raw'' then map Observation_row (ds_observations sel)
      else if rq_granularity req = js ''hourly'' \<or> rq_granularity req = js ''daily''
        then map Bucket_row (List.filter (\<lambda>b. granularity_str (bs_granularity b) = rq_granularity req) (ds_buckets sel))
      else if rq_granularity req = js ''events'' then map Event_row (ds_events sel)
      else map Failure_row (ds_failures sel))"

definition sorted_series :: "runtime \<Rightarrow> series_row list \<Rightarrow> series_row list" where
  "sorted_series h rows = js_sort (\<lambda>a b. rt_after h (seriesCursor a) (seriesCursor b)) rows"

text \<open>
  \<open>/^\d{4}-\d\d-\d\dT[^|]+\|[^|]{1,240}\|[^|]{1,240}$/\<close>: the parts between the bars are three.
\<close>

fun split_bar :: "jstr \<Rightarrow> jstr list" where
  "split_bar [] = [[]]"
| "split_bar (c # s) = (if c = 124 then [] # split_bar s
     else (case split_bar s of p # ps \<Rightarrow> (c # p) # ps | [] \<Rightarrow> [[c]]))"

definition cursor_time_shape :: "jstr \<Rightarrow> bool" where
  "cursor_time_shape s \<longleftrightarrow> 12 \<le> length s \<and> list_all2 template_match (js ''dddd-dd-ddT'') (take 11 s)"

definition cursor_ok :: "(jstr \<Rightarrow> int option) \<Rightarrow> jstr \<Rightarrow> bool" where
  "cursor_ok host c = (case split_bar c of
     [t, d, i] \<Rightarrow> cursor_time_shape t \<and> 1 \<le> length d \<and> length d \<le> 240 \<and> 1 \<le> length i \<and> length i \<le> 240
       \<and> date_parse host t \<noteq> None
   | _ \<Rightarrow> False)"

definition given_cursor :: "query_request \<Rightarrow> jstr option" where
  "given_cursor req = (case rq_cursor req of Some c \<Rightarrow> if c = [] then None else Some c | None \<Rightarrow> None)"

definition after_cursor :: "jstr option \<Rightarrow> series_row list \<Rightarrow> series_row list" where
  "after_cursor cur rows =
     (case cur of None \<Rightarrow> rows | Some c \<Rightarrow> List.filter (\<lambda>r. str_less c (seriesCursor r)) rows)"

definition page_limit :: "query_request \<Rightarrow> jnum" where
  "page_limit req = jmax (Fin 1) (jmin (Fin 1000) (jfloor (case rq_limit req of Some n \<Rightarrow> n | None \<Rightarrow> Fin 500)))"

definition statistics_of :: "jstr \<Rightarrow> device_analysis list \<Rightarrow> metric_availability list" where
  "statistics_of name devices =
     List.filter (\<lambda>x. ma_name x = name \<and> ma_status x = Available) (concat (map da_metrics devices))"

text \<open>
  A metric available under one name has statistics in all devices or in none, since its semantics is that
  of the first supported metric of the name.
\<close>

definition metric_average_of :: "device_analysis list \<Rightarrow> supported_metric \<Rightarrow> metric_average option" where
  "metric_average_of devices sm =
     (if sm_semantics sm = Counter then None
      else (case statistics_of (sm_name sm) devices of
        [] \<Rightarrow> None
      | x # xs \<Rightarrow>
          (case ma_statistics x of
             None \<Rightarrow> None
           | Some stats \<Rightarrow>
               (let every = List.map_filter ma_statistics (x # xs);
                    count = num_total (map st_count every)
                in Some \<lparr>av_name = sm_name sm,
                     av_average = round6 (jdiv (num_total (map st_sum every)) count), av_count = count,
                     av_unit = st_unit stats,
                     av_sources = js_sort (\<lambda>a b. str_less b a) (set_of_list (map st_source every))\<rparr>))))"

definition page_of :: "jnum \<Rightarrow> series_row list \<Rightarrow> series_row list \<times> result_page" where
  "page_of limit rows =
     (let series = slice_to limit rows; more = jless limit (count_num rows)
      in (series, \<lparr>pg_limit = limit, pg_nextCursor = (if more then Some (seriesCursor (last series)) else None),
                   pg_hasMore = more\<rparr>))"

text \<open>The answer for the analysed devices and the selected evidence.\<close>

definition query_answer ::
    "runtime \<Rightarrow> query_scope \<Rightarrow> query_request \<Rightarrow> query_dataset \<Rightarrow> int \<times> int \<Rightarrow> query_dataset \<Rightarrow> device_analysis list
      \<Rightarrow> query_result result" where
  "query_answer h scope req ds rng sel devices =
     (let rows = sorted_series h (selected_series req sel);
          (series, page) = page_of (page_limit req) (after_cursor (given_cursor req) rows) in
      if (case given_cursor req of Some c \<Rightarrow> \<not> cursor_ok (rt_parse h) c | None \<Rightarrow> False)
      then throw ''Invalid device health query cursor''
      else and_then (to_iso (Some (fst rng))) (\<lambda>from_iso. and_then (to_iso (Some (snd rng))) (\<lambda>until_iso.
             Inr \<lparr>qr_tenantId = sc_tenantId scope, qr_siteId = sc_siteId scope, qr_from = from_iso, qr_to = until_iso,
                  qr_timezone = or_string (rq_timezone req) (js ''UTC''), qr_granularity = rq_granularity req,
                  qr_devices = devices,
                  qr_site = \<lparr>sy_deviceCount = length devices,
                    sy_observedSampleCount = num_total (map da_observedSampleCount devices),
                    sy_failureCount = sum_list (map da_failureCount devices),
                    sy_metricAverages = List.map_filter (metric_average_of devices) (ds_supportedMetrics ds)\<rparr>,
                  qr_series = series, qr_page = page\<rparr>)))"

definition queryDeviceHealthEvidence ::
    "runtime \<Rightarrow> query_scope \<Rightarrow> query_request \<Rightarrow> query_dataset \<Rightarrow> query_result result" where
  "queryDeviceHealthEvidence h scope req ds =
     and_then (query_range h scope req ds) (\<lambda>rng.
       let sel = selected_evidence (rt_parse h) scope req ds rng in
       and_then (analyse_devices (rt_parse h) scope req rng sel) (query_answer h scope req ds rng sel))"

subsection \<open>A query sees only its scope\<close>

definition in_scope :: "query_scope \<Rightarrow> query_dataset \<Rightarrow> query_dataset" where
  "in_scope scope ds =
     ds\<lparr>ds_observations := List.filter (\<lambda>x. scopeMatches scope (ho_tenantId x) (ho_siteId x)) (ds_observations ds),
        ds_buckets := List.filter (\<lambda>x. scopeMatches scope (bs_tenantId x) (bs_siteId x)) (ds_buckets ds),
        ds_events := List.filter (\<lambda>x. scopeMatches scope (hv_tenantId x) (hv_siteId x)) (ds_events ds),
        ds_failures := List.filter (\<lambda>x. scopeMatches scope (hf_tenantId x) (hf_siteId x)) (ds_failures ds),
        ds_authorizedDevices := List.filter (\<lambda>x. scopeMatches scope (ad_tenantId x) (ad_siteId x))
          (ds_authorizedDevices ds)\<rparr>"

lemma find_filter: "find (\<lambda>x. P x \<and> Q x) (List.filter Q xs) = find (\<lambda>x. P x \<and> Q x) xs"
  by (induction xs) auto

lemma filter_absorb: "List.filter (\<lambda>x. P x \<and> Q x) (List.filter P xs) = List.filter (\<lambda>x. P x \<and> Q x) xs"
  by (induction xs) auto

lemma selected_in_scope:
  "selected_evidence host scope req (in_scope scope ds) rng
    = (selected_evidence host scope req ds rng)\<lparr>ds_authorizedDevices := ds_authorizedDevices (in_scope scope ds)\<rparr>"
  by (simp add: selected_evidence_def in_scope_def filter_absorb)

lemma analysis_in_scope:
  "device_analysis_of host scope req (sel\<lparr>ds_authorizedDevices := ds_authorizedDevices (in_scope scope ds)\<rparr>) rng r d
     = device_analysis_of host scope req (sel\<lparr>ds_authorizedDevices := ds_authorizedDevices ds\<rparr>) rng r d"
proof -
  have "physical_device scope (sel\<lparr>ds_authorizedDevices := ds_authorizedDevices (in_scope scope ds)\<rparr>) r d
      = physical_device scope (sel\<lparr>ds_authorizedDevices := ds_authorizedDevices ds\<rparr>) r d"
    by (simp add: physical_device_def in_scope_def find_filter)
  moreover have "metric_availability_of host (sel\<lparr>ds_authorizedDevices := ads\<rparr>) r = metric_availability_of host sel r"
    and "requested_metrics req (sel\<lparr>ds_authorizedDevices := ads\<rparr>) = requested_metrics req sel" for ads
    by (simp_all add: fun_eq_iff metric_availability_of_def requested_metrics_def split: option.split list.split)
  ultimately show ?thesis by (simp add: device_analysis_of_def Let_def)
qed

lemma analyse_in_scope:
  assumes "ds_authorizedDevices sel = ds_authorizedDevices ds"
  shows "analyse_devices host scope req rng (sel\<lparr>ds_authorizedDevices := ds_authorizedDevices (in_scope scope ds)\<rparr>)
     = analyse_devices host scope req rng sel"
proof -
  let ?sel = "sel\<lparr>ds_authorizedDevices := ds_authorizedDevices (in_scope scope ds)\<rparr>"
  have "device_ids scope req ?sel = device_ids scope req sel"
    using assms by (simp add: device_ids_def in_scope_def filter_absorb del: filter_filter)
  moreover have "bounded_evidence ids ?sel = bounded_evidence ids sel" for ids
    by (simp add: bounded_evidence_def)
  moreover have "sel\<lparr>ds_authorizedDevices := ds_authorizedDevices ds\<rparr> = sel" using assms by simp
  ultimately show ?thesis by (simp add: analyse_devices_def Let_def analysis_in_scope)
qed

text \<open>
  C36. A health query answers from the evidence and the devices of its own tenant and site alone: taking away
  every row of other scopes changes neither the result nor the error.
\<close>

theorem query_reads_only_its_scope:
  "queryDeviceHealthEvidence h scope req (in_scope scope ds) = queryDeviceHealthEvidence h scope req ds"
proof -
  have rng: "query_range h scope req (in_scope scope ds) = query_range h scope req ds"
    by (simp add: query_range_def in_scope_def cong: option.case_cong)
  have dev: "analyse_devices (rt_parse h) scope req rng (selected_evidence (rt_parse h) scope req (in_scope scope ds) rng)
      = analyse_devices (rt_parse h) scope req rng (selected_evidence (rt_parse h) scope req ds rng)" for rng
    unfolding selected_in_scope by (rule analyse_in_scope) (simp add: selected_evidence_def)
  have rows: "selected_series req (selected_evidence (rt_parse h) scope req (in_scope scope ds) rng)
      = selected_series req (selected_evidence (rt_parse h) scope req ds rng)" for rng
    unfolding selected_in_scope by (simp add: selected_series_def)
  have sm: "ds_supportedMetrics (in_scope scope ds) = ds_supportedMetrics ds" by (simp add: in_scope_def)
  have "query_answer h scope req (in_scope scope ds) rng (selected_evidence (rt_parse h) scope req (in_scope scope ds) rng)
      = query_answer h scope req ds rng (selected_evidence (rt_parse h) scope req ds rng)" for rng
    by (rule ext) (simp only: query_answer_def rows sm)
  then show ?thesis by (simp add: queryDeviceHealthEvidence_def rng dev Let_def)
qed

subsection \<open>Following the cursors\<close>

text \<open>
  What a client reads that asks for the first page and then for the page behind each cursor it is given:
  \<open>pages ask cursor rows\<close> holds when the chain of pages from \<open>cursor\<close> ends and has shown \<open>rows\<close>.
\<close>

inductive pages :: "(jstr option \<Rightarrow> query_result result) \<Rightarrow> jstr option \<Rightarrow> series_row list \<Rightarrow> bool"
  for ask where
  final_page: "ask cursor = Inr r \<Longrightarrow> pg_nextCursor (qr_page r) = None \<Longrightarrow> pages ask cursor (qr_series r)"
| further_page: "ask cursor = Inr r \<Longrightarrow> pg_nextCursor (qr_page r) = Some c \<Longrightarrow> pages ask (Some c) rows
    \<Longrightarrow> pages ask cursor (qr_series r @ rows)"

inductive_cases pagesE: "pages ask cursor rows"

definition ask_page ::
    "runtime \<Rightarrow> query_scope \<Rightarrow> query_request \<Rightarrow> query_dataset \<Rightarrow> jstr option \<Rightarrow> query_result result" where
  "ask_page h scope req ds cursor = queryDeviceHealthEvidence h scope (req\<lparr>rq_cursor := cursor\<rparr>) ds"

text \<open>The chain of pages is determined by the answers.\<close>

lemma pages_unique: "pages ask cursor rows \<Longrightarrow> pages ask cursor rows' \<Longrightarrow> rows' = rows"
proof (induction arbitrary: rows' rule: pages.induct)
  case (final_page cursor r)
  then show ?case by (auto elim: pagesE)
next
  case (further_page cursor r c rows)
  from further_page.prems further_page.hyps(1,2) obtain rest where "rows' = qr_series r @ rest" "pages ask (Some c) rest"
    by (auto elim: pagesE)
  with further_page.IH show ?case by simp
qed

lemma str_less_irrefl [simp]: "\<not> str_less s s"
  by (simp add: str_less_def lexordp_irreflexive')

lemma str_less_trans: "str_less s t \<Longrightarrow> str_less t u \<Longrightarrow> str_less s u"
  unfolding str_less_def by (rule lexordp_trans)

lemma str_less_linear: "str_less s t \<or> s = t \<or> str_less t s"
  unfolding str_less_def by (rule lexordp_linear)

definition before_row :: "series_row \<Rightarrow> series_row \<Rightarrow> bool" where
  "before_row a b \<longleftrightarrow> str_less (seriesCursor a) (seriesCursor b)"

text \<open>Sorting by a comparator that orders the rows as their cursors gives the rows in cursor order.\<close>

lemma sort_insert_before:
  assumes "\<forall>y\<in>set ys. gt x y \<longleftrightarrow> before_row y x" "\<forall>y\<in>set ys. seriesCursor y \<noteq> seriesCursor x"
    and "sorted_wrt before_row ys"
  shows "sorted_wrt before_row (sort_insert gt x ys)"
  using assms
proof (induction ys)
  case (Cons y ys)
  show ?case
  proof (cases "gt x y")
    case True
    with Cons show ?thesis by auto
  next
    case False
    with Cons.prems(1,2) have "before_row x y" using str_less_linear by (auto simp: before_row_def)
    with False Cons.prems(3) show ?thesis by (auto simp: before_row_def intro: str_less_trans)
  qed
qed simp

text \<open>Every selected row can be asked for, no two share a cursor, and the locale orders them as code units.\<close>

definition pageable :: "runtime \<Rightarrow> series_row list \<Rightarrow> bool" where
  "pageable h rows \<longleftrightarrow> distinct (map seriesCursor rows) \<and> list_all (\<lambda>r. cursor_ok (rt_parse h) (seriesCursor r)) rows
     \<and> list_all (\<lambda>a. list_all (\<lambda>b. rt_after h (seriesCursor a) (seriesCursor b) \<longleftrightarrow> before_row b a) rows) rows"

lemma sorted_series_mset [simp]: "mset (sorted_series h rows) = mset rows"
  by (simp add: sorted_series_def)

lemma sorted_series_set [simp]: "set (sorted_series h rows) = set rows"
  by (simp add: sorted_series_def)

lemma sorted_series_sorted:
  "pageable h rows \<Longrightarrow> sorted_wrt before_row (sorted_series h rows)"
proof (induction rows)
  case (Cons x rows)
  have "seriesCursor y \<noteq> seriesCursor x" if "y \<in> set rows" for y
    using Cons.prems imageI [OF that, of seriesCursor] by (auto simp: pageable_def)
  moreover have "rt_after h (seriesCursor x) (seriesCursor y) \<longleftrightarrow> before_row y x" if "y \<in> set rows" for y
    using Cons.prems that by (simp add: pageable_def list_all_iff)
  moreover have "sorted_wrt before_row (sorted_series h rows)"
    using Cons by (simp add: pageable_def list_all_iff)
  ultimately have "sorted_wrt before_row
      (sort_insert (\<lambda>a b. rt_after h (seriesCursor a) (seriesCursor b)) x (sorted_series h rows))"
    by (intro sort_insert_before) simp_all
  then show ?case by (simp add: sorted_series_def js_sort_simps)
qed (simp add: sorted_series_def js_sort_simps)

lemma after_cursor_append:
  assumes "sorted_wrt before_row (xs @ r # ys)"
  shows "after_cursor (Some (seriesCursor r)) (xs @ r # ys) = ys"
proof -
  have "x \<in> set xs \<Longrightarrow> str_less (seriesCursor x) (seriesCursor r)" for x
    using assms by (simp add: sorted_wrt_append before_row_def)
  then have xs: "x \<in> set xs \<Longrightarrow> \<not> str_less (seriesCursor r) (seriesCursor x)" for x
    using str_less_trans str_less_irrefl by metis
  have ys: "y \<in> set ys \<Longrightarrow> str_less (seriesCursor r) (seriesCursor y)" for y
    using assms by (auto simp: sorted_wrt_append before_row_def)
  have "List.filter (\<lambda>x. str_less (seriesCursor r) (seriesCursor x)) xs = []"
    using xs by (simp add: filter_empty_conv)
  moreover have "List.filter (\<lambda>x. str_less (seriesCursor r) (seriesCursor x)) ys = ys"
    using ys by (simp add: filter_id_conv)
  ultimately show ?thesis by (simp add: after_cursor_def)
qed

text \<open>The cursor of a request does not matter for anything but the page.\<close>

lemma cursor_irrelevant [simp]:
  "query_range h scope (req\<lparr>rq_cursor := c\<rparr>) ds = query_range h scope req ds"
  "selected_evidence host scope (req\<lparr>rq_cursor := c\<rparr>) ds rng = selected_evidence host scope req ds rng"
  "analyse_devices host scope (req\<lparr>rq_cursor := c\<rparr>) rng sel = analyse_devices host scope req rng sel"
  "selected_series (req\<lparr>rq_cursor := c\<rparr>) sel = selected_series req sel"
  "page_limit (req\<lparr>rq_cursor := c\<rparr>) = page_limit req"
proof -
  have wants: "wants_device (req\<lparr>rq_cursor := c\<rparr>) = wants_device req"
    by (simp add: fun_eq_iff wants_device_def)
  have metrics: "requested_metrics (req\<lparr>rq_cursor := c\<rparr>) ds = requested_metrics req ds" for ds
    by (simp add: requested_metrics_def split: option.split list.split)
  have devices: "device_analysis_of host scope (req\<lparr>rq_cursor := c\<rparr>) ds rng r d
      = device_analysis_of host scope req ds rng r d" for ds r d
    by (simp add: device_analysis_of_def metrics)
  show "query_range h scope (req\<lparr>rq_cursor := c\<rparr>) ds = query_range h scope req ds"
    by (simp add: query_range_def split: option.split)
  show "selected_evidence host scope (req\<lparr>rq_cursor := c\<rparr>) ds rng = selected_evidence host scope req ds rng"
    by (simp add: selected_evidence_def wants)
  show "analyse_devices host scope (req\<lparr>rq_cursor := c\<rparr>) rng sel = analyse_devices host scope req rng sel"
    by (simp add: analyse_devices_def device_ids_def wants devices Let_def)
  show "selected_series (req\<lparr>rq_cursor := c\<rparr>) sel = selected_series req sel"
    by (simp add: selected_series_def)
  show "page_limit (req\<lparr>rq_cursor := c\<rparr>) = page_limit req"
    by (simp add: page_limit_def)
qed

lemma cursor_ok_not_empty: "cursor_ok host c \<Longrightarrow> c \<noteq> []"
  by (auto simp: cursor_ok_def)

definition acceptable :: "runtime \<Rightarrow> jstr option \<Rightarrow> bool" where
  "acceptable h cur = (case cur of None \<Rightarrow> True | Some c \<Rightarrow> cursor_ok (rt_parse h) c)"

lemma acceptable_given: "acceptable h cur \<Longrightarrow> given_cursor (req\<lparr>rq_cursor := cur\<rparr>) = cur"
  using cursor_ok_not_empty by (auto simp: acceptable_def given_cursor_def split: option.splits)

text \<open>When one page is answered, every page is, with the rows behind its cursor.\<close>

definition series_of :: "runtime \<Rightarrow> query_scope \<Rightarrow> query_request \<Rightarrow> query_dataset \<Rightarrow> series_row list" where
  "series_of h scope req ds =
     (case query_range h scope req ds of
        Inr rng \<Rightarrow> selected_series req (selected_evidence (rt_parse h) scope req ds rng)
      | Inl _ \<Rightarrow> [])"

lemma query_answer_Inr:
  assumes "query_answer h scope req ds rng sel devices = Inr r"
  shows "qr_devices r = devices" "time_in_range (fst rng)" "time_in_range (snd rng)"
proof -
  obtain series page where p: "page_of (page_limit req) (after_cursor (given_cursor req)
      (sorted_series h (selected_series req sel))) = (series, page)" by force
  from assms show "qr_devices r = devices" "time_in_range (fst rng)" "time_in_range (snd rng)"
    by (auto simp: query_answer_def p and_then_Inr_iff to_iso_def split: if_splits)
qed

lemma query_parts:
  assumes "queryDeviceHealthEvidence h scope req ds = Inr r"
  obtains rng where "query_range h scope req ds = Inr rng" "time_in_range (fst rng)" "time_in_range (snd rng)"
    "analyse_devices (rt_parse h) scope req rng (selected_evidence (rt_parse h) scope req ds rng) = Inr (qr_devices r)"
  using assms query_answer_Inr
  by (auto simp: queryDeviceHealthEvidence_def Let_def and_then_Inr_iff)

lemma ask_page_Inr:
  assumes "ask_page h scope req ds cur = Inr r" "acceptable h cur'"
  obtains r' where "ask_page h scope req ds cur' = Inr r'"
    "(qr_series r', qr_page r') = page_of (page_limit req) (after_cursor cur' (sorted_series h (series_of h scope req ds)))"
proof -
  from query_parts [OF assms(1) [unfolded ask_page_def], unfolded cursor_irrelevant]
  obtain rng where rng: "query_range h scope req ds = Inr rng" "time_in_range (fst rng)" "time_in_range (snd rng)"
    and devices: "analyse_devices (rt_parse h) scope req rng (selected_evidence (rt_parse h) scope req ds rng)
      = Inr (qr_devices r)" .
  have g: "given_cursor (req\<lparr>rq_cursor := cur'\<rparr>) = cur'" by (rule acceptable_given [OF assms(2)])
  have ok: "\<not> (case cur' of Some c \<Rightarrow> \<not> cursor_ok (rt_parse h) c | None \<Rightarrow> False)"
    using assms(2) by (simp add: acceptable_def split: option.splits)
  have s: "series_of h scope req ds = selected_series req (selected_evidence (rt_parse h) scope req ds rng)"
    by (simp add: series_of_def rng)
  obtain series page where p: "page_of (page_limit req)
      (after_cursor cur' (sorted_series h (series_of h scope req ds))) = (series, page)" by force
  obtain i j where ij: "to_iso (Some (fst rng)) = Inr i" "to_iso (Some (snd rng)) = Inr j"
    using rng(2,3) by (simp add: to_iso_def)
  have "\<exists>r'. ask_page h scope req ds cur' = Inr r' \<and> (qr_series r', qr_page r') = (series, page)"
    using ok p by (simp add: ask_page_def queryDeviceHealthEvidence_def query_answer_def rng(1) devices g ij s)
  with that p show ?thesis by metis
qed

lemma page_limit_nat:
  assumes "query_range h scope req ds = Inr rng"
  obtains n where "1 \<le> n" "page_limit req = Fin (of_nat n)"
proof -
  from assms have ok: "limit_ok (rq_limit req)"
    by (auto simp: query_range_def split: option.splits if_splits)
  show thesis
  proof (cases "rq_limit req")
    case None
    then have "page_limit req = Fin (of_nat 500)"
      by (simp add: page_limit_def jmax_def jmin_def jfloor_def)
    with that [of 500] show ?thesis by simp
  next
    case (Some l)
    with ok obtain q where l: "l = Fin q" "of_int \<lfloor>q\<rfloor> = q" "1 \<le> q" "q \<le> 1000"
      by (auto simp: limit_ok_def is_safe_integer_def split: jnum.splits)
    define n where "n = nat \<lfloor>q\<rfloor>"
    have q: "q = of_nat n" "1 \<le> n" using l(2,3) unfolding n_def by linarith+
    have "page_limit req = Fin (of_nat n)"
      using l(3,4) Some by (simp add: page_limit_def l(1) q(1) jmax_def jmin_def jfloor_def)
    with that q(2) show ?thesis by blast
  qed
qed

lemma page_of_last:
  assumes "limit = Fin (of_nat n)" "length rows \<le> n"
  shows "page_of limit rows = (rows, \<lparr>pg_limit = limit, pg_nextCursor = None, pg_hasMore = False\<rparr>)"
  using assms by (simp add: page_of_def count_num_def slice_to_def slice_index_def truncate_rat_def Let_def)

lemma page_of_more:
  assumes "limit = Fin (of_nat n)" "n < length rows"
  shows "page_of limit rows = (take n rows, \<lparr>pg_limit = limit,
    pg_nextCursor = Some (seriesCursor (last (take n rows))), pg_hasMore = True\<rparr>)"
  using assms by (simp add: page_of_def count_num_def slice_to_def slice_index_def truncate_rat_def Let_def min_def)

text \<open>From any row of the sorted series on, the pages behind its cursor end and show the rest.\<close>

lemma pages_rest:
  assumes "ask_page h scope req ds None = Inr r0" "pageable h (series_of h scope req ds)"
    and "sorted_series h (series_of h scope req ds) = xs @ ys"
    and "cur = None \<and> xs = [] \<or> (\<exists>zs z. xs = zs @ [z] \<and> cur = Some (seriesCursor z))"
  shows "pages (ask_page h scope req ds) cur ys"
  using assms(3,4)
proof (induction "length ys" arbitrary: xs ys cur rule: less_induct)
  case less
  let ?rows = "sorted_series h (series_of h scope req ds)"
  note sorted = sorted_series_sorted [OF assms(2)]
  have ok: "cursor_ok (rt_parse h) (seriesCursor x)" if "x \<in> set ?rows" for x
    using assms(2) that by (simp add: pageable_def list_all_iff)
  have acc: "acceptable h cur" using less.prems ok by (auto simp: acceptable_def)
  have rest: "after_cursor cur ?rows = ys"
    using less.prems sorted after_cursor_append by (auto simp: after_cursor_def)
  obtain r where r: "ask_page h scope req ds cur = Inr r" "(qr_series r, qr_page r) = page_of (page_limit req) ys"
    using ask_page_Inr [OF assms(1) acc] rest by metis
  from query_parts [OF assms(1) [unfolded ask_page_def], unfolded cursor_irrelevant]
  obtain rng where "query_range h scope req ds = Inr rng" .
  then obtain n where n: "1 \<le> n" "page_limit req = Fin (of_nat n)" by (rule page_limit_nat)
  show ?case
  proof (cases "length ys \<le> n")
    case True
    with r(2) have "qr_series r = ys" "pg_nextCursor (qr_page r) = None"
      by (simp_all add: page_of_last [OF n(2)])
    with final_page [where ask = "ask_page h scope req ds", OF r(1)] show ?thesis by simp
  next
    case False
    let ?as = "take n ys" and ?bs = "drop n ys"
    from False n(1) have ne: "?as \<noteq> []" and shorter: "length ?bs < length ys" by auto
    from False r(2) have page: "qr_series r = ?as" "pg_nextCursor (qr_page r) = Some (seriesCursor (last ?as))"
      by (simp_all add: page_of_more [OF n(2)])
    have "pages (ask_page h scope req ds) (Some (seriesCursor (last ?as))) ?bs"
    proof (rule less.hyps [OF shorter])
      show "?rows = (xs @ ?as) @ ?bs" using less.prems(1) by simp
      have "xs @ ?as = (xs @ butlast ?as) @ [last ?as]"
        using append_butlast_last_id [OF ne] by (simp only: append_assoc)
      then show "Some (seriesCursor (last ?as)) = None \<and> xs @ ?as = []
          \<or> (\<exists>zs z. xs @ ?as = zs @ [z] \<and> Some (seriesCursor (last ?as)) = Some (seriesCursor z))"
        by blast
    qed
    from further_page [where ask = "ask_page h scope req ds", OF r(1) page(2) this] page(1) show ?thesis
      by (simp only: append_take_drop_id)
  qed
qed

text \<open>
  C34. When the first page of a query is answered, and every selected row has an acceptable cursor, no two the
  same, which the locale orders as their code units, then following the cursors ends and has shown every
  selected row exactly once, in cursor order.
\<close>

theorem paging_reaches_every_row:
  assumes "ask_page h scope req ds None = Inr r" "pageable h (series_of h scope req ds)"
  shows "\<exists>rows. pages (ask_page h scope req ds) None rows \<and> mset rows = mset (series_of h scope req ds)
    \<and> sorted_wrt before_row rows"
  using pages_rest [OF assms, of "[]" _ None] sorted_series_sorted [OF assms(2)] by (metis append_Nil sorted_series_mset)

subsection \<open>An example, and a locale that loses rows\<close>

text \<open>Two devices fail at the same instant; a page holds one row.\<close>

definition demo_failure :: "string \<Rightarrow> failure_evidence" where
  "demo_failure d = \<lparr>hf_tenantId = js ''t'', hf_siteId = js ''s'', hf_id = js ''f'', hf_deviceId = js d,
     hf_physicalDeviceId = js ''p'', hf_attemptedAt = js ''2025-06-01T10:00:00.000Z'', hf_reason = js ''r'',
     hf_source = js ''h'', hf_requestDurationMs = None\<rparr>"

definition demo_query_scope :: query_scope where
  "demo_query_scope = \<lparr>sc_tenantId = js ''t'', sc_siteId = js ''s''\<rparr>"

definition demo_query_request :: query_request where
  "demo_query_request = \<lparr>rq_from = js ''2025-06-01T10:00:00.000Z'', rq_to = js ''2025-06-01T11:00:00.000Z'',
     rq_granularity = js ''failures'', rq_timezone = None, rq_deviceId = None, rq_metrics = None,
     rq_limit = Some (Fin 1), rq_cursor = None\<rparr>"

definition demo_dataset :: query_dataset where
  "demo_dataset = \<lparr>ds_observations = [], ds_buckets = [], ds_events = [],
     ds_failures = [demo_failure ''esp-10'', demo_failure ''esp-1''], ds_expectedIntervalMs = Fin 60000,
     ds_supportedMetrics = [], ds_authorizedDevices = []\<rparr>"

definition demo_cursor :: "string \<Rightarrow> jstr" where
  "demo_cursor d = js ''2025-06-01T10:00:00.000Z|'' @ js d @ js ''|f''"

lemma demo_offset_dates:
  "date_parse host (js ''2025-06-01T10:00:00.000Z'') = Some 1748772000000"
  "date_parse host (js ''2025-06-01T11:00:00.000Z'') = Some 1748775600000"
  "validOffsetDate host (js ''2025-06-01T10:00:00.000Z'')" "validOffsetDate host (js ''2025-06-01T11:00:00.000Z'')"
proof -
  have p: "parse_iso (js ''2025-06-01T10:00:00.000Z'') = Some 1748772000000"
    "parse_iso (js ''2025-06-01T11:00:00.000Z'') = Some 1748775600000" by code_simp+
  then show d: "date_parse host (js ''2025-06-01T10:00:00.000Z'') = Some 1748772000000"
    "date_parse host (js ''2025-06-01T11:00:00.000Z'') = Some 1748775600000" by (simp_all add: date_parse_def)
  have s: "list_all2 template_match iso_template (take 19 (js ''2025-06-01T10:00:00.000Z''))
      \<and> zone_part (drop 19 (js ''2025-06-01T10:00:00.000Z''))"
    "list_all2 template_match iso_template (take 19 (js ''2025-06-01T11:00:00.000Z''))
      \<and> zone_part (drop 19 (js ''2025-06-01T11:00:00.000Z''))" by code_simp+
  from d s show "validOffsetDate host (js ''2025-06-01T10:00:00.000Z'')" "validOffsetDate host (js ''2025-06-01T11:00:00.000Z'')"
    by (simp_all add: validOffsetDate_def)
qed

lemma demo_query_range:
  "rt_zone h (js ''UTC'') \<Longrightarrow>
    query_range h demo_query_scope demo_query_request demo_dataset = Inr (1748772000000, 1748775600000)"
proof -
  have "js_trim (js ''t'') = js ''t''" "js_trim (js ''s'') = js ''s''" by code_simp+
  moreover assume "rt_zone h (js ''UTC'')"
  ultimately show ?thesis
    by (simp add: query_range_def demo_query_scope_def demo_query_request_def demo_dataset_def demo_offset_dates
        or_string_def granularity_names_def is_safe_integer_def limit_ok_def device_id_ok_def metrics_ok_def)
qed

lemma demo_series_of:
  assumes "rt_zone h (js ''UTC'')"
  shows "series_of h demo_query_scope demo_query_request demo_dataset
    = [Failure_row (demo_failure ''esp-10''), Failure_row (demo_failure ''esp-1'')]"
  by (simp add: series_of_def demo_query_range [OF assms] selected_evidence_def)
    (simp add: selected_series_def demo_query_request_def demo_dataset_def demo_query_scope_def demo_failure_def demo_offset_dates
      scopeMatches_def wants_device_def inRange_def)

lemma demo_row_cursor: "seriesCursor (Failure_row (demo_failure d)) = demo_cursor d"
  by (simp add: seriesCursor_def demo_failure_def demo_cursor_def js_append [symmetric])

lemma demo_cursors:
  "cursor_ok host (demo_cursor ''esp-10'')" "cursor_ok host (demo_cursor ''esp-1'')"
  "str_less (demo_cursor ''esp-10'') (demo_cursor ''esp-1'')"
proof -
  have s: "split_bar (demo_cursor ''esp-10'') = [js ''2025-06-01T10:00:00.000Z'', js ''esp-10'', js ''f'']"
    "split_bar (demo_cursor ''esp-1'') = [js ''2025-06-01T10:00:00.000Z'', js ''esp-1'', js ''f'']"
    "cursor_time_shape (js ''2025-06-01T10:00:00.000Z'')" by code_simp+
  then show "cursor_ok host (demo_cursor ''esp-10'')" "cursor_ok host (demo_cursor ''esp-1'')"
    by (simp_all add: cursor_ok_def demo_offset_dates) (simp_all add: js_def)
  show "str_less (demo_cursor ''esp-10'') (demo_cursor ''esp-1'')" by code_simp
qed

lemma demo_first_page:
  assumes "rt_zone h (js ''UTC'')"
  shows "\<exists>r. ask_page h demo_query_scope demo_query_request demo_dataset None = Inr r"
proof -
  have sel: "selected_evidence (rt_parse h) demo_query_scope demo_query_request demo_dataset (1748772000000, 1748775600000)
      = demo_dataset"
    by (simp add: selected_evidence_def demo_query_request_def demo_dataset_def demo_query_scope_def demo_failure_def demo_offset_dates
        scopeMatches_def wants_device_def inRange_def)
  have ids: "bounded_evidence (device_ids demo_query_scope demo_query_request demo_dataset) demo_dataset"
    by (simp add: bounded_evidence_def device_ids_def demo_dataset_def set_of_list_def set_add_def demo_failure_def)
  have one: "\<exists>a. device_analysis_of (rt_parse h) demo_query_scope demo_query_request demo_dataset rng r d = Inr a" for rng r d
    by (simp add: device_analysis_of_def Let_def requested_metrics_def demo_query_request_def demo_dataset_def)
  have every: "\<exists>as. map_result (\<lambda>d. device_analysis_of (rt_parse h) demo_query_scope demo_query_request demo_dataset rng (r d) d) ds
      = Inr as" for rng r ds
  proof (induction ds)
    case (Cons d ds)
    with one [of rng "r d" d] show ?case by auto
  qed simp
  have "\<exists>devices. analyse_devices (rt_parse h) demo_query_scope demo_query_request
      (1748772000000, 1748775600000) demo_dataset = Inr devices"
    using ids every by (simp add: analyse_devices_def Let_def)
  then obtain devices where "analyse_devices (rt_parse h) demo_query_scope demo_query_request
      (1748772000000, 1748775600000) demo_dataset = Inr devices" by blast
  moreover have "to_iso (Some 1748772000000) = Inr (js ''2025-06-01T10:00:00.000Z'')"
    "to_iso (Some 1748775600000) = Inr (js ''2025-06-01T11:00:00.000Z'')" by (rule demo_isos)+
  moreover have "given_cursor (demo_query_request\<lparr>rq_cursor := None\<rparr>) = None" by (simp add: given_cursor_def)
  ultimately show ?thesis
    by (simp add: ask_page_def queryDeviceHealthEvidence_def query_answer_def demo_query_range [OF assms] sel
        split: prod.split)
qed

text \<open>
  C35. Rows are sorted by locale but cut off at the cursor by code units.  A locale that puts the cursor of
  device \<open>esp-1\<close> before that of \<open>esp-10\<close>, as the Unicode collation does (a bar sorts before a digit), makes the
  pages lose a row: following the cursors ends without the row of \<open>esp-10\<close>.
\<close>

theorem paging_can_lose_rows:
  assumes "rt_zone h (js ''UTC'')"
    and "rt_after h (demo_cursor ''esp-10'') (demo_cursor ''esp-1'')"
    and "\<not> rt_after h (demo_cursor ''esp-1'') (demo_cursor ''esp-10'')"
  shows "pages (ask_page h demo_query_scope demo_query_request demo_dataset) None [Failure_row (demo_failure ''esp-1'')]
    \<and> Failure_row (demo_failure ''esp-10'') \<in> set (series_of h demo_query_scope demo_query_request demo_dataset)"
proof -
  let ?ask = "ask_page h demo_query_scope demo_query_request demo_dataset"
  note series = demo_series_of [OF assms(1)]
  have sorted: "sorted_series h (series_of h demo_query_scope demo_query_request demo_dataset)
      = [Failure_row (demo_failure ''esp-1''), Failure_row (demo_failure ''esp-10'')]"
    using assms(2,3) by (simp add: sorted_series_def series js_sort_simps demo_row_cursor)
  have limit: "page_limit demo_query_request = Fin (of_nat 1)"
    by (simp add: page_limit_def demo_query_request_def jmax_def jmin_def jfloor_def)
  from demo_first_page [OF assms(1)] obtain r0 where r0: "?ask None = Inr r0" by blast
  obtain r1 where r1: "?ask None = Inr r1" "qr_series r1 = [Failure_row (demo_failure ''esp-1'')]"
      "pg_nextCursor (qr_page r1) = Some (demo_cursor ''esp-1'')"
    by (rule ask_page_Inr [OF r0, of None])
      (simp_all add: acceptable_def sorted after_cursor_def page_of_more [OF limit] demo_row_cursor)
  have behind: "\<not> str_less (demo_cursor ''esp-1'') (demo_cursor ''esp-10'')"
    using str_less_trans [OF demo_cursors(3)] str_less_irrefl by metis
  obtain r2 where r2: "?ask (Some (demo_cursor ''esp-1'')) = Inr r2" "qr_series r2 = []"
      "pg_nextCursor (qr_page r2) = None"
    by (rule ask_page_Inr [OF r0, of "Some (demo_cursor ''esp-1'')"])
      (simp_all add: acceptable_def demo_cursors(1,2) sorted after_cursor_def demo_row_cursor behind
        page_of_last [OF limit])
  from further_page [where ask = ?ask, OF r1(1,3) final_page [where ask = ?ask, OF r2(1,3)]]
  show ?thesis by (simp add: r1(2) r2(2) series)
qed

definition code_unit_runtime :: runtime where
  "code_unit_runtime = \<lparr>rt_parse = \<lambda>_. None, rt_zone = \<lambda>_. True, rt_after = \<lambda>a b. str_less b a\<rparr>"

theorem paging_reaches_every_row_witness:
  "\<exists>rows. pages (ask_page code_unit_runtime demo_query_scope demo_query_request demo_dataset) None rows
    \<and> mset rows = mset [Failure_row (demo_failure ''esp-10''), Failure_row (demo_failure ''esp-1'')]
    \<and> sorted_wrt before_row rows"
proof -
  have zone: "rt_zone code_unit_runtime (js ''UTC'')" by (simp add: code_unit_runtime_def)
  obtain r where "ask_page code_unit_runtime demo_query_scope demo_query_request demo_dataset None = Inr r"
    using demo_first_page [OF zone] by blast
  moreover have "demo_cursor ''esp-10'' \<noteq> demo_cursor ''esp-1''" using demo_cursors(3) by auto
  then have "pageable code_unit_runtime (series_of code_unit_runtime demo_query_scope demo_query_request demo_dataset)"
    by (simp add: pageable_def demo_series_of [OF zone] demo_row_cursor demo_cursors(1,2) before_row_def)
      (simp add: code_unit_runtime_def)
  ultimately show ?thesis
    using paging_reaches_every_row [of code_unit_runtime demo_query_scope demo_query_request demo_dataset]
    by (simp only: demo_series_of [OF zone])
qed

text \<open>A locale that sorts the bar before every other character.\<close>

definition bar_first :: "jstr \<Rightarrow> jstr" where
  "bar_first s = map (\<lambda>c. if c = 124 then 0 else c) s"

definition bar_first_runtime :: runtime where
  "bar_first_runtime =
     \<lparr>rt_parse = \<lambda>_. None, rt_zone = \<lambda>_. True, rt_after = \<lambda>a b. str_less (bar_first b) (bar_first a)\<rparr>"

theorem paging_can_lose_rows_witness:
  "pages (ask_page bar_first_runtime demo_query_scope demo_query_request demo_dataset) None [Failure_row (demo_failure ''esp-1'')]
    \<and> Failure_row (demo_failure ''esp-10'') \<in> set (series_of bar_first_runtime demo_query_scope demo_query_request demo_dataset)"
proof (rule paging_can_lose_rows)
  have "str_less (bar_first (demo_cursor ''esp-1'')) (bar_first (demo_cursor ''esp-10''))"
    "\<not> str_less (bar_first (demo_cursor ''esp-10'')) (bar_first (demo_cursor ''esp-1''))" by code_simp+
  then show "rt_after bar_first_runtime (demo_cursor ''esp-10'') (demo_cursor ''esp-1'')"
    "\<not> rt_after bar_first_runtime (demo_cursor ''esp-1'') (demo_cursor ''esp-10'')"
    by (simp_all add: bar_first_runtime_def)
qed (simp add: bar_first_runtime_def)

subsection \<open>What the statistics of a gauge say\<close>

definition as_summary :: "metric_statistics \<Rightarrow> metric_summary" where
  "as_summary s =
     \<lparr>ms_minimum = st_minimum s, ms_maximum = st_maximum s, ms_sum = st_sum s, ms_sampleCount = st_count s,
      ms_missingSampleCount = st_missingCount s, ms_firstValue = fst (st_first s), ms_firstObservedAt = snd (st_first s),
      ms_lastValue = fst (st_latest s), ms_lastObservedAt = snd (st_latest s), ms_unit = st_unit s, ms_source = st_source s\<rparr>"

definition value_event :: "jstr \<Rightarrow> health_observation \<Rightarrow> metric_observation \<Rightarrow> sample list" where
  "value_event n ob m =
     (if mo_name m = n then (case sampled m of Some v \<Rightarrow> [(ho_observedAt ob, v)] | None \<Rightarrow> []) else [])"

definition value_samples :: "jstr \<Rightarrow> health_observation list \<Rightarrow> sample list" where
  "value_samples n = samples_of (value_event n)"

lemma value_samples_rows: "value_samples n obs = map (\<lambda>r. (vr_at r, vr_value r)) (valid_rows n obs)"
proof (induction obs)
  case (Cons ob obs)
  have "concat (map (value_event n ob) ms) = map (\<lambda>r. (vr_at r, vr_value r)) (List.map_filter
      (\<lambda>m. if mo_name m = n
        then map_option (\<lambda>v. \<lparr>vr_value = v, vr_at = ho_observedAt ob, vr_unit = mo_unit m, vr_source = mo_source m\<rparr>)
               (sampled m)
        else None) ms)" for ms
    by (induction ms) (simp_all add: value_event_def List.map_filter_simps split: option.split)
  with Cons.IH show ?case
    by (simp add: value_samples_def samples_of_Cons valid_rows_def)
qed (simp add: value_samples_def valid_rows_def)

text \<open>
  A fold that keeps the better of two elements ends in an element that is at least as good as all.
\<close>

lemma fold_best:
  assumes best: "\<And>x y. P x \<Longrightarrow> P y \<Longrightarrow> f x y \<in> {x, y} \<and> R (f x y) x \<and> R (f x y) y"
    and trans: "\<And>x y z. R x y \<Longrightarrow> R y z \<Longrightarrow> R x z"
  shows "P a \<Longrightarrow> list_all P xs \<Longrightarrow> fold f xs a \<in> insert a (set xs) \<and> (\<forall>x\<in>insert a (set xs). R (fold f xs a) x)"
proof (induction xs arbitrary: a)
  case Nil
  then show ?case using best [of a a] by auto
next
  case (Cons x xs)
  then have m: "f x a \<in> {a, x}" "R (f x a) a" "R (f x a) x" "P (f x a)"
    using best [of x a] by auto
  from Cons.IH [OF m(4)] Cons.prems(2) m(1-3) show ?case by (auto intro: trans)
qed

lemma fold_best_list:
  assumes "\<And>x y. P x \<Longrightarrow> P y \<Longrightarrow> f x y \<in> {x, y} \<and> R (f x y) x \<and> R (f x y) y"
    and "\<And>x y z. R x y \<Longrightarrow> R y z \<Longrightarrow> R x z" and "xs \<noteq> []" "list_all P xs"
  shows "fold f (tl xs) (hd xs) \<in> set xs \<and> (\<forall>x\<in>set xs. R (fold f (tl xs) (hd xs)) x)"
proof -
  obtain x ys where xs: "xs = x # ys" using assms(3) by (cases xs) auto
  with assms(4) have "P x" "list_all P ys" by simp_all
  from fold_best [where f = f and R = R, OF assms(1,2) this] show ?thesis by (simp add: xs)
qed

lemma num_least_of:
  assumes "vs \<noteq> []" "list_all is_finite vs"
  shows "num_least vs \<in> set vs \<and> (\<forall>v\<in>set vs. jle (num_least vs) v)"
proof -
  have "fold (\<lambda>v t. jmin t v) (tl vs) (hd vs) \<in> set vs \<and> (\<forall>v\<in>set vs. jle (fold (\<lambda>v t. jmin t v) (tl vs) (hd vs)) v)"
    by (rule fold_best_list [where P = is_finite, OF _ jle_trans_known])
      (use assms in \<open>auto simp: jmin_def jnum_finite jle_def jeq_def\<close>)
  moreover have "num_least vs = fold (\<lambda>v t. jmin t v) (tl vs) (hd vs)"
    using assms by (cases vs) (auto simp: num_least_def jmin_def jnum_finite)
  ultimately show ?thesis by simp
qed

lemma num_greatest_of:
  assumes "vs \<noteq> []" "list_all is_finite vs"
  shows "num_greatest vs \<in> set vs \<and> (\<forall>v\<in>set vs. jle v (num_greatest vs))"
proof -
  have "fold (\<lambda>v t. jmax t v) (tl vs) (hd vs) \<in> set vs \<and> (\<forall>v\<in>set vs. jle v (fold (\<lambda>v t. jmax t v) (tl vs) (hd vs)))"
    by (rule fold_best_list [where P = is_finite and R = "\<lambda>x y. jle y x", OF _ jle_trans_known [rotated]])
      (use assms in \<open>auto simp: jmax_def jnum_finite jle_def jeq_def\<close>)
  moreover have "num_greatest vs = fold (\<lambda>v t. jmax t v) (tl vs) (hd vs)"
    using assms by (cases vs) (auto simp: num_greatest_def jmax_def jnum_finite)
  ultimately show ?thesis by simp
qed

lemma num_total_counts:
  assumes "list_all2 (\<lambda>v n. v = Fin (of_nat n)) vs ns" "sum_list ns < 2 ^ 53"
  shows "num_total vs = Fin (of_nat (sum_list ns))"
proof -
  have "list_all2 (\<lambda>v n. v = Fin (of_nat n)) vs ns \<Longrightarrow> k + sum_list ns < 2 ^ 53
      \<Longrightarrow> fold (\<lambda>v t. jadd t v) vs (Fin (of_nat k)) = Fin (of_nat (k + sum_list ns))" for k
  proof (induction vs ns arbitrary: k rule: list_all2_induct)
    case (Cons v vs n ns)
    have "jadd (Fin (of_nat k)) (Fin (of_nat n)) = Fin (of_nat (k + n))"
      using jadd_int [of "int k" "int n"] Cons.prems by (simp add: safe_int_def)
    with Cons.IH [of "k + n"] Cons.prems Cons.hyps(1) show ?case by (simp add: add.assoc)
  qed simp
  from this [of 0] assms show ?thesis by (simp add: num_total_def)
qed

lemma oldest_summary_of:
  assumes "xs \<noteq> []" "list_all (\<lambda>x. is_finite (tm host (ms_firstObservedAt x))) xs"
  shows "oldest_summary host xs \<in> set xs
    \<and> (\<forall>x\<in>set xs. jle (tm host (ms_firstObservedAt (oldest_summary host xs))) (tm host (ms_firstObservedAt x)))"
  unfolding oldest_summary_def
  by (rule fold_best_list [where P = "\<lambda>x. is_finite (tm host (ms_firstObservedAt x))"
        and R = "\<lambda>x y. jle (tm host (ms_firstObservedAt x)) (tm host (ms_firstObservedAt y))", OF _ jle_trans_known])
    (use assms in \<open>auto simp: jnum_finite jle_def jeq_def\<close>)

lemma newest_summary_of:
  assumes "xs \<noteq> []" "list_all (\<lambda>x. is_finite (tm host (ms_lastObservedAt x))) xs"
  shows "newest_summary host xs \<in> set xs
    \<and> (\<forall>x\<in>set xs. jle (tm host (ms_lastObservedAt x)) (tm host (ms_lastObservedAt (newest_summary host xs))))"
  unfolding newest_summary_def
  by (rule fold_best_list [where P = "\<lambda>x. is_finite (tm host (ms_lastObservedAt x))"
        and R = "\<lambda>x y. jle (tm host (ms_lastObservedAt y)) (tm host (ms_lastObservedAt x))",
        OF _ jle_trans_known [rotated]])
    (use assms in \<open>auto simp: jnum_finite jle_def jeq_def\<close>)

text \<open>
  A summary built from those of several lists of samples (the least minimum, the greatest maximum, the oldest
  first and the newest last sample, the sum of the counts) describes all the samples.
\<close>

definition joins :: "(jstr \<Rightarrow> int option) \<Rightarrow> metric_summary list \<Rightarrow> metric_summary \<Rightarrow> bool" where
  "joins host xs z \<longleftrightarrow>
     ms_minimum z = num_least (map ms_minimum xs) \<and> ms_maximum z = num_greatest (map ms_maximum xs)
     \<and> (ms_firstObservedAt z, ms_firstValue z) = (ms_firstObservedAt (oldest_summary host xs), ms_firstValue (oldest_summary host xs))
     \<and> (ms_lastObservedAt z, ms_lastValue z) = (ms_lastObservedAt (newest_summary host xs), ms_lastValue (newest_summary host xs))
     \<and> ms_sampleCount z = num_total (map ms_sampleCount xs)"

lemma list_all2_witness: "list_all2 P xs ys \<Longrightarrow> x \<in> set xs \<Longrightarrow> \<exists>y\<in>set ys. P x y"
  by (induction rule: list_all2_induct) auto

lemma list_all2_witness': "list_all2 P xs ys \<Longrightarrow> y \<in> set ys \<Longrightarrow> \<exists>x\<in>set xs. P x y"
  by (induction rule: list_all2_induct) auto

lemma describes_joined:
  assumes each: "list_all2 (\<lambda>x ys. describes host ys x) xs yss" and ok: "list_all (list_all (usable host)) yss"
    and ne: "xs \<noteq> []" and few: "length (concat yss) < 2 ^ 53" and z: "joins host xs z"
  shows "describes host (concat yss) z"
proof -
  have fin: "is_finite (ms_minimum x)" "is_finite (ms_maximum x)" "is_finite (tm host (ms_firstObservedAt x))"
    "is_finite (tm host (ms_lastObservedAt x))" if "x \<in> set xs" for x
    using list_all2_witness [OF each that] describes_finite ok by (auto simp: list_all_iff [of _ yss])
  have least: "num_least (map ms_minimum xs) \<in> set (map ms_minimum xs)
      \<and> (\<forall>v\<in>set (map ms_minimum xs). jle (num_least (map ms_minimum xs)) v)"
    by (rule num_least_of) (use ne fin(1) in \<open>auto simp: list_all_iff\<close>)
  have greatest: "num_greatest (map ms_maximum xs) \<in> set (map ms_maximum xs)
      \<and> (\<forall>v\<in>set (map ms_maximum xs). jle v (num_greatest (map ms_maximum xs)))"
    by (rule num_greatest_of) (use ne fin(2) in \<open>auto simp: list_all_iff\<close>)
  have old: "oldest_summary host xs \<in> set xs
      \<and> (\<forall>x\<in>set xs. jle (tm host (ms_firstObservedAt (oldest_summary host xs))) (tm host (ms_firstObservedAt x)))"
    by (rule oldest_summary_of) (use ne fin(3) in \<open>auto simp: list_all_iff\<close>)
  have new: "newest_summary host xs \<in> set xs
      \<and> (\<forall>x\<in>set xs. jle (tm host (ms_lastObservedAt x)) (tm host (ms_lastObservedAt (newest_summary host xs))))"
    by (rule newest_summary_of) (use ne fin(4) in \<open>auto simp: list_all_iff\<close>)
  have some: "x \<in> set xs \<Longrightarrow> \<exists>ys\<in>set yss. describes host ys x" for x
    using list_all2_witness [OF each] by blast
  have bound: "s \<in> set (concat yss) \<Longrightarrow> \<exists>x\<in>set xs. jle (ms_minimum x) (snd s) \<and> jle (snd s) (ms_maximum x)
      \<and> jle (tm host (ms_firstObservedAt x)) (tm host (fst s)) \<and> jle (tm host (fst s)) (tm host (ms_lastObservedAt x))" for s
    using list_all2_witness' [OF each] by (fastforce simp: describes_def list_all_iff)
  have counts: "num_total (map ms_sampleCount xs) = Fin (of_nat (sum_list (map length yss)))"
  proof (rule num_total_counts)
    show "list_all2 (\<lambda>v n. v = Fin (of_nat n)) (map ms_sampleCount xs) (map length yss)"
      using each by (simp add: list.rel_map describes_def list_all2_mono)
  qed (use few in \<open>simp add: length_concat\<close>)
  show ?thesis
    unfolding describes_def list_all_iff
  proof (intro conjI ballI)
    show "ms_minimum z \<in> snd ` set (concat yss)" "ms_maximum z \<in> snd ` set (concat yss)"
      using least greatest some z by (fastforce simp: joins_def describes_def)+
    show "(ms_firstObservedAt z, ms_firstValue z) \<in> set (concat yss)" "(ms_lastObservedAt z, ms_lastValue z) \<in> set (concat yss)"
      using old new some z by (fastforce simp: joins_def describes_def)+
    show "ms_sampleCount z = Fin (of_nat (length (concat yss)))"
      using z counts by (simp add: joins_def length_concat)
    fix s assume "s \<in> set (concat yss)"
    from bound [OF this] obtain x where x: "x \<in> set xs" "jle (ms_minimum x) (snd s)" "jle (snd s) (ms_maximum x)"
      "jle (tm host (ms_firstObservedAt x)) (tm host (fst s))" "jle (tm host (fst s)) (tm host (ms_lastObservedAt x))"
      by blast
    show "jle (ms_minimum z) (snd s)" "jle (snd s) (ms_maximum z)"
      using least greatest x z jle_trans_known by (auto simp: joins_def)
    show "jle (tm host (ms_firstObservedAt z)) (tm host (fst s))" "jle (tm host (fst s)) (tm host (ms_lastObservedAt z))"
      using old new x z jle_trans_known by (auto simp: joins_def)
  qed
qed

lemma describes_mset: "describes host xs x \<Longrightarrow> mset xs = mset ys \<Longrightarrow> describes host ys x"
  using mset_eq_setD [of xs ys] mset_eq_length [of xs ys] by (simp add: describes_def list_all_iff)

definition clocked :: "(jstr \<Rightarrow> int option) \<Rightarrow> jstr \<Rightarrow> bool" where
  "clocked host t = (case date_parse host t of Some v \<Rightarrow> time_in_range v | None \<Rightarrow> False)"

definition instant :: "(jstr \<Rightarrow> int option) \<Rightarrow> jstr \<Rightarrow> int" where
  "instant host t = (case date_parse host t of Some v \<Rightarrow> v | None \<Rightarrow> 0)"

lemma clocked_tm: "clocked host t \<Longrightarrow> tm host t = Fin (of_int (instant host t)) \<and> time_in_range (instant host t)"
  by (simp add: clocked_def instant_def tm_def time_num_def split: option.splits)

lemma by_time_simps [simp]: "set (by_time host f xs) = set xs" "mset (by_time host f xs) = mset xs"
  by (simp_all add: by_time_def)

lemma by_time_key:
  assumes "list_all (\<lambda>x. clocked host (f x)) xs"
  shows "by_time host f xs = sort_key (\<lambda>x. instant host (f x)) xs"
  unfolding by_time_def
proof (rule js_sort_key)
  fix a b
  assume "a \<in> set xs" "b \<in> set xs"
  with assms clocked_tm [of host "f a"] clocked_tm [of host "f b"]
  show "jless (Fin 0) (jsub (tm host (f a)) (tm host (f b))) \<longleftrightarrow> instant host (f b) < instant host (f a)"
    by (simp add: list_all_iff jsub_times_sign)
qed

lemma by_time_ends:
  assumes "list_all (\<lambda>x. clocked host (f x)) xs" "x \<in> set xs"
  shows "jle (tm host (f (hd (by_time host f xs)))) (tm host (f x))"
    and "jle (tm host (f x)) (tm host (f (last (by_time host f xs))))"
    and "hd (by_time host f xs) \<in> set xs" "last (by_time host f xs) \<in> set xs"
proof -
  let ?k = "\<lambda>x. instant host (f x)"
  let ?ys = "by_time host f xs"
  have ys: "?ys = sort_key ?k xs" by (rule by_time_key [OF assms(1)])
  have set: "set ?ys = set xs" by simp
  with assms(2) have ne: "?ys \<noteq> []" by (auto simp del: by_time_simps)
  have sorted: "sorted (map ?k ?ys)" by (simp add: ys)
  show "hd ?ys \<in> set xs" "last ?ys \<in> set xs" using hd_in_set [OF ne] last_in_set [OF ne] by simp_all
  then have t: "clocked host (f (hd ?ys))" "clocked host (f (last ?ys))" "clocked host (f x)"
    using assms by (auto simp: list_all_iff)
  have "?k (hd ?ys) \<le> ?k x" using sorted ne assms(2) unfolding set [symmetric] by (cases ?ys) (auto simp del: by_time_simps)
  then show "jle (tm host (f (hd ?ys))) (tm host (f x))"
    using t clocked_tm by (simp add: jle_def jeq_def) linarith
  have "?k x \<le> ?k (last ?ys)"
    using sorted ne assms(2) unfolding set [symmetric]
    by (cases ?ys rule: rev_cases) (auto simp: sorted_append simp del: by_time_simps)
  then show "jle (tm host (f x)) (tm host (f (last ?ys)))"
    using t clocked_tm by (simp add: jle_def jeq_def) linarith
qed

lemma valid_rows_timed:
  assumes "list_all (\<lambda>ob. clocked host (ho_observedAt ob)) obs"
  shows "list_all (\<lambda>r. clocked host (vr_at r) \<and> is_finite (vr_value r)) (valid_rows name obs)"
  using assms
  by (auto simp: list_all_iff valid_rows_def List.map_filter_def sampled_def split: if_splits option.splits)

lemma value_samples_usable:
  "list_all (\<lambda>ob. clocked host (ho_observedAt ob)) obs \<Longrightarrow> list_all (usable host) (value_samples n obs)"
  using valid_rows_timed [of host obs n]
  by (auto simp: value_samples_rows list_all_iff usable_def clocked_def split: option.splits)

lemma metricStats_describes:
  assumes s: "metricStats host obs name unit source = Inr s"
    and clocked: "list_all (\<lambda>ob. clocked host (ho_observedAt ob)) obs"
  shows "describes_opt host (value_samples name obs) (map_option as_summary s)"
proof (cases "valid_rows name obs = []")
  case True
  with s show ?thesis by (simp add: metricStats_def describes_opt_def value_samples_rows)
next
  case False
  let ?valid = "valid_rows name obs"
  let ?rows = "by_time host vr_at ?valid"
  note rows = valid_rows_timed [OF clocked, of name]
  have timed_rows: "list_all (\<lambda>r. clocked host (vr_at r)) ?valid" using rows by (simp add: list_all_iff)
  have set: "set ?rows = set ?valid" by simp
  with False have ne: "?rows \<noteq> []" by (auto simp del: by_time_simps)
  have "mset ?rows = mset ?valid" by simp
  then have len: "length ?rows = length ?valid" by (rule mset_eq_length)
  have fin: "list_all is_finite (map vr_value ?rows)" using rows by (simp add: list_all_iff set)
  have vs: "map vr_value ?rows \<noteq> []" using ne by simp
  note ends = by_time_ends [OF timed_rows]
  from s False obtain t where t: "s = Some t" "st_minimum t = num_least (map vr_value ?rows)"
      "st_maximum t = num_greatest (map vr_value ?rows)" "st_count t = count_num ?rows"
      "st_first t = (vr_value (hd ?rows), vr_at (hd ?rows))" "st_latest t = (vr_value (last ?rows), vr_at (last ?rows))"
    by (auto simp: metricStats_def inconsistent_def Let_def split: if_splits)
  have in_valid: "hd ?rows \<in> set ?valid" "last ?rows \<in> set ?valid" using hd_in_set [OF ne] last_in_set [OF ne] by simp_all
  have "describes host (map (\<lambda>r. (vr_at r, vr_value r)) ?valid) (as_summary t)"
    using num_least_of [OF vs fin] num_greatest_of [OF vs fin] ends in_valid
    by (auto simp: describes_def as_summary_def t set len list_all_iff count_num_def image_iff)
  then show ?thesis by (simp add: describes_opt_def t(1) value_samples_rows)
qed

lemma bucketMetricStats_describes:
  assumes s: "bucketMetricStats host buckets name = Inr s"
    and each: "list_all (\<lambda>b. describes_opt host (behind b) (obj_get (bs_metrics b) name)
      \<and> list_all (usable host) (behind b)) buckets"
    and few: "length (concat (map behind buckets)) < 2 ^ 53"
  shows "describes_opt host (concat (map behind buckets)) (map_option as_summary s)"
proof -
  let ?has = "List.filter (\<lambda>b. obj_get (bs_metrics b) name \<noteq> None) buckets"
  let ?sums = "map (the \<circ> (\<lambda>b. obj_get (bs_metrics b) name)) ?has"
  have split: "concat (map behind buckets) = concat (map behind ?has)"
    using each by (induction buckets) (auto simp: describes_opt_def)
  have kept: "List.map_filter (\<lambda>b. obj_get (bs_metrics b) name) buckets = ?sums"
    by (simp add: List.map_filter_def)
  have each': "describes host (behind b) x" if "b \<in> set buckets" "obj_get (bs_metrics b) name = Some x" for b x
    using each that by (fastforce simp: list_all_iff describes_opt_def)
  show ?thesis
  proof (cases "?sums = []")
    case True
    with s show ?thesis by (simp add: bucketMetricStats_def kept describes_opt_def split Let_def del: map_is_Nil_conv)
  next
    case False
    from s False obtain t where t: "s = Some t" "st_minimum t = num_least (map ms_minimum ?sums)"
        "st_maximum t = num_greatest (map ms_maximum ?sums)" "st_count t = num_total (map ms_sampleCount ?sums)"
        "st_first t = (ms_firstValue (oldest_summary host ?sums), ms_firstObservedAt (oldest_summary host ?sums))"
        "st_latest t = (ms_lastValue (newest_summary host ?sums), ms_lastObservedAt (newest_summary host ?sums))"
      by (auto simp: bucketMetricStats_def kept inconsistent_def Let_def simp del: map_map split: if_splits)
    have "describes host (concat (map behind ?has)) (as_summary t)"
    proof (rule describes_joined [OF _ _ False])
      show "list_all2 (\<lambda>x ys. describes host ys x) ?sums (map behind ?has)"
        using each' by (auto simp: list.rel_map intro!: list.rel_refl_strong)
      show "list_all (list_all (usable host)) (map behind ?has)" using each by (auto simp: list_all_iff)
      show "length (concat (map behind ?has)) < 2 ^ 53" using few by (simp only: split)
      show "joins host ?sums (as_summary t)" by (simp add: joins_def as_summary_def t)
    qed
    then show ?thesis by (simp add: describes_opt_def t(1) split)
  qed
qed

lemma two_joined:
  assumes "is_finite (ms_minimum x)" "is_finite (ms_minimum y)" "is_finite (ms_maximum x)" "is_finite (ms_maximum y)"
    and "is_finite (tm host (ms_firstObservedAt x))" "is_finite (tm host (ms_firstObservedAt y))"
    and "is_finite (tm host (ms_lastObservedAt x))" "is_finite (tm host (ms_lastObservedAt y))"
    and "jadd (Fin 0) (ms_sampleCount x) = ms_sampleCount x"
    and "ms_minimum z = jmin (ms_minimum x) (ms_minimum y)" "ms_maximum z = jmax (ms_maximum x) (ms_maximum y)"
    and "ms_sampleCount z = jadd (ms_sampleCount x) (ms_sampleCount y)"
    and "(ms_firstObservedAt z, ms_firstValue z)
      = (let f = (if jle (tm host (ms_firstObservedAt x)) (tm host (ms_firstObservedAt y)) then x else y)
         in (ms_firstObservedAt f, ms_firstValue f))"
    and "(ms_lastObservedAt z, ms_lastValue z)
      = (let l = (if jle (tm host (ms_lastObservedAt y)) (tm host (ms_lastObservedAt x)) then x else y)
         in (ms_lastObservedAt l, ms_lastValue l))"
  shows "joins host [x, y] z"
proof -
  have swap: "is_finite a \<Longrightarrow> is_finite b \<Longrightarrow> jless b a \<longleftrightarrow> \<not> jle a b" for a b
    by (auto simp: jnum_finite jle_def jeq_def)
  have "jmin PosInf (ms_minimum x) = ms_minimum x" "jmax NegInf (ms_maximum x) = ms_maximum x"
    using assms(1,3) by (auto simp: jnum_finite jmin_def jmax_def)
  then show ?thesis
    using assms(5-) by (simp add: joins_def num_least_def num_greatest_def num_total_def oldest_summary_def newest_summary_def swap Let_def)
qed

lemma combineMetricStats_describes:
  assumes z: "combineMetricStats host r a = Inr z"
    and r: "describes_opt host xs (map_option as_summary r)" "list_all (usable host) xs"
    and a: "describes_opt host ys (map_option as_summary a)" "list_all (usable host) ys"
    and few: "length xs + length ys < 2 ^ 53"
  shows "describes_opt host (xs @ ys) (map_option as_summary z)"
proof (cases r)
  case None
  with z r a show ?thesis by (auto simp: combineMetricStats_def describes_opt_def split: option.splits)
next
  case (Some r')
  note r' = this
  show ?thesis
  proof (cases a)
    case None
    with z r a r' show ?thesis by (auto simp: combineMetricStats_def describes_opt_def split: option.splits)
  next
    case (Some a')
    from r(1) a(1) have rx: "describes host xs (as_summary r')" and ay: "describes host ys (as_summary a')"
      by (simp_all add: describes_opt_def r' Some)
    note fr = describes_finite [OF rx r(2)] and fa = describes_finite [OF ay a(2)]
    from z obtain t where t: "z = Some t" "st_minimum t = jmin (st_minimum r') (st_minimum a')"
        "st_maximum t = jmax (st_maximum r') (st_maximum a')" "st_count t = jadd (st_count r') (st_count a')"
        "st_first t = (if jle (tm host (snd (st_first r'))) (tm host (snd (st_first a'))) then st_first r' else st_first a')"
        "st_latest t = (if jle (tm host (snd (st_latest a'))) (tm host (snd (st_latest r'))) then st_latest r'
           else st_latest a')"
      by (auto simp: combineMetricStats_def r' Some split: if_splits)
    have counts: "jadd (Fin 0) (st_count r') = st_count r'"
      using rx few jadd_int [of 0 "int (length xs)"] by (simp add: describes_def as_summary_def safe_int_def)
    have "describes host (concat [xs, ys]) (as_summary t)"
    proof (rule describes_joined)
      show "list_all2 (\<lambda>x ys. describes host ys x) [as_summary r', as_summary a'] [xs, ys]" using rx ay by simp
      show "list_all (list_all (usable host)) [xs, ys]" using r(2) a(2) by simp
      show "length (concat [xs, ys]) < 2 ^ 53" using few by simp
      show "joins host [as_summary r', as_summary a'] (as_summary t)"
        by (rule two_joined) (use fr fa counts in \<open>simp_all add: as_summary_def t\<close>)
    qed simp
    then show ?thesis by (simp add: describes_opt_def t(1))
  qed
qed

text \<open>
  The samples behind the statistics of a device: those of its raw observations in the range, and those that
  went into its buckets outside the raw interval, \<open>hist\<close> giving the observations each bucket was filled with.
\<close>

definition filled_with :: "(jstr \<Rightarrow> int option) \<Rightarrow> (bucket_summary \<Rightarrow> health_observation list) \<Rightarrow> bucket_summary \<Rightarrow> bool" where
  "filled_with host hist b \<longleftrightarrow>
     apply_observations host (bs_granularity b) (bs_expectedIntervalMs b) (hist b) None = Inr (Some b)
     \<and> list_all (in_bucket host (bs_granularity b) (bs_bucketStartAt b)) (hist b)"

definition samples_behind ::
    "runtime \<Rightarrow> query_scope \<Rightarrow> query_request \<Rightarrow> query_dataset \<Rightarrow> (bucket_summary \<Rightarrow> health_observation list)
      \<Rightarrow> jstr \<Rightarrow> jstr \<Rightarrow> sample list" where
  "samples_behind h scope req ds hist d name =
     (case query_range h scope req ds of
        Inl _ \<Rightarrow> []
      | Inr rng \<Rightarrow>
          (let sel = selected_evidence (rt_parse h) scope req ds rng;
               r = rows_of_device (rt_parse h) (ds_observations sel) (ds_buckets sel) (ds_events sel) (ds_failures sel) d
           in value_samples name (dr_observations r) @ concat (map (\<lambda>b. gauge_samples name (hist b)) (dr_outside r))))"

lemma gauge_availability_describes:
  assumes ma: "gauge_availability host r sm = Inr ma" "ma_statistics ma = Some s"
    and obs: "list_all (\<lambda>ob. clocked host (ho_observedAt ob)) (dr_observations r)"
    and filled: "list_all (filled_with host hist) (dr_outside r)"
    and few: "length (value_samples (sm_name sm) (dr_observations r)
      @ concat (map (\<lambda>b. gauge_samples (sm_name sm) (hist b)) (dr_outside r))) < 2 ^ 53"
  shows "describes host (value_samples (sm_name sm) (dr_observations r)
      @ concat (map (\<lambda>b. gauge_samples (sm_name sm) (hist b)) (dr_outside r))) (as_summary s) \<and> ma_name ma = sm_name sm"
proof -
  let ?n = "sm_name sm"
  let ?raw = "value_samples ?n (dr_observations r)" and ?behind = "\<lambda>b. gauge_samples ?n (hist b)"
  have raw: "list_all (usable host) ?raw" by (rule value_samples_usable [OF obs])
  have le: "length (?behind b) \<le> length (concat (map ?behind (dr_outside r)))" if "b \<in> set (dr_outside r)" for b
    using that by (auto simp: length_concat intro: member_le_sum_list)
  have each: "list_all (\<lambda>b. describes_opt host (?behind b) (obj_get (bs_metrics b) ?n)
      \<and> list_all (usable host) (?behind b)) (dr_outside r)"
    unfolding list_all_iff [of _ "dr_outside r"]
  proof (intro ballI conjI)
    fix b assume b: "b \<in> set (dr_outside r)"
    with filled have f: "apply_observations host (bs_granularity b) (bs_expectedIntervalMs b) (hist b) None = Inr (Some b)"
      "list_all (in_bucket host (bs_granularity b) (bs_bucketStartAt b)) (hist b)"
      by (auto simp: list_all_iff filled_with_def)
    show "describes_opt host (?behind b) (obj_get (bs_metrics b) ?n)"
      by (rule bucket_gauges [OF f]) (use le [OF b] few in simp)
    show "list_all (usable host) (?behind b)" by (rule gauge_samples_usable [OF f(2)])
  qed
  obtain st ag z where parts: "(if dr_observations r = [] then Inr None
      else metricStats host (dr_observations r) ?n
        (or_string (map_option mo_unit (find (\<lambda>m. mo_name m = ?n) (concat (map ho_metrics (dr_observations r))))) (sm_unit sm))
        (or_string (map_option mo_source (find (\<lambda>m. mo_name m = ?n) (concat (map ho_metrics (dr_observations r))))) []))
      = Inr st" "bucketMetricStats host (dr_outside r) ?n = Inr ag" "combineMetricStats host st ag = Inr z"
    and z: "z = Some s" "ma_name ma = ?n"
    using ma by (auto simp: gauge_availability_def Let_def and_then_Inr_iff split: option.splits)
  have st: "describes_opt host ?raw (map_option as_summary st)"
  proof (cases "dr_observations r = []")
    case True
    with parts(1) show ?thesis by (simp add: describes_opt_def value_samples_def)
  next
    case False
    with parts(1) show ?thesis using metricStats_describes [OF _ obs] by simp
  qed
  have ag: "describes_opt host (concat (map ?behind (dr_outside r))) (map_option as_summary ag)"
    by (rule bucketMetricStats_describes [OF parts(2) each]) (use few in simp)
  have "list_all (usable host) (concat (map ?behind (dr_outside r)))" using each by (auto simp: list_all_iff)
  from combineMetricStats_describes [OF parts(3) st raw ag this] few z show ?thesis
    by (simp add: describes_opt_def)
qed

lemma map_result_member: "map_result f xs = Inr ys \<Longrightarrow> y \<in> set ys \<Longrightarrow> \<exists>x\<in>set xs. f x = Inr y"
  by (auto simp: map_result_Inr_iff dest: list_all2_witness')

lemma analysis_member:
  assumes "analyse_devices host scope req rng sel = Inr devices" "da \<in> set devices"
  obtains d where "device_analysis_of host scope req sel rng
      (rows_of_device host (ds_observations sel) (ds_buckets sel) (ds_events sel) (ds_failures sel) d) d = Inr da"
proof -
  from assms(1) have "map_result (\<lambda>d. device_analysis_of host scope req sel rng
      (rows_of_device host (ds_observations sel) (ds_buckets sel) (ds_events sel) (ds_failures sel) d) d)
      (js_sort (\<lambda>a b. str_less b a) (device_ids scope req sel)) = Inr devices"
    by (simp add: analyse_devices_def Let_def split: if_splits)
  from map_result_member [OF this assms(2)] that show thesis by blast
qed

lemma metric_member:
  assumes "device_analysis_of host scope req sel rng r d = Inr da" "ma \<in> set (da_metrics da)"
  obtains name where "metric_availability_of host sel r name = Inr ma"
proof -
  from assms(1) have "map_result (metric_availability_of host sel r) (requested_metrics req sel) = Inr (da_metrics da)"
    by (auto simp: device_analysis_of_def Let_def and_then_Inr_iff)
  from map_result_member [OF this assms(2)] that show thesis by blast
qed

lemma in_range_timed:
  assumes "inRange host t lo hi" "time_in_range lo" "time_in_range hi"
  shows "clocked host t"
  using assms by (auto simp: inRange_def clocked_def time_in_range_def split: option.splits)

lemma metric_availability_gauge:
  assumes "metric_availability_of host ds r name = Inr ma" "ma_statistics ma = Some s"
  obtains sm where "gauge_availability host r sm = Inr ma"
  using assms
  by (auto simp: metric_availability_of_def counter_availability_def Let_def and_then_Inr_iff split: option.splits if_splits)

text \<open>
  C37. The statistics a query reports for a gauge of a device describe exactly the samples behind them: the finite
  values in the raw observations of the device in the range, and the samples that went into its buckets outside
  the raw interval.  Minimum and maximum are the least and the greatest of these, the first and latest values
  belong to an earliest and a latest one, and the count is their number.
\<close>

theorem queried_gauge_describes_its_samples:
  assumes "queryDeviceHealthEvidence h scope req ds = Inr r"
    and "da \<in> set (qr_devices r)" "ma \<in> set (da_metrics da)" "ma_statistics ma = Some s"
    and "list_all (filled_with (rt_parse h) hist) (ds_buckets ds)"
    and "length (samples_behind h scope req ds hist (da_deviceId da) (ma_name ma)) < 2 ^ 53"
  shows "describes (rt_parse h) (samples_behind h scope req ds hist (da_deviceId da) (ma_name ma)) (as_summary s)"
proof -
  let ?host = "rt_parse h"
  from query_parts [OF assms(1)] obtain rng where rng: "query_range h scope req ds = Inr rng"
    and range: "time_in_range (fst rng)" "time_in_range (snd rng)"
    and devices: "analyse_devices ?host scope req rng (selected_evidence ?host scope req ds rng) = Inr (qr_devices r)" .
  let ?sel = "selected_evidence ?host scope req ds rng"
  let ?rows = "rows_of_device ?host (ds_observations ?sel) (ds_buckets ?sel) (ds_events ?sel) (ds_failures ?sel)"
  from devices assms(2) obtain d where d: "device_analysis_of ?host scope req ?sel rng (?rows d) d = Inr da"
    by (rule analysis_member)
  then have id: "da_deviceId da = d" by (auto simp: device_analysis_of_def Let_def and_then_Inr_iff)
  from d assms(3) obtain name where "metric_availability_of ?host ?sel (?rows d) name = Inr ma"
    by (rule metric_member)
  from this assms(4) obtain sm where sm: "gauge_availability ?host (?rows d) sm = Inr ma"
    by (rule metric_availability_gauge)
  then have name: "ma_name ma = sm_name sm"
    by (auto simp: gauge_availability_def Let_def and_then_Inr_iff split: option.splits)
  have behind: "samples_behind h scope req ds hist (da_deviceId da) (ma_name ma)
      = value_samples (sm_name sm) (dr_observations (?rows d))
        @ concat (map (\<lambda>b. gauge_samples (sm_name sm) (hist b)) (dr_outside (?rows d)))"
    by (simp add: samples_behind_def rng Let_def id name)
  have "list_all (\<lambda>ob. clocked ?host (ho_observedAt ob)) (dr_observations (?rows d))"
    using in_range_timed [OF _ range] by (auto simp: rows_of_device_def Let_def list_all_iff selected_evidence_def)
  moreover have "set (dr_outside (?rows d)) \<subseteq> set (ds_buckets ds)"
    by (auto simp: rows_of_device_def outside_raw_def Let_def selected_evidence_def split: if_splits)
  then have "list_all (filled_with ?host hist) (dr_outside (?rows d))"
    using assms(5) by (auto simp: list_all_iff)
  ultimately show ?thesis
    using gauge_availability_describes [OF sm assms(4)] assms(6) unfolding behind by blast
qed

text \<open>A device with one raw observation and one older bucket.\<close>

definition demo_gauge_request :: query_request where
  "demo_gauge_request = demo_query_request\<lparr>rq_granularity := js ''raw'', rq_limit := None\<rparr>"

definition demo_gauge_dataset :: query_dataset where
  "demo_gauge_dataset = \<lparr>ds_observations = [demo_late], ds_buckets = [demo_early_bucket], ds_events = [],
     ds_failures = [], ds_expectedIntervalMs = Fin 3600000,
     ds_supportedMetrics = [\<lparr>sm_name = js ''m'', sm_unit = js ''u'', sm_semantics = Gauge\<rparr>], ds_authorizedDevices = []\<rparr>"

definition demo_device_rows :: device_rows where
  "demo_device_rows = \<lparr>dr_observations = [demo_late], dr_buckets = [demo_early_bucket], dr_outside = [demo_early_bucket],
     dr_events = [], dr_failures = []\<rparr>"

definition demo_statistics :: metric_statistics where
  "demo_statistics = \<lparr>st_minimum = Fin (- 70), st_maximum = Fin (- 60), st_average = Fin (- 65), st_sum = Fin (- 130),
     st_count = Fin 2, st_missingCount = Fin 0, st_unit = js ''u'', st_source = js ''s'',
     st_first = (Fin (- 60), js ''2025-06-01T10:00:00.000Z''), st_latest = (Fin (- 70), js ''2025-06-01T11:00:00.000Z'')\<rparr>"

definition demo_availability :: metric_availability where
  "demo_availability = \<lparr>ma_name = js ''m'', ma_status = Available, ma_reason = None, ma_semantics = Some Gauge,
     ma_statistics = Some demo_statistics, ma_counterSeries = None\<rparr>"

lemma demo_fields:
  "ho_tenantId demo_late = js ''t''" "ho_siteId demo_late = js ''s''" "ho_deviceId demo_late = js ''d''"
  "ho_observedAt demo_late = js ''2025-06-01T11:00:00.000Z''" "ho_metrics demo_late = [demo_metric Gauge (- 70)]"
  "bs_tenantId demo_early_bucket = js ''t''" "bs_siteId demo_early_bucket = js ''s''"
  "bs_deviceId demo_early_bucket = js ''d''" "bs_bucketStartAt demo_early_bucket = js ''2025-06-01T10:00:00.000Z''"
  "bs_lastObservedAt demo_early_bucket = js ''2025-06-01T10:00:00.000Z''"
  "bs_metrics demo_early_bucket = [(js ''m'', demo_summary ''2025-06-01T10:00:00.000Z'' (- 60))]"
  "bs_granularity demo_early_bucket = Hourly" "bs_expectedIntervalMs demo_early_bucket = Fin 3600000"
  by (simp_all add: demo_late_def demo_observation_def demo_early_bucket_def demo_bucket_def)

lemma demo_gauge_range:
  "query_range code_unit_runtime demo_query_scope demo_gauge_request demo_gauge_dataset = Inr (1748772000000, 1748775600000)"
proof -
  have "js_trim (js ''t'') = js ''t''" "js_trim (js ''s'') = js ''s''" by code_simp+
  then show ?thesis
    by (simp add: query_range_def demo_query_scope_def demo_query_request_def demo_gauge_request_def demo_gauge_dataset_def
        demo_offset_dates or_string_def granularity_names_def is_safe_integer_def limit_ok_def device_id_ok_def
        metrics_ok_def code_unit_runtime_def)
qed

lemma demo_gauge_selected:
  "selected_evidence no_host demo_query_scope demo_gauge_request demo_gauge_dataset (1748772000000, 1748775600000)
    = demo_gauge_dataset"
  by (simp add: selected_evidence_def demo_gauge_request_def demo_query_request_def demo_gauge_dataset_def demo_query_scope_def
      demo_offset_dates scopeMatches_def wants_device_def inRange_def demo_fields)

lemma demo_gauge_rows:
  "rows_of_device no_host (ds_observations demo_gauge_dataset) (ds_buckets demo_gauge_dataset)
     (ds_events demo_gauge_dataset) (ds_failures demo_gauge_dataset) (js ''d'') = demo_device_rows"
  by (simp add: rows_of_device_def demo_gauge_dataset_def demo_device_rows_def by_time_def js_sort_simps outside_raw_def
      demo_fields tm_def time_num_def demo_times Let_def)

lemma demo_gauge_availability:
  "metric_availability_of no_host demo_gauge_dataset demo_device_rows (js ''m'') = Inr demo_availability"
proof -
  have "\<lfloor>130000001 / 2 :: rat\<rfloor> = 65000000" by (rule floor_unique) simp_all
  then show ?thesis
    by (simp add: metric_availability_of_def demo_gauge_dataset_def gauge_availability_def demo_device_rows_def Let_def
      metricStats_def valid_rows_def demo_fields demo_metric_def List.map_filter_simps sampled_def by_time_def js_sort_simps
      bucketMetricStats_def obj_get_def demo_summary_def combineMetricStats_def or_string_def num_least_def num_greatest_def
      num_total_def count_num_def jmin_def jmax_def jsub_def fl_numerals oldest_summary_def newest_summary_def tm_def time_num_def demo_times
      jle_def jeq_def round6_def demo_availability_def demo_statistics_def)
qed

lemma demo_gauge_answer:
  "\<exists>r da. queryDeviceHealthEvidence code_unit_runtime demo_query_scope demo_gauge_request demo_gauge_dataset = Inr r
    \<and> da \<in> set (qr_devices r) \<and> da_deviceId da = js ''d'' \<and> demo_availability \<in> set (da_metrics da)"
proof -
  have host: "rt_parse code_unit_runtime = no_host" by (simp add: code_unit_runtime_def)
  have "requested_metrics demo_gauge_request demo_gauge_dataset = [js ''m'']"
    by (simp add: requested_metrics_def demo_gauge_request_def demo_query_request_def demo_gauge_dataset_def)
  then obtain da where da: "device_analysis_of no_host demo_query_scope demo_gauge_request demo_gauge_dataset
      (1748772000000, 1748775600000) demo_device_rows (js ''d'') = Inr da" "da_deviceId da = js ''d''"
      "da_metrics da = [demo_availability]"
    by (simp add: device_analysis_of_def Let_def demo_gauge_availability)
  have ids: "device_ids demo_query_scope demo_gauge_request demo_gauge_dataset = [js ''d'']"
    by (simp add: device_ids_def demo_gauge_dataset_def set_of_list_def set_add_def demo_fields)
  have bounded: "bounded_evidence [js ''d''] demo_gauge_dataset"
    by (simp add: bounded_evidence_def demo_gauge_dataset_def)
  have devices: "analyse_devices no_host demo_query_scope demo_gauge_request (1748772000000, 1748775600000) demo_gauge_dataset
      = Inr [da]"
    by (simp add: analyse_devices_def Let_def ids bounded js_sort_simps demo_gauge_rows da(1))
  have "given_cursor demo_gauge_request = None"
    by (simp add: given_cursor_def demo_gauge_request_def demo_query_request_def)
  then have "\<exists>r. query_answer code_unit_runtime demo_query_scope demo_gauge_request demo_gauge_dataset
      (1748772000000, 1748775600000) demo_gauge_dataset [da] = Inr r \<and> qr_devices r = [da]"
    by (simp add: query_answer_def demo_isos split: prod.split)
  with da show ?thesis
    by (auto simp: queryDeviceHealthEvidence_def demo_gauge_range host demo_gauge_selected devices)
qed

definition demo_history :: "bucket_summary \<Rightarrow> health_observation list" where
  "demo_history _ = [demo_early]"

lemma demo_samples_behind:
  "samples_behind code_unit_runtime demo_query_scope demo_gauge_request demo_gauge_dataset demo_history (js ''d'') (js ''m'')
    = [(js ''2025-06-01T11:00:00.000Z'', Fin (- 70)), (js ''2025-06-01T10:00:00.000Z'', Fin (- 60))]"
proof -
  have host: "rt_parse code_unit_runtime = no_host" by (simp add: code_unit_runtime_def)
  show ?thesis
    by (simp add: samples_behind_def demo_gauge_range host demo_gauge_selected demo_gauge_rows Let_def)
      (simp add: demo_device_rows_def demo_history_def value_samples_def samples_of_def value_event_def demo_fields
        demo_metric_def sampled_def gauge_samples_def gauge_event_def demo_early_def demo_observation_def)
qed

theorem queried_gauge_describes_its_samples_witness:
  "describes no_host [(js ''2025-06-01T11:00:00.000Z'', Fin (- 70)), (js ''2025-06-01T10:00:00.000Z'', Fin (- 60))]
     (as_summary demo_statistics)"
proof -
  have host: "rt_parse code_unit_runtime = no_host" by (simp add: code_unit_runtime_def)
  obtain r da where r: "queryDeviceHealthEvidence code_unit_runtime demo_query_scope demo_gauge_request demo_gauge_dataset = Inr r"
      "da \<in> set (qr_devices r)" "demo_availability \<in> set (da_metrics da)" and d: "da_deviceId da = js ''d''"
    using demo_gauge_answer by blast
  have ma: "ma_statistics demo_availability = Some demo_statistics" "ma_name demo_availability = js ''m''"
    by (simp_all add: demo_availability_def)
  have filled: "list_all (filled_with no_host demo_history) (ds_buckets demo_gauge_dataset)"
    using demo_hours_applied(1) demo_hours_in(1)
    by (simp add: filled_with_def demo_gauge_dataset_def demo_history_def demo_fields)
  show ?thesis
    using queried_gauge_describes_its_samples [OF r ma(1), of demo_history] filled
    by (simp add: host d ma(2) demo_samples_behind)
qed

end
