(* ===== verification/FirmwareDiagnostics.thy ===== *)
theory FirmwareDiagnostics
  imports HealthQuery JsUri
begin

text \<open>
  The diagnostics a device's firmware reports, the pure part of
  \<open>apps/api/src/app/modules/devices/device-firmware-diagnostics.ts\<close>: accepting a sample, the events derived
  from it, the keys of the store and the health observation a snapshot stands for.

  Parameters are \<open>toLowerCase\<close> on any text, \<open>Date.parse\<close> outside ISO and the hexadecimal SHA-256 of a text.
  The lemmas show that an accepted sample is accepted again as it is, which events a sample raises, and
  that one accepted sample makes the derivation throw.
\<close>

subsection \<open>Samples, events and snapshots\<close>

record firmware_scope =
  fs_tenantId :: jstr
  fs_siteId :: jstr

record exception_registers =
  xr_cause :: jnum
  xr_epc1 :: jnum
  xr_epc2 :: jnum
  xr_epc3 :: jnum
  xr_address :: jnum
  xr_depc :: jnum

record firmware_sample =
  fd_deviceId :: jstr
  fd_firmwareVersion :: jstr
  fd_bootSessionId :: jstr
  fd_uptimeMs :: jnum
  fd_reason :: jstr
  fd_reasonCode :: jnum
  fd_exception :: "exception_registers option"
  fd_freeHeapBytes :: "jnum option"
  fd_heapFragmentationPct :: "jnum option"
  fd_largestFreeBlockBytes :: "jnum option"
  fd_connected :: bool
  fd_rssiDbm :: "jnum option"
  fd_disconnectCount :: jnum
  fd_reconnectCount :: jnum
  fd_sampleCount :: jnum
  fd_readFailureCount :: jnum

datatype firmware_event_kind = Reboot_detected | Repeated_reboots | Watchdog_reset | Exception_reset
  | Reset_cause_unknown | Memory_warning | Wifi_instability

text \<open>The source of every event is \<open>GET /api/v1/diagnostics\<close> over HTTP.\<close>

datatype diagnostics_source = Http_get_diagnostics

record firmware_event =
  fe_id :: jstr
  fe_kind :: firmware_event_kind
  fe_observedAt :: jstr
  fe_bootSessionId :: jstr
  fe_confidence :: event_confidence
  fe_summary :: jstr
  fe_explanation :: jstr
  fe_source :: "diagnostics_source option"
  fe_observedAtBasis :: "event_basis option"
  fe_detectedAt :: "jstr option"
  fe_inferredBootAt :: "jstr option"
  fe_evidenceReferences :: "evidence_reference list option"
  fe_deduplicationKey :: "jstr option"

record firmware_snapshot =
  sn_collectedAt :: jstr
  sn_identityVerifiedAt :: jstr
  sn_sample :: firmware_sample

subsection \<open>Accepting a sample\<close>

definition isSafeCounter :: "jval \<Rightarrow> bool" where
  "isSafeCounter v = (case number_of v of Some x \<Rightarrow> is_safe_integer x \<and> jle (Fin 0) x | None \<Rightarrow> False)"

text \<open>\<open>Number.isInteger(v)\<close> with the bounds tested next to it.\<close>

definition integer_within :: "jval \<Rightarrow> int \<Rightarrow> int \<Rightarrow> bool" where
  "integer_within v lo hi = (case number_of v of
     Some x \<Rightarrow> is_integer x \<and> jle (Fin (of_int lo)) x \<and> jle x (Fin (of_int hi)) | None \<Rightarrow> False)"

text \<open>A number, \<open>null\<close> (the inner \<open>None\<close>) or \<open>undefined\<close> (the outer one).\<close>

definition nullableMetric :: "jval \<Rightarrow> int \<Rightarrow> int \<Rightarrow> jnum option option" where
  "nullableMetric v lo hi =
     (if v = Null then Some None else if integer_within v lo hi then Some (number_of v) else None)"

text \<open>\<open>Number(v)\<close> of a value that is a number.\<close>

definition to_num :: "jval \<Rightarrow> jnum" where
  "to_num v = (case number_of v of Some x \<Rightarrow> x | None \<Rightarrow> NaN)"

definition hex_text :: "nat \<Rightarrow> jstr \<Rightarrow> bool" where
  "hex_text n s \<longleftrightarrow> length s = n
     \<and> list_all (\<lambda>c. is_digit c \<or> (97 \<le> c \<and> c \<le> 102) \<or> (65 \<le> c \<and> c \<le> 70)) s"

text \<open>\<open>/^esp8266-[0-9a-f]{6}-[0-9a-f]{8}$/i\<close> and \<open>/^esp8266:[0-9a-f]{6}$/i\<close>.\<close>

definition esp_prefix :: "jstr \<Rightarrow> bool" where
  "esp_prefix s \<longleftrightarrow> to_lower s = js ''esp8266''"

definition boot_session_form :: "jstr \<Rightarrow> bool" where
  "boot_session_form s \<longleftrightarrow> length s = 23 \<and> esp_prefix (take 7 s) \<and> s ! 7 = 45 \<and> hex_text 6 (take 6 (drop 8 s))
     \<and> s ! 14 = 45 \<and> hex_text 8 (drop 15 s)"

definition physical_id_form :: "jstr \<Rightarrow> bool" where
  "physical_id_form s \<longleftrightarrow> length s = 14 \<and> esp_prefix (take 7 s) \<and> s ! 7 = 58 \<and> hex_text 6 (drop 8 s)"

definition exception_keys :: "jstr list" where
  "exception_keys = map js [''cause'', ''epc1'', ''epc2'', ''epc3'', ''address'', ''depc'']"

definition registers_of :: "jval jobj \<Rightarrow> exception_registers" where
  "registers_of e = \<lparr>xr_cause = to_num (own e (js ''cause'')), xr_epc1 = to_num (own e (js ''epc1'')),
     xr_epc2 = to_num (own e (js ''epc2'')), xr_epc3 = to_num (own e (js ''epc3'')),
     xr_address = to_num (own e (js ''address'')), xr_depc = to_num (own e (js ''depc''))\<rparr>"

text \<open>The exception part: \<open>Some None\<close> for \<open>null\<close>, \<open>None\<close> when it is refused.\<close>

definition parse_exception :: "jval \<Rightarrow> exception_registers option option" where
  "parse_exception v =
     (if v = Null then Some None
      else (case plain_object v of
         Some e \<Rightarrow> if list_all (\<lambda>k. isSafeCounter (own e k)) exception_keys then Some (Some (registers_of e)) else None
       | None \<Rightarrow> None))"

definition root_ok :: "(jstr \<Rightarrow> jstr) \<Rightarrow> jstr \<Rightarrow> jval jobj \<Rightarrow> bool" where
  "root_ok lower expected ob \<longleftrightarrow>
     same_primitive (own ob (js ''schemaVersion'')) (JNum (Fin 1))
     \<and> (case string_of (own ob (js ''deviceId'')) of Some s \<Rightarrow> lower s = lower expected | None \<Rightarrow> False)
     \<and> (case string_of (own ob (js ''firmwareVersion'')) of Some s \<Rightarrow> 1 \<le> length s \<and> length s \<le> 40 | None \<Rightarrow> False)
     \<and> (case string_of (own ob (js ''bootSessionId'')) of Some s \<Rightarrow> boot_session_form s | None \<Rightarrow> False)
     \<and> isSafeCounter (own ob (js ''uptimeMs''))"

definition parts_ok :: "jval jobj \<Rightarrow> jval jobj \<Rightarrow> jval jobj \<Rightarrow> bool" where
  "parts_ok reset wifi sensor \<longleftrightarrow>
     (case string_of (own reset (js ''reason'')) of Some s \<Rightarrow> length s \<le> 120 | None \<Rightarrow> False)
     \<and> integer_within (own reset (js ''reasonCode'')) (- 1) 255
     \<and> bool_of (own wifi (js ''connected'')) \<noteq> None
     \<and> isSafeCounter (own wifi (js ''disconnectCount'')) \<and> isSafeCounter (own wifi (js ''reconnectCount''))
     \<and> isSafeCounter (own sensor (js ''sampleCount'')) \<and> isSafeCounter (own sensor (js ''readFailureCount''))"

text \<open>\<open>String\<close> of a value that is a string, and \<open>wifi.connected\<close>.\<close>

definition sample_text :: "jval \<Rightarrow> jstr" where
  "sample_text v = (case string_of v of Some s \<Rightarrow> s | None \<Rightarrow> [])"

definition flag_of :: "jval \<Rightarrow> bool" where
  "flag_of v = (v = JBool True)"

definition sample_of ::
    "(jstr \<Rightarrow> jstr) \<Rightarrow> jstr \<Rightarrow> jval jobj \<Rightarrow> jval jobj \<Rightarrow> jval jobj \<Rightarrow> jval jobj \<Rightarrow> exception_registers option
      \<Rightarrow> jnum option \<Rightarrow> jnum option \<Rightarrow> jnum option \<Rightarrow> jnum option \<Rightarrow> firmware_sample" where
  "sample_of lower expected ob reset wifi sensor exception heap frag block rssi =
     \<lparr>fd_deviceId = lower expected, fd_firmwareVersion = sample_text (own ob (js ''firmwareVersion'')),
      fd_bootSessionId = sample_text (own ob (js ''bootSessionId'')), fd_uptimeMs = to_num (own ob (js ''uptimeMs'')),
      fd_reason = sample_text (own reset (js ''reason'')), fd_reasonCode = to_num (own reset (js ''reasonCode'')),
      fd_exception = exception, fd_freeHeapBytes = heap, fd_heapFragmentationPct = frag,
      fd_largestFreeBlockBytes = block, fd_connected = flag_of (own wifi (js ''connected'')), fd_rssiDbm = rssi,
      fd_disconnectCount = to_num (own wifi (js ''disconnectCount'')),
      fd_reconnectCount = to_num (own wifi (js ''reconnectCount'')),
      fd_sampleCount = to_num (own sensor (js ''sampleCount'')),
      fd_readFailureCount = to_num (own sensor (js ''readFailureCount''))\<rparr>"

definition parse_parts ::
    "(jstr \<Rightarrow> jstr) \<Rightarrow> jstr \<Rightarrow> jval jobj \<Rightarrow> jval jobj \<Rightarrow> jval jobj \<Rightarrow> jval jobj \<Rightarrow> jval jobj \<Rightarrow> firmware_sample option" where
  "parse_parts lower expected ob reset memory wifi sensor =
     (case (parse_exception (own reset (js ''exception'')),
            nullableMetric (own memory (js ''freeHeapBytes'')) 0 1000000,
            nullableMetric (own memory (js ''heapFragmentationPct'')) 0 100,
            nullableMetric (own memory (js ''largestFreeBlockBytes'')) 0 1000000,
            nullableMetric (own wifi (js ''rssiDbm'')) (- 127) 0) of
        (Some exception, Some heap, Some frag, Some block, Some rssi) \<Rightarrow>
          if flag_of (own wifi (js ''connected'')) = (rssi = None) then None
          else Some (sample_of lower expected ob reset wifi sensor exception heap frag block rssi)
      | _ \<Rightarrow> None)"

definition parseFirmwareDiagnosticSample :: "(jstr \<Rightarrow> jstr) \<Rightarrow> jval \<Rightarrow> jstr \<Rightarrow> firmware_sample option" where
  "parseFirmwareDiagnosticSample lower v expected =
     (case plain_object v of
        None \<Rightarrow> None
      | Some ob \<Rightarrow>
          if \<not> root_ok lower expected ob then None
          else (case (plain_object (own ob (js ''reset'')), plain_object (own ob (js ''memory'')),
                      plain_object (own ob (js ''wifi'')), plain_object (own ob (js ''sensor''))) of
             (Some reset, Some memory, Some wifi, Some sensor) \<Rightarrow>
               if parts_ok reset wifi sensor then parse_parts lower expected ob reset memory wifi sensor else None
           | _ \<Rightarrow> None))"

subsection \<open>The value a sample is sent and stored as\<close>

definition opt_num :: "jnum option \<Rightarrow> jval" where
  "opt_num x = (case x of Some v \<Rightarrow> JNum v | None \<Rightarrow> Null)"

definition registers_value :: "exception_registers option \<Rightarrow> jval" where
  "registers_value r = (case r of None \<Rightarrow> Null
     | Some x \<Rightarrow> JObj [(js ''cause'', JNum (xr_cause x)), (js ''epc1'', JNum (xr_epc1 x)), (js ''epc2'', JNum (xr_epc2 x)),
         (js ''epc3'', JNum (xr_epc3 x)), (js ''address'', JNum (xr_address x)), (js ''depc'', JNum (xr_depc x))])"

definition sample_value :: "firmware_sample \<Rightarrow> jval" where
  "sample_value s = JObj
     [(js ''schemaVersion'', JNum (Fin 1)), (js ''deviceId'', JStr (fd_deviceId s)),
      (js ''firmwareVersion'', JStr (fd_firmwareVersion s)), (js ''bootSessionId'', JStr (fd_bootSessionId s)),
      (js ''uptimeMs'', JNum (fd_uptimeMs s)),
      (js ''reset'', JObj [(js ''reason'', JStr (fd_reason s)), (js ''reasonCode'', JNum (fd_reasonCode s)),
         (js ''exception'', registers_value (fd_exception s))]),
      (js ''memory'', JObj [(js ''freeHeapBytes'', opt_num (fd_freeHeapBytes s)),
         (js ''heapFragmentationPct'', opt_num (fd_heapFragmentationPct s)),
         (js ''largestFreeBlockBytes'', opt_num (fd_largestFreeBlockBytes s))]),
      (js ''wifi'', JObj [(js ''connected'', JBool (fd_connected s)), (js ''rssiDbm'', opt_num (fd_rssiDbm s)),
         (js ''disconnectCount'', JNum (fd_disconnectCount s)), (js ''reconnectCount'', JNum (fd_reconnectCount s))]),
      (js ''sensor'', JObj [(js ''sampleCount'', JNum (fd_sampleCount s)),
         (js ''readFailureCount'', JNum (fd_readFailureCount s))])]"

text \<open>\<open>JSON.stringify\<close> of a value; \<open>None\<close> for \<open>undefined\<close>, which an object omits and an array writes as \<open>null\<close>.\<close>

fun json_text :: "jval \<Rightarrow> jstr option" where
  "json_text Undefined = None"
| "json_text Null = Some (js ''null'')"
| "json_text (JBool b) = Some (if b then js ''true'' else js ''false'')"
| "json_text (JNum x) = Some (if is_finite x then num_str x else js ''null'')"
| "json_text (JStr s) = Some (json_quote s)"
| "json_text (JArr xs) = Some ([91] @ js_join [44] (map (\<lambda>x. case json_text x of Some t \<Rightarrow> t | None \<Rightarrow> js ''null'') xs) @ [93])"
| "json_text (JObj es) = Some ([123] @ js_join [44]
     (List.map_filter id (map (\<lambda>e. map_option (\<lambda>t. json_quote (fst e) @ [58] @ t) (json_text (snd e))) es)) @ [125])"

definition sample_json :: "firmware_sample \<Rightarrow> jstr" where
  "sample_json s = (case json_text (sample_value s) of Some t \<Rightarrow> t | None \<Rightarrow> [])"

subsection \<open>Events\<close>

definition kind_name :: "firmware_event_kind \<Rightarrow> jstr" where
  "kind_name k = (case k of Reboot_detected \<Rightarrow> js ''reboot-detected'' | Repeated_reboots \<Rightarrow> js ''repeated-reboots''
     | Watchdog_reset \<Rightarrow> js ''watchdog-reset'' | Exception_reset \<Rightarrow> js ''exception-reset''
     | Reset_cause_unknown \<Rightarrow> js ''reset-cause-unknown'' | Memory_warning \<Rightarrow> js ''memory-warning''
     | Wifi_instability \<Rightarrow> js ''wifi-instability'')"

definition eventId :: "(jstr \<Rightarrow> jstr) \<Rightarrow> firmware_event_kind \<Rightarrow> jstr \<Rightarrow> jstr" where
  "eventId digest kind boot = take 24 (digest (kind_name kind @ [0] @ boot))"

text \<open>The estimated boot time, for a reboot event only.\<close>

definition inferred_boot ::
    "(jstr \<Rightarrow> int option) \<Rightarrow> firmware_event_kind \<Rightarrow> firmware_sample \<Rightarrow> jstr \<Rightarrow> jstr option result" where
  "inferred_boot host kind s seenAt =
     (if kind = Reboot_detected
      then and_then (to_iso (time_clip (jsub (tm host seenAt) (fd_uptimeMs s)))) (\<lambda>t. Inr (Some t))
      else Inr None)"

definition make_event ::
    "(jstr \<Rightarrow> int option) \<Rightarrow> (jstr \<Rightarrow> jstr) \<Rightarrow> firmware_sample \<Rightarrow> jstr \<Rightarrow> firmware_event_kind \<Rightarrow> event_confidence
      \<Rightarrow> jstr \<Rightarrow> jstr \<Rightarrow> firmware_event result" where
  "make_event host digest s seenAt kind confidence summary explanation =
     and_then (inferred_boot host kind s seenAt) (\<lambda>boot.
       Inr \<lparr>fe_id = eventId digest kind (fd_bootSessionId s), fe_kind = kind, fe_observedAt = seenAt,
            fe_bootSessionId = fd_bootSessionId s, fe_confidence = confidence, fe_summary = summary,
            fe_explanation = explanation, fe_source = Some Http_get_diagnostics,
            fe_observedAtBasis = Some Server_detection_time, fe_detectedAt = Some seenAt, fe_inferredBootAt = boot,
            fe_evidenceReferences = Some [\<lparr>rf_observedAt = seenAt, rf_bootSessionId = fd_bootSessionId s\<rparr>],
            fe_deduplicationKey = Some (kind_name kind @ js '':'' @ fd_bootSessionId s)\<rparr>)"

text \<open>Which events a sample raises, with their confidence and texts.\<close>

type_synonym event_text = "firmware_event_kind \<times> event_confidence \<times> jstr \<times> jstr"

definition session_changed :: "firmware_sample option \<Rightarrow> firmware_sample \<Rightarrow> bool" where
  "session_changed prior s = (case prior of Some p \<Rightarrow> fd_bootSessionId p \<noteq> fd_bootSessionId s | None \<Rightarrow> False)"

definition uptime_reset :: "firmware_sample option \<Rightarrow> firmware_sample \<Rightarrow> bool" where
  "uptime_reset prior s = (case prior of Some p \<Rightarrow> jless (fd_uptimeMs s) (fd_uptimeMs p) | None \<Rightarrow> False)"

definition reboot_texts :: "firmware_sample option \<Rightarrow> firmware_sample \<Rightarrow> event_text list" where
  "reboot_texts prior s =
     (if session_changed prior s \<or> uptime_reset prior s
      then [(Reboot_detected, Confirmed, js ''A new firmware boot session was detected.'',
        (if session_changed prior s
         then js ''The device-reported boot session changed since the previous verified diagnostics poll.''
         else js ''Device uptime decreased since the previous verified diagnostics poll; the boot session identifier remained unchanged.''))]
      else [])"

definition reset_texts :: "firmware_sample \<Rightarrow> event_text list" where
  "reset_texts s =
     (let reset = fd_reasonCode s in
      if reset = Fin 1 \<or> reset = Fin 3 then
        [(Watchdog_reset, Confirmed, js ''The firmware reports a watchdog reset.'',
          js ''ESP8266 reset code '' @ num_str reset @ js '' identifies a ''
          @ (if reset = Fin 1 then js ''hardware'' else js ''software'') @ js '' watchdog reset.'')]
      else if reset = Fin 2 then
        [(Exception_reset, Confirmed, js ''The firmware reports an exception reset.'',
          (case fd_exception s of
             Some x \<Rightarrow> js ''Exception cause '' @ num_str (xr_cause x)
               @ js ''; exception address details are available in the current diagnostics.''
           | None \<Rightarrow> js ''The reset is classified as an exception, but the SDK supplied no exception detail fields.''))]
      else if jless reset (Fin 0) \<or> reset = Fin 0 \<or> jless (Fin 6) reset then
        [(Reset_cause_unknown, Possible, js ''Reset cause is unknown.'',
          js ''The reset evidence does not identify a cause. Power interruption is one possibility, but these diagnostics do not establish a power-supply fault.'')]
      else [])"

definition below :: "jnum option \<Rightarrow> int \<Rightarrow> bool" where
  "below x n = (case x of Some v \<Rightarrow> jless v (Fin (of_int n)) | None \<Rightarrow> False)"

definition low_memory :: "firmware_sample \<Rightarrow> bool" where
  "low_memory s \<longleftrightarrow> below (fd_freeHeapBytes s) 8000
     \<or> (case fd_heapFragmentationPct s of Some v \<Rightarrow> jle (Fin 50) v | None \<Rightarrow> False)
     \<or> below (fd_largestFreeBlockBytes s) 4096"

definition memory_texts :: "firmware_sample \<Rightarrow> event_text list" where
  "memory_texts s =
     (if low_memory s
      then [(Memory_warning, Confirmed, js ''Firmware memory is below the diagnostic thresholds.'',
        js ''At least one reported heap metric crossed the V1 warning threshold (free heap < 8000 bytes, largest block < 4096 bytes, or fragmentation >= 50%).'')]
      else [])"

definition wifi_texts :: "firmware_sample \<Rightarrow> event_text list" where
  "wifi_texts s =
     (if jle (Fin 3) (fd_disconnectCount s)
      then [(Wifi_instability, Confirmed, js ''Multiple Wi-Fi disconnections were reported during this boot session.'',
        js ''The firmware reports '' @ num_str (fd_disconnectCount s)
        @ js '' disconnection events; this indicates Wi-Fi instability, not sensor staleness.'')]
      else [])"

text \<open>The reboots of a timeline in the ten minutes before an instant.\<close>

definition within_window :: "(jstr \<Rightarrow> int option) \<Rightarrow> jstr \<Rightarrow> jstr \<Rightarrow> bool" where
  "within_window host now t \<longleftrightarrow>
     jle (Fin 0) (jsub (tm host now) (tm host t)) \<and> jle (jsub (tm host now) (tm host t)) (Fin 600000)"

definition restart_times :: "(jstr \<Rightarrow> int option) \<Rightarrow> jstr \<Rightarrow> firmware_event list \<Rightarrow> jstr list" where
  "restart_times host now timeline =
     List.filter (\<lambda>t. is_finite (tm host t) \<and> within_window host now t)
       (map fe_observedAt (List.filter (\<lambda>e. fe_kind e = Reboot_detected) timeline))"

definition repeated_texts :: "(jstr \<Rightarrow> int option) \<Rightarrow> jstr \<Rightarrow> firmware_event list \<Rightarrow> event_text list" where
  "repeated_texts host now timeline =
     (let n = length (restart_times host now timeline) in
      if 3 \<le> n
      then [(Repeated_reboots, Confirmed,
        int_str (int n) @ js '' device restarts were observed within 10 minutes.'',
        js ''Repeated boot-session changes are confirmed. Their underlying cause is not established by restart frequency alone.'')]
      else [])"

definition make_events ::
    "(jstr \<Rightarrow> int option) \<Rightarrow> (jstr \<Rightarrow> jstr) \<Rightarrow> firmware_sample \<Rightarrow> jstr \<Rightarrow> event_text list \<Rightarrow> firmware_event list result" where
  "make_events host digest s seenAt =
     map_result (\<lambda>(kind, confidence, summary, explanation).
       make_event host digest s seenAt kind confidence summary explanation)"

text \<open>\<open>prior\<close> is the current sample of the previous view, when there is one.\<close>

definition deriveFirmwareHealthEvents ::
    "(jstr \<Rightarrow> int option) \<Rightarrow> (jstr \<Rightarrow> jstr) \<Rightarrow> firmware_sample option \<Rightarrow> firmware_sample \<Rightarrow> jstr \<Rightarrow> firmware_event list
      \<Rightarrow> firmware_event list result" where
  "deriveFirmwareHealthEvents host digest prior s seenAt priorEvents =
     and_then (make_events host digest s seenAt
         (reboot_texts prior s @ reset_texts s @ memory_texts s @ wifi_texts s)) (\<lambda>created.
     and_then (make_events host digest s seenAt (repeated_texts host seenAt (priorEvents @ created))) (\<lambda>repeated.
       Inr (created @ repeated)))"

subsection \<open>Keys\<close>

definition encoded_scope :: "firmware_scope \<Rightarrow> jstr result" where
  "encoded_scope scope =
     and_then (encodeURIComponent (fs_tenantId scope)) (\<lambda>t.
     and_then (encodeURIComponent (fs_siteId scope)) (\<lambda>s. Inr (t @ js '':'' @ s @ js '':'')))"

definition diagnosticsKey :: "firmware_scope \<Rightarrow> jstr \<Rightarrow> jstr result" where
  "diagnosticsKey scope d =
     (if js_trim (fs_tenantId scope) = [] \<or> js_trim (fs_siteId scope) = [] \<or> js_trim d = []
      then throw ''Tenant, site and stable device identity are required for firmware diagnostics''
      else and_then (encoded_scope scope) (\<lambda>s. and_then (encodeURIComponent d) (\<lambda>e.
             Inr (js ''firmware-diagnostics:'' @ s @ e))))"

definition healthKey :: "string \<Rightarrow> firmware_scope \<Rightarrow> jstr \<Rightarrow> jstr \<Rightarrow> jstr result" where
  "healthKey kind scope d suff =
     and_then (encoded_scope scope) (\<lambda>s. and_then (encodeURIComponent d) (\<lambda>e.
       Inr (js ''device-health:'' @ js kind @ js '':'' @ s @ e @ js '':'' @ suff)))"

definition siteDeviceIndexPrefix :: "firmware_scope \<Rightarrow> jstr result" where
  "siteDeviceIndexPrefix scope = and_then (encoded_scope scope) (\<lambda>s. Inr (js ''device-health:index:'' @ s))"

subsection \<open>The health observation of a snapshot\<close>

definition diagnostics_path :: jstr where
  "diagnostics_path = js ''http:GET:/api/v1/diagnostics''"

definition sample_metric :: "string \<Rightarrow> jnum option \<Rightarrow> string \<Rightarrow> semantics \<Rightarrow> metric_observation" where
  "sample_metric name v unit sem =
     \<lparr>mo_name = js name, mo_value = v, mo_unit = js unit, mo_semantics = sem, mo_source = diagnostics_path\<rparr>"

definition sample_metrics :: "firmware_sample \<Rightarrow> metric_observation list" where
  "sample_metrics s =
     [sample_metric ''wifi.rssi'' (fd_rssiDbm s) ''dBm'' Gauge,
      sample_metric ''memory.free_heap'' (fd_freeHeapBytes s) ''bytes'' Gauge,
      sample_metric ''memory.fragmentation'' (fd_heapFragmentationPct s) ''%'' Gauge,
      sample_metric ''memory.largest_free_block'' (fd_largestFreeBlockBytes s) ''bytes'' Gauge,
      sample_metric ''uptime'' (Some (fd_uptimeMs s)) ''ms'' Counter,
      sample_metric ''wifi.disconnect_count'' (Some (fd_disconnectCount s)) ''count'' Counter,
      sample_metric ''wifi.reconnect_count'' (Some (fd_reconnectCount s)) ''count'' Counter,
      sample_metric ''sensor.sample_count'' (Some (fd_sampleCount s)) ''count'' Counter,
      sample_metric ''sensor.read_failure_count'' (Some (fd_readFailureCount s)) ''count'' Counter]"

definition reset_details :: "exception_registers \<Rightarrow> jnum jobj" where
  "reset_details x = [(js ''cause'', xr_cause x), (js ''epc1'', xr_epc1 x), (js ''epc2'', xr_epc2 x),
     (js ''epc3'', xr_epc3 x), (js ''address'', xr_address x), (js ''depc'', xr_depc x)]"

definition observationFor ::
    "(jstr \<Rightarrow> jstr) \<Rightarrow> firmware_scope \<Rightarrow> jstr \<Rightarrow> jstr \<Rightarrow> firmware_snapshot \<Rightarrow> health_observation" where
  "observationFor digest scope d physicalId sn =
     (let s = sn_sample sn in
      \<lparr>ho_tenantId = fs_tenantId scope, ho_siteId = fs_siteId scope, ho_deviceId = d,
       ho_physicalDeviceId = physicalId,
       ho_sampleId = take 32 (digest (sn_collectedAt sn @ [0] @ sample_json s)),
       ho_observedAt = sn_collectedAt sn, ho_bootSessionId = fd_bootSessionId s,
       ho_resetEvidence = Some \<lparr>re_reason = fd_reason s, re_code = fd_reasonCode s,
         re_details = map_option reset_details (fd_exception s), re_source = diagnostics_path\<rparr>,
       ho_metrics = sample_metrics s\<rparr>)"

definition withEventProvenance :: "firmware_event \<Rightarrow> firmware_event" where
  "withEventProvenance e =
     e\<lparr>fe_deduplicationKey := (case fe_deduplicationKey e of
         Some (c # k) \<Rightarrow> Some (c # k) | _ \<Rightarrow> Some (kind_name (fe_kind e) @ js '':'' @ fe_bootSessionId e))\<rparr>"

subsection \<open>An accepted sample is accepted again\<close>

definition counter_num :: "jnum \<Rightarrow> bool" where
  "counter_num x \<longleftrightarrow> is_safe_integer x \<and> jle (Fin 0) x"

lemma isSafeCounter_iff: "isSafeCounter v \<longleftrightarrow> (\<exists>x. v = JNum x \<and> counter_num x)"
  by (cases v) (auto simp: isSafeCounter_def counter_num_def)

lemma nullable_again: "nullableMetric v lo hi = Some x \<Longrightarrow> nullableMetric (opt_num x) lo hi = Some x"
  by (cases v) (auto simp: nullableMetric_def integer_within_def opt_num_def split: if_splits)

lemma counter_again: "isSafeCounter v \<Longrightarrow> isSafeCounter (JNum (to_num v))"
  by (cases v) (simp_all add: isSafeCounter_def to_num_def)

lemma num_of_counter: "isSafeCounter v \<Longrightarrow> JNum (to_num v) = v"
  by (cases v) (simp_all add: isSafeCounter_def to_num_def)

lemma exception_again:
  assumes "parse_exception v = Some x"
  shows "parse_exception (registers_value x) = Some x"
proof (cases x)
  case None
  then show ?thesis by (simp add: parse_exception_def registers_value_def)
next
  case (Some r)
  with assms obtain e where "list_all (\<lambda>k. isSafeCounter (own e k)) exception_keys" "r = registers_of e"
    by (auto simp: parse_exception_def split: if_splits option.splits)
  then show ?thesis
    using Some by (simp add: parse_exception_def registers_value_def registers_of_def exception_keys_def own_simps
        counter_again num_of_counter)
qed

lemma parse_parts_Some:
  assumes "parse_parts lower expected ob reset memory wifi sensor = Some s"
  shows "parse_exception (own reset (js ''exception'')) = Some (fd_exception s)"
    and "nullableMetric (own memory (js ''freeHeapBytes'')) 0 1000000 = Some (fd_freeHeapBytes s)"
    and "nullableMetric (own memory (js ''heapFragmentationPct'')) 0 100 = Some (fd_heapFragmentationPct s)"
    and "nullableMetric (own memory (js ''largestFreeBlockBytes'')) 0 1000000 = Some (fd_largestFreeBlockBytes s)"
    and "nullableMetric (own wifi (js ''rssiDbm'')) (- 127) 0 = Some (fd_rssiDbm s)"
    and "fd_connected s \<longleftrightarrow> fd_rssiDbm s \<noteq> None"
    and "s = sample_of lower expected ob reset wifi sensor (fd_exception s) (fd_freeHeapBytes s)
      (fd_heapFragmentationPct s) (fd_largestFreeBlockBytes s) (fd_rssiDbm s)"
  using assms by (auto simp: parse_parts_def sample_of_def split: option.splits if_splits)

lemma parsed_sample_parses_to_itself:
  assumes "parseFirmwareDiagnosticSample lower v expected = Some s" "\<And>x. lower (lower x) = lower x"
  shows "parseFirmwareDiagnosticSample lower (sample_value s) expected = Some s"
proof -
  from assms(1) obtain ob reset memory wifi sensor where v: "v = JObj ob" "root_ok lower expected ob"
      "parts_ok reset wifi sensor" and s: "parse_parts lower expected ob reset memory wifi sensor = Some s"
    by (auto simp: parseFirmwareDiagnosticSample_def split: option.splits if_splits)
  note p = parse_parts_Some [OF s]
  let ?reset = "[(js ''reason'', JStr (fd_reason s)), (js ''reasonCode'', JNum (fd_reasonCode s)),
     (js ''exception'', registers_value (fd_exception s))]"
  let ?memory = "[(js ''freeHeapBytes'', opt_num (fd_freeHeapBytes s)),
     (js ''heapFragmentationPct'', opt_num (fd_heapFragmentationPct s)),
     (js ''largestFreeBlockBytes'', opt_num (fd_largestFreeBlockBytes s))]"
  let ?wifi = "[(js ''connected'', JBool (fd_connected s)), (js ''rssiDbm'', opt_num (fd_rssiDbm s)),
     (js ''disconnectCount'', JNum (fd_disconnectCount s)), (js ''reconnectCount'', JNum (fd_reconnectCount s))]"
  let ?sensor = "[(js ''sampleCount'', JNum (fd_sampleCount s)), (js ''readFailureCount'', JNum (fd_readFailureCount s))]"
  obtain es where es: "sample_value s = JObj es" by (simp add: sample_value_def)
  have own: "own es (js ''schemaVersion'') = JNum (Fin 1)" "own es (js ''deviceId'') = JStr (fd_deviceId s)"
    "own es (js ''firmwareVersion'') = JStr (fd_firmwareVersion s)" "own es (js ''bootSessionId'') = JStr (fd_bootSessionId s)"
    "own es (js ''uptimeMs'') = JNum (fd_uptimeMs s)" "own es (js ''reset'') = JObj ?reset" "own es (js ''memory'') = JObj ?memory"
    "own es (js ''wifi'') = JObj ?wifi" "own es (js ''sensor'') = JObj ?sensor"
    using es by (auto simp: sample_value_def own_simps)
  have ids: "fd_deviceId s = lower expected" using p(7) by (metis firmware_sample.select_convs(1) sample_of_def)
  have fields: "fd_firmwareVersion s = sample_text (own ob (js ''firmwareVersion''))"
    "fd_bootSessionId s = sample_text (own ob (js ''bootSessionId''))" "fd_uptimeMs s = to_num (own ob (js ''uptimeMs''))"
    "fd_reason s = sample_text (own reset (js ''reason''))" "fd_reasonCode s = to_num (own reset (js ''reasonCode''))"
    "fd_connected s = flag_of (own wifi (js ''connected''))"
    "fd_disconnectCount s = to_num (own wifi (js ''disconnectCount''))"
    "fd_reconnectCount s = to_num (own wifi (js ''reconnectCount''))"
    "fd_sampleCount s = to_num (own sensor (js ''sampleCount''))"
    "fd_readFailureCount s = to_num (own sensor (js ''readFailureCount''))"
    using arg_cong [OF p(7), of fd_firmwareVersion] arg_cong [OF p(7), of fd_bootSessionId]
      arg_cong [OF p(7), of fd_uptimeMs] arg_cong [OF p(7), of fd_reason] arg_cong [OF p(7), of fd_reasonCode]
      arg_cong [OF p(7), of fd_connected] arg_cong [OF p(7), of fd_disconnectCount]
      arg_cong [OF p(7), of fd_reconnectCount] arg_cong [OF p(7), of fd_sampleCount]
      arg_cong [OF p(7), of fd_readFailureCount]
    by (simp_all only: sample_of_def firmware_sample.select_convs)
  have texts: "own ob (js ''firmwareVersion'') = JStr (fd_firmwareVersion s)" "own ob (js ''bootSessionId'') = JStr (fd_bootSessionId s)"
    "own ob (js ''uptimeMs'') = JNum (fd_uptimeMs s)" "own reset (js ''reason'') = JStr (fd_reason s)"
    "own reset (js ''reasonCode'') = JNum (fd_reasonCode s)" "own wifi (js ''connected'') = JBool (fd_connected s)"
    "own wifi (js ''disconnectCount'') = JNum (fd_disconnectCount s)" "own wifi (js ''reconnectCount'') = JNum (fd_reconnectCount s)"
    "own sensor (js ''sampleCount'') = JNum (fd_sampleCount s)" "own sensor (js ''readFailureCount'') = JNum (fd_readFailureCount s)"
    using v(2,3)
    by (auto simp: root_ok_def parts_ok_def fields isSafeCounter_def integer_within_def sample_text_def to_num_def flag_of_def
        split: option.splits jval.splits)
  have "root_ok lower expected es"
    using v(2) by (simp add: root_ok_def own texts ids assms(2))
  moreover have "parts_ok ?reset ?wifi ?sensor"
    using v(3) by (simp add: parts_ok_def texts own_simps)
  moreover have "parse_parts lower expected es ?reset ?memory ?wifi ?sensor = Some s"
    using exception_again [OF p(1)] nullable_again [OF p(2)] nullable_again [OF p(3)] nullable_again [OF p(4)]
      nullable_again [OF p(5)] p(6)
    by (simp add: parse_parts_def own_simps flag_of_def sample_of_def own sample_text_def to_num_def ids)
  ultimately show ?thesis by (simp add: parseFirmwareDiagnosticSample_def es own)
qed

text \<open>
  An accepted sample can make the derivation throw: an uptime is accepted up to \<open>2^53 - 1\<close>, but the estimated
  boot time of a reboot event, the collection time less the uptime, is then no time a date can hold.
\<close>

lemma huge_uptime_throws:
  assumes "date_parse host seenAt = Some t" "0 \<le> t" "t < 367199254740991" "fd_uptimeMs s = Fin 9007199254740991"
    and "session_changed prior s"
  shows "deriveFirmwareHealthEvents host digest prior s seenAt events = Inl RangeError"
proof -
  have "safe_int (t - 9007199254740991)" using assms(2,3) by (simp add: safe_int_def)
  then have "jsub (tm host seenAt) (fd_uptimeMs s) = Fin (of_int (t - 9007199254740991))"
    using jsub_int [of t 9007199254740991] by (simp add: tm_def time_num_def assms(1,4))
  moreover have "time_clip (Fin (of_int (t - 9007199254740991))) = None"
    using assms(2,3) by (simp add: time_clip_def)
  ultimately have "inferred_boot host Reboot_detected s seenAt = Inl RangeError"
    by (simp add: inferred_boot_def to_iso_def)
  then show ?thesis
    using assms(5) by (simp add: deriveFirmwareHealthEvents_def reboot_texts_def make_events_def make_event_def)
qed

lemma counter_bound_accepted: "isSafeCounter (JNum (Fin 9007199254740991))"
  by (simp add: isSafeCounter_def is_safe_integer_def)

end
