(* ===== verification/FirmwareStore.thy ===== *)
theory FirmwareStore
  imports FirmwareDiagnostics
begin

text \<open>
  The diagnostics service, class \<open>DeviceFirmwareDiagnosticsService\<close> of
  \<open>apps/api/src/app/modules/devices/device-firmware-diagnostics.ts\<close>: the stored view of a device, the rollups
  of its snapshots into hour and day buckets, and what one call writes.

  The key-value database is the parameter \<open>lv\<close>: reading a key, writing a batch at once, reading a key
  range.  Calls are serialised by the service, so a call is a function of the database that returns the
  database its one batch leaves, or an error and no write.  A stored value has the type its writer gave it;
  reading a key as another type than it holds finds nothing.

  The lemmas show that what a call writes is read back and touches no other device, what every view of a
  reachable database satisfies, and that a sample delivered twice is counted once in its hour.  What they
  rely on of the database is \<open>level_laws\<close>, which the database in memory at the end satisfies.
\<close>

subsection \<open>Views and stored values\<close>

datatype firmware_failure_reason = Request_timeout | Identity_mismatch | Identity_request_failed | Endpoint_unverified
  | Scope_rejected | Diagnostics_http_error | Response_invalid | Collector_error

record local_scope =
  ls_interfaceName :: jstr
  ls_cidr :: jstr
  ls_address :: jstr

record collection_context =
  cc_observerId :: jstr
  cc_host :: jstr
  cc_platform :: jstr
  cc_localScopes :: "local_scope list"
  cc_endpoint :: jstr
  cc_ipAddress :: jstr
  cc_networkScopeId :: jstr
  cc_networkScopeName :: jstr

record collection_failure =
  cf_id :: jstr
  cf_attemptedAt :: jstr
  cf_reason :: firmware_failure_reason
  cf_context :: "collection_context option"

datatype collection_status = Collected | Failed_collection

datatype connectivity = Link_up | Link_down | Link_unknown

record firmware_view =
  fv_deviceId :: jstr
  fv_tenantId :: jstr
  fv_siteId :: jstr
  fv_sampledAt :: jstr
  fv_current :: "firmware_sample option"
  fv_snapshots :: "firmware_snapshot list"
  fv_lastAttemptAt :: jstr
  fv_lastSuccessfulContactAt :: "jstr option"
  fv_collectionStatus :: collection_status
  fv_collectionFailures :: "collection_failure list"
  fv_events :: "firmware_event list"
  fv_restartCount10m :: nat
  fv_connectivity :: connectivity
  fv_historyBackfilledThroughAt :: "jstr option"
  fv_lastRetentionSweepAt :: "jstr option"

text \<open>A stored view of an older version lacks the later fields.\<close>

record stored_view =
  sv_deviceId :: jstr
  sv_tenantId :: jstr
  sv_siteId :: jstr
  sv_sampledAt :: jstr
  sv_current :: "firmware_sample option"
  sv_snapshots :: "firmware_snapshot list option"
  sv_lastAttemptAt :: "jstr option"
  sv_lastSuccessfulContactAt :: "jstr option"
  sv_collectionStatus :: "collection_status option"
  sv_collectionFailures :: "collection_failure list option"
  sv_events :: "firmware_event list option"
  sv_restartCount10m :: "nat option"
  sv_connectivity :: "connectivity option"
  sv_historyBackfilledThroughAt :: "jstr option"
  sv_lastRetentionSweepAt :: "jstr option"

record row_scope =
  rs_tenantId :: jstr
  rs_siteId :: jstr
  rs_deviceId :: jstr
  rs_physicalDeviceId :: jstr

record rollup_marker =
  rm_sampleId :: jstr
  rm_bucketKey :: jstr
  rm_observedAt :: jstr

datatype stored = Stored_view stored_view | Stored_bucket bucket_summary | Stored_marker rollup_marker
  | Stored_index row_scope | Stored_event row_scope firmware_event | Stored_failure row_scope collection_failure
  | Stored_migration jstr

datatype batch_op = Put jstr stored | Del jstr

record 'db level =
  lv_get :: "'db \<Rightarrow> jstr \<Rightarrow> stored option"
  lv_batch :: "'db \<Rightarrow> batch_op list \<Rightarrow> 'db"
  lv_range :: "'db \<Rightarrow> jstr \<Rightarrow> jstr \<Rightarrow> (jstr \<times> stored) list"

record retention =
  rt_rawSampleDays :: jnum
  rt_hourlySummaryDays :: jnum
  rt_dailySummaryDays :: jnum
  rt_significantEventDays :: jnum
  rt_communicationFailureDays :: jnum
  rt_expectedIntervalMs :: jnum
  rt_retentionSweepIntervalMs :: jnum

text \<open>What the service is given: \<open>Date.parse\<close> outside ISO, SHA-256 and its retention settings.\<close>

record service =
  se_parse :: "jstr \<Rightarrow> int option"
  se_digest :: "jstr \<Rightarrow> jstr"
  se_retention :: retention

text \<open>\<open>configuredRetention\<close> with \<open>Number(process.env[key])\<close> as a parameter; no overrides.\<close>

definition from_env :: "(jstr \<Rightarrow> jnum) \<Rightarrow> string \<Rightarrow> int \<Rightarrow> int \<Rightarrow> int \<Rightarrow> jnum" where
  "from_env env key fallback lo hi =
     (let v = env (js key) in
      if is_safe_integer v \<and> jle (Fin (of_int lo)) v \<and> jle v (Fin (of_int hi)) then v else Fin (of_int fallback))"

definition configuredRetention :: "(jstr \<Rightarrow> jnum) \<Rightarrow> retention" where
  "configuredRetention env =
     \<lparr>rt_rawSampleDays = from_env env ''HOME_DEVICE_HEALTH_RAW_DAYS'' 7 1 30,
      rt_hourlySummaryDays = from_env env ''HOME_DEVICE_HEALTH_HOURLY_DAYS'' 90 1 3650,
      rt_dailySummaryDays = from_env env ''HOME_DEVICE_HEALTH_DAILY_DAYS'' 730 1 7300,
      rt_significantEventDays = from_env env ''HOME_DEVICE_HEALTH_EVENT_DAYS'' 3650 365 7300,
      rt_communicationFailureDays = from_env env ''HOME_DEVICE_HEALTH_FAILURE_DAYS'' 90 1 3650,
      rt_expectedIntervalMs = from_env env ''HOME_FIRMWARE_DIAGNOSTICS_INTERVAL_MS'' 60000 15000 900000,
      rt_retentionSweepIntervalMs = Fin 86400000\<rparr>"

subsection \<open>Reading\<close>

text \<open>\<open>s || d\<close> for texts that may be missing.\<close>

definition or_text :: "jstr option \<Rightarrow> jstr \<Rightarrow> jstr" where
  "or_text s d = (case s of Some (c # r) \<Rightarrow> c # r | _ \<Rightarrow> d)"

definition filled_text :: "jstr option \<Rightarrow> jstr option" where
  "filled_text s = (case s of Some (c # r) \<Rightarrow> Some (c # r) | _ \<Rightarrow> None)"

definition restored_view :: "stored_view \<Rightarrow> firmware_view" where
  "restored_view v =
     \<lparr>fv_deviceId = sv_deviceId v, fv_tenantId = sv_tenantId v, fv_siteId = sv_siteId v,
      fv_sampledAt = sv_sampledAt v, fv_current = sv_current v,
      fv_snapshots = (case sv_snapshots v of Some ss \<Rightarrow> ss
        | None \<Rightarrow> (case sv_current v of
            Some s \<Rightarrow> [\<lparr>sn_collectedAt = sv_sampledAt v, sn_identityVerifiedAt = sv_sampledAt v, sn_sample = s\<rparr>]
          | None \<Rightarrow> [])),
      fv_lastAttemptAt = or_text (sv_lastAttemptAt v) (sv_sampledAt v),
      fv_lastSuccessfulContactAt = (case filled_text (sv_lastSuccessfulContactAt v) of Some t \<Rightarrow> Some t
        | None \<Rightarrow> filled_text (Some (sv_sampledAt v))),
      fv_collectionStatus = (case sv_collectionStatus v of Some s \<Rightarrow> s | None \<Rightarrow> Collected),
      fv_collectionFailures = (case sv_collectionFailures v of Some fs \<Rightarrow> fs | None \<Rightarrow> []),
      fv_events = (case sv_events v of Some es \<Rightarrow> es | None \<Rightarrow> []),
      fv_restartCount10m = (case sv_restartCount10m v of Some n \<Rightarrow> n | None \<Rightarrow> 0),
      fv_connectivity = (case sv_connectivity v of Some c \<Rightarrow> c | None \<Rightarrow> Link_unknown),
      fv_historyBackfilledThroughAt = sv_historyBackfilledThroughAt v,
      fv_lastRetentionSweepAt = sv_lastRetentionSweepAt v\<rparr>"

text \<open>The view as the service writes it.\<close>

definition stored_form :: "firmware_view \<Rightarrow> stored_view" where
  "stored_form v =
     \<lparr>sv_deviceId = fv_deviceId v, sv_tenantId = fv_tenantId v, sv_siteId = fv_siteId v,
      sv_sampledAt = fv_sampledAt v, sv_current = fv_current v, sv_snapshots = Some (fv_snapshots v),
      sv_lastAttemptAt = Some (fv_lastAttemptAt v), sv_lastSuccessfulContactAt = fv_lastSuccessfulContactAt v,
      sv_collectionStatus = Some (fv_collectionStatus v), sv_collectionFailures = Some (fv_collectionFailures v),
      sv_events = Some (fv_events v), sv_restartCount10m = Some (fv_restartCount10m v),
      sv_connectivity = Some (fv_connectivity v),
      sv_historyBackfilledThroughAt = fv_historyBackfilledThroughAt v,
      sv_lastRetentionSweepAt = fv_lastRetentionSweepAt v\<rparr>"

definition getValue :: "'db level \<Rightarrow> 'db \<Rightarrow> jstr \<Rightarrow> firmware_view option" where
  "getValue lv db k = (case lv_get lv db k of Some (Stored_view v) \<Rightarrow> Some (restored_view v) | _ \<Rightarrow> None)"

definition read_bucket :: "'db level \<Rightarrow> 'db \<Rightarrow> jstr \<Rightarrow> bucket_summary option" where
  "read_bucket lv db k = (case lv_get lv db k of Some (Stored_bucket b) \<Rightarrow> Some b | _ \<Rightarrow> None)"

definition present :: "'db level \<Rightarrow> 'db \<Rightarrow> jstr \<Rightarrow> bool" where
  "present lv db k \<longleftrightarrow> lv_get lv db k \<noteq> None"

definition same_scope :: "firmware_scope \<Rightarrow> firmware_view \<Rightarrow> bool" where
  "same_scope scope v \<longleftrightarrow> fv_tenantId v = fs_tenantId scope \<and> fv_siteId v = fs_siteId scope"

definition previous_view :: "'db level \<Rightarrow> 'db \<Rightarrow> jstr \<Rightarrow> firmware_scope \<Rightarrow> firmware_view option" where
  "previous_view lv db key scope =
     (case getValue lv db key of Some v \<Rightarrow> if same_scope scope v then Some v else None | None \<Rightarrow> None)"

definition events_of :: "firmware_view option \<Rightarrow> firmware_event list" where
  "events_of prev = (case prev of Some v \<Rightarrow> fv_events v | None \<Rightarrow> [])"

definition failures_of :: "firmware_view option \<Rightarrow> collection_failure list" where
  "failures_of prev = (case prev of Some v \<Rightarrow> fv_collectionFailures v | None \<Rightarrow> [])"

definition snapshots_of :: "firmware_view option \<Rightarrow> firmware_snapshot list" where
  "snapshots_of prev = (case prev of Some v \<Rightarrow> fv_snapshots v | None \<Rightarrow> [])"

subsection \<open>The next view\<close>

text \<open>\<open>xs.filter((x, i, all) => all.findIndex(y => f(y) === f(x)) === i)\<close>.\<close>

definition first_by :: "('a \<Rightarrow> 'k) \<Rightarrow> 'a list \<Rightarrow> 'a list" where
  "first_by f xs = foldl (\<lambda>kept x. if f x \<in> f ` set kept then kept else kept @ [x]) [] xs"

definition all_events ::
    "service \<Rightarrow> firmware_view option \<Rightarrow> firmware_event list \<Rightarrow> firmware_event list" where
  "all_events se prev new =
     by_time (se_parse se) fe_observedAt (first_by fe_id
       (map withEventProvenance (events_of prev) @ map withEventProvenance new))"

definition recent_restarts :: "service \<Rightarrow> jstr \<Rightarrow> firmware_event list \<Rightarrow> nat" where
  "recent_restarts se now events =
     length (List.filter (\<lambda>e. fe_kind e = Reboot_detected \<and> within_window (se_parse se) now (fe_observedAt e)) events)"

definition all_snapshots :: "service \<Rightarrow> firmware_view option \<Rightarrow> firmware_snapshot \<Rightarrow> firmware_snapshot list" where
  "all_snapshots se prev sn =
     by_time (se_parse se) sn_collectedAt (first_by (\<lambda>x. (sn_collectedAt x, sample_json (sn_sample x)))
       ((snapshots_of prev) @ [sn]))"

definition days_before :: "service \<Rightarrow> jstr \<Rightarrow> jnum \<Rightarrow> jnum" where
  "days_before se now days = jsub (tm (se_parse se) now) (jmul days (Fin 86400000))"

definition max_raw_samples :: "retention \<Rightarrow> jnum" where
  "max_raw_samples r =
     jmin (Fin 100000) (jneg (jfloor (jneg
       (jmul (jdiv (jmul (rt_rawSampleDays r) (Fin 86400000)) (rt_expectedIntervalMs r)) (Fin (5 / 4))))))"

definition retained_snapshots :: "service \<Rightarrow> jstr \<Rightarrow> firmware_snapshot list \<Rightarrow> firmware_snapshot list" where
  "retained_snapshots se now snapshots =
     slice_from (jneg (max_raw_samples (se_retention se)))
       (List.filter (\<lambda>x. jle (days_before se now (rt_rawSampleDays (se_retention se))) (tm (se_parse se) (sn_collectedAt x)))
          snapshots)"

definition new_snapshot :: "firmware_sample \<Rightarrow> jstr \<Rightarrow> firmware_snapshot" where
  "new_snapshot s now = \<lparr>sn_collectedAt = now, sn_identityVerifiedAt = now, sn_sample = s\<rparr>"

definition recorded_view ::
    "service \<Rightarrow> firmware_scope \<Rightarrow> jstr \<Rightarrow> firmware_view option \<Rightarrow> firmware_sample \<Rightarrow> jstr \<Rightarrow> firmware_event list
      \<Rightarrow> firmware_view" where
  "recorded_view se scope d prev s now new =
     (let every = all_events se prev new; snapshots = all_snapshots se prev (new_snapshot s now) in
      \<lparr>fv_deviceId = d, fv_tenantId = fs_tenantId scope, fv_siteId = fs_siteId scope, fv_sampledAt = now,
       fv_current = Some s, fv_snapshots = retained_snapshots se now snapshots, fv_lastAttemptAt = now,
       fv_lastSuccessfulContactAt = Some now, fv_collectionStatus = Collected,
       fv_collectionFailures = failures_of prev,
       fv_events = slice_from (Fin (- 100)) every, fv_restartCount10m = recent_restarts se now every,
       fv_connectivity = (if fd_connected s then Link_up else Link_down),
       fv_historyBackfilledThroughAt = Some (or_text (head_opt sn_collectedAt (rev snapshots))
         (or_text (Option.bind prev fv_historyBackfilledThroughAt) [])),
       fv_lastRetentionSweepAt = Option.bind prev fv_lastRetentionSweepAt\<rparr>)"

subsection \<open>Rollups\<close>

record staged =
  sg_pending :: "(jstr \<times> bucket_summary) list"
  sg_operations :: "batch_op list"
  sg_affectedDays :: "jstr list"

fun op_key :: "batch_op \<Rightarrow> jstr" where
  "op_key (Put k v) = k"
| "op_key (Del k) = k"

definition pending_or_stored ::
    "'db level \<Rightarrow> 'db \<Rightarrow> (jstr \<times> bucket_summary) list \<Rightarrow> jstr \<Rightarrow> bucket_summary option" where
  "pending_or_stored lv db pending k =
     (case map_get pending k of Some b \<Rightarrow> Some b | None \<Rightarrow> read_bucket lv db k)"

text \<open>One snapshot applied to the bucket of its hour or day, once: the marker says it has been.\<close>

definition apply_once ::
    "service \<Rightarrow> 'db level \<Rightarrow> 'db \<Rightarrow> jstr \<Rightarrow> jstr \<Rightarrow> granularity \<Rightarrow> health_observation \<Rightarrow> staged \<Rightarrow> staged result" where
  "apply_once se lv db marker bucketKey g ob st =
     (if marker \<in> op_key ` set (sg_operations st) \<or> present lv db marker then Inr st
      else and_then (applyDeviceHealthObservation (se_parse se) (pending_or_stored lv db (sg_pending st) bucketKey) ob g
                       (rt_expectedIntervalMs (se_retention se))) (\<lambda>b.
        Inr (st\<lparr>sg_pending := map_set (sg_pending st) bucketKey b,
                sg_operations := sg_operations st @ [Put marker (Stored_marker
                  \<lparr>rm_sampleId = ho_sampleId ob, rm_bucketKey = bucketKey, rm_observedAt = ho_observedAt ob\<rparr>)]\<rparr>)))"

definition hourly_marker :: "firmware_scope \<Rightarrow> jstr \<Rightarrow> health_observation \<Rightarrow> jstr result" where
  "hourly_marker scope d ob = healthKey ''marker'' scope d (js ''hourly:'' @ ho_observedAt ob @ js '':'' @ ho_sampleId ob)"

definition stageObservation ::
    "service \<Rightarrow> 'db level \<Rightarrow> 'db \<Rightarrow> firmware_scope \<Rightarrow> jstr \<Rightarrow> jstr \<Rightarrow> firmware_snapshot \<Rightarrow> staged \<Rightarrow> staged result" where
  "stageObservation se lv db scope d physicalId sn st =
     (let ob = observationFor (se_digest se) scope d physicalId sn in
      and_then (hourly_marker scope d ob) (\<lambda>marker.
      and_then (utcBucketStart (se_parse se) (ho_observedAt ob) Hourly) (\<lambda>hour.
      and_then (healthKey ''hourly'' scope d hour) (\<lambda>bucketKey.
      and_then (apply_once se lv db marker bucketKey Hourly ob st) (\<lambda>st'.
      and_then (utcBucketStart (se_parse se) (ho_observedAt ob) Daily) (\<lambda>day.
        Inr (st'\<lparr>sg_affectedDays := set_add (sg_affectedDays st') day\<rparr>)))))))"

definition stageLateDaily ::
    "service \<Rightarrow> 'db level \<Rightarrow> 'db \<Rightarrow> firmware_scope \<Rightarrow> jstr \<Rightarrow> jstr \<Rightarrow> firmware_snapshot \<Rightarrow> staged \<Rightarrow> staged result" where
  "stageLateDaily se lv db scope d physicalId sn st =
     (let ob = observationFor (se_digest se) scope d physicalId sn in
      and_then (healthKey ''marker'' scope d (js ''late-daily:'' @ ho_observedAt ob @ js '':'' @ ho_sampleId ob)) (\<lambda>marker.
        if marker \<in> op_key ` set (sg_operations st) \<or> present lv db marker then Inr st
        else
          and_then (utcBucketStart (se_parse se) (ho_observedAt ob) Daily) (\<lambda>day.
          and_then (healthKey ''daily'' scope d day) (\<lambda>bucketKey.
            apply_once se lv db marker bucketKey Daily ob st))))"

definition stage_snapshot ::
    "service \<Rightarrow> 'db level \<Rightarrow> 'db \<Rightarrow> firmware_scope \<Rightarrow> jstr \<Rightarrow> jstr \<Rightarrow> jnum \<Rightarrow> staged \<Rightarrow> firmware_snapshot \<Rightarrow> staged result" where
  "stage_snapshot se lv db scope d physicalId cutoff st sn =
     (if jless (tm (se_parse se) (sn_collectedAt sn)) cutoff
      then and_then (utcBucketStart (se_parse se) (sn_collectedAt sn) Daily) (\<lambda>day.
             stageLateDaily se lv db scope d physicalId sn
               (st\<lparr>sg_affectedDays := set_add (sg_affectedDays st) day\<rparr>))
      else stageObservation se lv db scope d physicalId sn st)"

text \<open>The stored and pending hours of a day.\<close>

definition hour_of_day ::
    "'db level \<Rightarrow> 'db \<Rightarrow> firmware_scope \<Rightarrow> jstr \<Rightarrow> (jstr \<times> bucket_summary) list \<Rightarrow> jnum \<Rightarrow> nat
      \<Rightarrow> bucket_summary option result" where
  "hour_of_day lv db scope d pending start i =
     and_then (to_iso (time_clip (jadd start (Fin (of_nat (i * 3600000)))))) (\<lambda>t.
     and_then (healthKey ''hourly'' scope d t) (\<lambda>k. Inr (pending_or_stored lv db pending k)))"

definition readUtcDayHours ::
    "service \<Rightarrow> 'db level \<Rightarrow> 'db \<Rightarrow> firmware_scope \<Rightarrow> jstr \<Rightarrow> jstr \<Rightarrow> (jstr \<times> bucket_summary) list
      \<Rightarrow> bucket_summary list result" where
  "readUtcDayHours se lv db scope d dayStartAt pending =
     and_then (map_result (hour_of_day lv db scope d pending (tm (se_parse se) dayStartAt)) [0..<24]) (\<lambda>hours.
       Inr (List.map_filter id hours))"

definition rebuild_day ::
    "service \<Rightarrow> 'db level \<Rightarrow> 'db \<Rightarrow> firmware_scope \<Rightarrow> jstr \<Rightarrow> jnum \<Rightarrow> (jstr \<times> bucket_summary) list \<Rightarrow> jstr
      \<Rightarrow> (jstr \<times> bucket_summary) list result" where
  "rebuild_day se lv db scope d cutoff pending day =
     and_then (readUtcDayHours se lv db scope d day pending) (\<lambda>hourly.
       if jless (tm (se_parse se) day) cutoff then Inr pending
       else and_then (summarizeDailyFromHourly (se_parse se) hourly day (rt_expectedIntervalMs (se_retention se))) (\<lambda>daily.
         (case daily of
            None \<Rightarrow> Inr pending
          | Some b \<Rightarrow> and_then (healthKey ''daily'' scope d day) (\<lambda>k. Inr (map_set pending k b)))))"

subsection \<open>Retention\<close>

definition shouldSweep :: "service \<Rightarrow> jstr option \<Rightarrow> jstr \<Rightarrow> bool" where
  "shouldSweep se lastSweep now =
     (case filled_text lastSweep of
        None \<Rightarrow> True
      | Some t \<Rightarrow> jle (rt_retentionSweepIntervalMs (se_retention se))
          (jsub (tm (se_parse se) now) (tm (se_parse se) t)))"

text \<open>\<open>value[timestampField]\<close> of a row read under the prefix of a kind.\<close>

datatype row_kind = Hourly_row | Daily_row | Event_evidence_row | Failure_evidence_row

definition row_kind_name :: "row_kind \<Rightarrow> string" where
  "row_kind_name k = (case k of Hourly_row \<Rightarrow> ''hourly'' | Daily_row \<Rightarrow> ''daily''
     | Event_evidence_row \<Rightarrow> ''event'' | Failure_evidence_row \<Rightarrow> ''failure'')"

definition row_time :: "row_kind \<Rightarrow> stored \<Rightarrow> jstr" where
  "row_time k v = (case (k, v) of
     (Hourly_row, Stored_bucket b) \<Rightarrow> bs_bucketStartAt b
   | (Daily_row, Stored_bucket b) \<Rightarrow> bs_bucketStartAt b
   | (Event_evidence_row, Stored_event _ e) \<Rightarrow> fe_observedAt e
   | (Failure_evidence_row, Stored_failure _ f) \<Rightarrow> cf_attemptedAt f
   | _ \<Rightarrow> [])"

definition row_policies :: "retention \<Rightarrow> (row_kind \<times> jnum) list" where
  "row_policies r =
     [(Hourly_row, rt_hourlySummaryDays r), (Daily_row, rt_dailySummaryDays r),
      (Event_evidence_row, rt_significantEventDays r), (Failure_evidence_row, rt_communicationFailureDays r)]"

definition expired_row :: "service \<Rightarrow> jstr \<Rightarrow> jnum \<Rightarrow> row_kind \<Rightarrow> stored \<Rightarrow> bool" where
  "expired_row se now days k v \<longleftrightarrow> is_finite (tm (se_parse se) (row_time k v))
     \<and> jless (tm (se_parse se) (row_time k v)) (days_before se now days)"

definition expired_rows ::
    "service \<Rightarrow> 'db level \<Rightarrow> 'db \<Rightarrow> firmware_scope \<Rightarrow> jstr \<Rightarrow> jstr \<Rightarrow> row_kind \<times> jnum \<Rightarrow> batch_op list result" where
  "expired_rows se lv db scope d now p =
     and_then (healthKey (row_kind_name (fst p)) scope d []) (\<lambda>pre.
       Inr (map (\<lambda>e. Del (fst e))
         (List.filter (\<lambda>e. expired_row se now (snd p) (fst p) (snd e)) (lv_range lv db pre (pre @ [255])))))"

definition marker_policies :: "retention \<Rightarrow> (string \<times> jnum) list" where
  "marker_policies r = [(''hourly'', rt_hourlySummaryDays r), (''late-daily'', rt_dailySummaryDays r)]"

definition expired_markers ::
    "service \<Rightarrow> 'db level \<Rightarrow> 'db \<Rightarrow> firmware_scope \<Rightarrow> jstr \<Rightarrow> jstr \<Rightarrow> string \<times> jnum \<Rightarrow> batch_op list result" where
  "expired_markers se lv db scope d now p =
     and_then (healthKey ''marker'' scope d (js (fst p) @ js '':'')) (\<lambda>pre.
     and_then (to_iso (time_clip (days_before se now (snd p)))) (\<lambda>cutoff.
       Inr (map (\<lambda>e. Del (fst e)) (lv_range lv db pre (pre @ cutoff @ [255])))))"

definition retentionDeletes ::
    "service \<Rightarrow> 'db level \<Rightarrow> 'db \<Rightarrow> firmware_scope \<Rightarrow> jstr \<Rightarrow> jstr \<Rightarrow> batch_op list result" where
  "retentionDeletes se lv db scope d now =
     and_then (map_result (expired_rows se lv db scope d now) (row_policies (se_retention se))) (\<lambda>rows.
     and_then (map_result (expired_markers se lv db scope d now) (marker_policies (se_retention se))) (\<lambda>markers.
       Inr (concat rows @ concat markers)))"

subsection \<open>The calls of the service\<close>

definition row_of :: "firmware_scope \<Rightarrow> jstr \<Rightarrow> jstr \<Rightarrow> row_scope" where
  "row_of scope d physicalId =
     \<lparr>rs_tenantId = fs_tenantId scope, rs_siteId = fs_siteId scope, rs_deviceId = d, rs_physicalDeviceId = physicalId\<rparr>"

definition index_op :: "firmware_scope \<Rightarrow> jstr \<Rightarrow> jstr \<Rightarrow> batch_op result" where
  "index_op scope d physicalId =
     and_then (siteDeviceIndexPrefix scope) (\<lambda>pre. and_then (encodeURIComponent d) (\<lambda>e.
       Inr (Put (pre @ e) (Stored_index (row_of scope d physicalId)))))"

definition event_op :: "firmware_scope \<Rightarrow> jstr \<Rightarrow> jstr \<Rightarrow> firmware_event \<Rightarrow> batch_op result" where
  "event_op scope d physicalId e =
     and_then (healthKey ''event'' scope d (fe_id e)) (\<lambda>k.
       Inr (Put k (Stored_event (row_of scope d physicalId) (withEventProvenance e))))"

definition failure_op :: "firmware_scope \<Rightarrow> jstr \<Rightarrow> jstr \<Rightarrow> collection_failure \<Rightarrow> batch_op result" where
  "failure_op scope d physicalId f =
     and_then (healthKey ''failure'' scope d (cf_id f)) (\<lambda>k.
       Inr (Put k (Stored_failure (row_of scope d physicalId) f)))"

text \<open>
  The evidence rows: the events and failures to persist, the marks that old ones have been migrated.
\<close>

definition evidence_ops ::
    "'db level \<Rightarrow> 'db \<Rightarrow> firmware_scope \<Rightarrow> jstr \<Rightarrow> jstr \<Rightarrow> (bool \<Rightarrow> firmware_event list)
      \<Rightarrow> (bool \<Rightarrow> collection_failure list) \<Rightarrow> jstr \<Rightarrow> batch_op list result" where
  "evidence_ops lv db scope d physicalId events failures now =
     and_then (healthKey ''meta'' scope d (js ''events-v1-migrated'')) (\<lambda>ek.
     and_then (healthKey ''meta'' scope d (js ''failures-v1-migrated'')) (\<lambda>fk.
       let me = \<not> present lv db ek; mf = \<not> present lv db fk in
       and_then (map_result (event_op scope d physicalId) (events me)) (\<lambda>eops.
       and_then (map_result (failure_op scope d physicalId) (failures mf)) (\<lambda>fops.
         Inr (eops @ fops @ (if me then [Put ek (Stored_migration now)] else [])
              @ (if mf then [Put fk (Stored_migration now)] else []))))))"

text \<open>The sweep, when it is due, and the view with the instant of the last sweep.\<close>

definition sweep ::
    "service \<Rightarrow> 'db level \<Rightarrow> 'db \<Rightarrow> firmware_scope \<Rightarrow> jstr \<Rightarrow> jstr \<Rightarrow> firmware_view \<Rightarrow> (batch_op list \<times> firmware_view) result" where
  "sweep se lv db scope d now view =
     (if shouldSweep se (fv_lastRetentionSweepAt view) now
      then and_then (retentionDeletes se lv db scope d now) (\<lambda>ops.
             Inr (ops, view\<lparr>fv_lastRetentionSweepAt := Some now\<rparr>))
      else Inr ([], view))"

definition blank_scope :: "firmware_scope \<Rightarrow> bool" where
  "blank_scope scope \<longleftrightarrow> js_trim (fs_tenantId scope) = [] \<or> js_trim (fs_siteId scope) = []"

definition nothing_staged :: staged where
  "nothing_staged = \<lparr>sg_pending = [], sg_operations = [], sg_affectedDays = []\<rparr>"

text \<open>The snapshots of a view that was stored before there were rollups.\<close>

definition legacy_of :: "firmware_view option \<Rightarrow> firmware_snapshot list" where
  "legacy_of prev = (case prev of
     Some v \<Rightarrow> if filled_text (fv_historyBackfilledThroughAt v) = None then fv_snapshots v else [] | None \<Rightarrow> [])"

definition rollup_ops ::
    "service \<Rightarrow> 'db level \<Rightarrow> 'db \<Rightarrow> firmware_scope \<Rightarrow> jstr \<Rightarrow> jstr \<Rightarrow> firmware_view option \<Rightarrow> firmware_snapshot \<Rightarrow> jstr
      \<Rightarrow> batch_op list result" where
  "rollup_ops se lv db scope d physicalId prev sn now =
     (let cutoff = days_before se now (rt_hourlySummaryDays (se_retention se)) in
      and_then (fold_result (stage_snapshot se lv db scope d physicalId cutoff) (legacy_of prev @ [sn]) nothing_staged) (\<lambda>st.
      and_then (fold_result (rebuild_day se lv db scope d cutoff) (sg_affectedDays st) (sg_pending st)) (\<lambda>pending.
        Inr (sg_operations st @ map (\<lambda>(k, b). Put k (Stored_bucket b)) pending))))"

text \<open>The one batch of a recorded sample, and the view it writes last.\<close>

definition record_writes ::
    "service \<Rightarrow> 'db level \<Rightarrow> 'db \<Rightarrow> firmware_scope \<Rightarrow> jstr \<Rightarrow> jstr \<Rightarrow> firmware_view option \<Rightarrow> firmware_sample \<Rightarrow> jstr
      \<Rightarrow> (batch_op list \<times> firmware_view) result" where
  "record_writes se lv db scope d physicalId prev s now =
     and_then (deriveFirmwareHealthEvents (se_parse se) (se_digest se) (Option.bind prev fv_current) s now (events_of prev)) (\<lambda>new.
     let view = recorded_view se scope d prev s now new in
     and_then (rollup_ops se lv db scope d physicalId prev (new_snapshot s now) now) (\<lambda>rollups.
     and_then (index_op scope d physicalId) (\<lambda>index.
     and_then (evidence_ops lv db scope d physicalId
         (\<lambda>migrate. if migrate then all_events se prev new else map withEventProvenance new)
         (\<lambda>migrate. if migrate then failures_of prev else []) now) (\<lambda>evidence.
     and_then (sweep se lv db scope d now view) (\<lambda>(deletes, view').
       Inr (rollups @ [index] @ evidence @ deletes, view'))))))"

definition put_view :: "jstr \<Rightarrow> firmware_view \<Rightarrow> batch_op" where
  "put_view key v = Put key (Stored_view (stored_form v))"

definition record_sample ::
    "service \<Rightarrow> 'db level \<Rightarrow> 'db \<Rightarrow> firmware_scope \<Rightarrow> jstr \<Rightarrow> jstr \<Rightarrow> firmware_sample \<Rightarrow> jstr
      \<Rightarrow> ('db \<times> firmware_view) result" where
  "record_sample se lv db scope d physicalId s now =
     (if fd_deviceId s \<noteq> physicalId \<or> \<not> physical_id_form physicalId \<or> blank_scope scope
        \<or> \<not> is_finite (tm (se_parse se) now)
      then throw ''Invalid firmware diagnostics evidence''
      else and_then (diagnosticsKey scope d) (\<lambda>key.
           and_then (record_writes se lv db scope d physicalId (previous_view lv db key scope) s now) (\<lambda>(ops, view).
             Inr (lv_batch lv db (ops @ [put_view key view]), view))))"

definition reason_name :: "firmware_failure_reason \<Rightarrow> jstr" where
  "reason_name r = (case r of Request_timeout \<Rightarrow> js ''request_timeout'' | Identity_mismatch \<Rightarrow> js ''identity_mismatch''
     | Identity_request_failed \<Rightarrow> js ''identity_request_failed'' | Endpoint_unverified \<Rightarrow> js ''endpoint_unverified''
     | Scope_rejected \<Rightarrow> js ''scope_rejected'' | Diagnostics_http_error \<Rightarrow> js ''diagnostics_http_error''
     | Response_invalid \<Rightarrow> js ''response_invalid'' | Collector_error \<Rightarrow> js ''collector_error'')"

definition failureId :: "(jstr \<Rightarrow> jstr) \<Rightarrow> jstr \<Rightarrow> jstr \<Rightarrow> firmware_failure_reason \<Rightarrow> jstr" where
  "failureId digest d attemptedAt r = take 24 (digest (d @ [0] @ attemptedAt @ [0] @ reason_name r))"

definition failed_view ::
    "firmware_scope \<Rightarrow> jstr \<Rightarrow> firmware_view option \<Rightarrow> collection_failure \<Rightarrow> firmware_view" where
  "failed_view scope d prev f =
     \<lparr>fv_deviceId = d, fv_tenantId = fs_tenantId scope, fv_siteId = fs_siteId scope,
       fv_sampledAt = (case prev of Some v \<Rightarrow> fv_sampledAt v | None \<Rightarrow> []),
       fv_current = Option.bind prev fv_current,
       fv_snapshots = snapshots_of prev,
       fv_lastAttemptAt = cf_attemptedAt f,
       fv_lastSuccessfulContactAt = filled_text (Option.bind prev fv_lastSuccessfulContactAt),
       fv_collectionStatus = Failed_collection,
       fv_collectionFailures = slice_from (Fin (- 1440))
         ((failures_of prev) @ [f]),
       fv_events = map withEventProvenance (events_of prev),
       fv_restartCount10m = (case prev of Some v \<Rightarrow> fv_restartCount10m v | None \<Rightarrow> 0),
       fv_connectivity = (case prev of Some v \<Rightarrow> fv_connectivity v | None \<Rightarrow> Link_unknown),
       fv_historyBackfilledThroughAt = Option.bind prev fv_historyBackfilledThroughAt,
       fv_lastRetentionSweepAt = Option.bind prev fv_lastRetentionSweepAt\<rparr>"

definition own_view :: "jstr \<Rightarrow> firmware_view option \<Rightarrow> firmware_view option" where
  "own_view d prev = (case prev of Some v \<Rightarrow> if fv_deviceId v = d then Some v else None | None \<Rightarrow> None)"

definition failure_writes ::
    "service \<Rightarrow> 'db level \<Rightarrow> 'db \<Rightarrow> firmware_scope \<Rightarrow> jstr \<Rightarrow> jstr \<Rightarrow> firmware_view option \<Rightarrow> collection_failure
      \<Rightarrow> (batch_op list \<times> firmware_view) result" where
  "failure_writes se lv db scope d physicalId prev f =
     (let view = failed_view scope d prev f; now = cf_attemptedAt f in
      and_then (index_op scope d physicalId) (\<lambda>index.
      and_then (evidence_ops lv db scope d physicalId (\<lambda>migrate. if migrate then fv_events view else [])
          (\<lambda>migrate. (if migrate then failures_of prev else []) @ [f]) now) (\<lambda>evidence.
      and_then (sweep se lv db scope d now view) (\<lambda>(deletes, view').
        Inr ([index] @ evidence @ deletes, view')))))"

definition record_failure ::
    "service \<Rightarrow> 'db level \<Rightarrow> 'db \<Rightarrow> firmware_scope \<Rightarrow> jstr \<Rightarrow> jstr \<Rightarrow> firmware_failure_reason \<Rightarrow> jstr \<Rightarrow> collection_context option
      \<Rightarrow> ('db \<times> firmware_view) result" where
  "record_failure se lv db scope d physicalId r now context =
     (if \<not> physical_id_form physicalId \<or> blank_scope scope \<or> \<not> is_finite (tm (se_parse se) now)
      then throw ''Invalid firmware diagnostics collection failure''
      else and_then (diagnosticsKey scope d) (\<lambda>key.
           and_then (failure_writes se lv db scope d physicalId (own_view d (previous_view lv db key scope))
               \<lparr>cf_id = failureId (se_digest se) d now r, cf_attemptedAt = now, cf_reason = r, cf_context = context\<rparr>)
             (\<lambda>(ops, view). Inr (lv_batch lv db (ops @ [put_view key view]), view))))"

definition get_view :: "'db level \<Rightarrow> 'db \<Rightarrow> firmware_scope \<Rightarrow> jstr \<Rightarrow> firmware_view option result" where
  "get_view lv db scope d =
     and_then (diagnosticsKey scope d) (\<lambda>key.
       Inr (case getValue lv db key of
          Some v \<Rightarrow> if same_scope scope v \<and> fv_deviceId v = d
            then Some (v\<lparr>fv_events := map withEventProvenance (fv_events v)\<rparr>) else None
        | None \<Rightarrow> None))"

subsection \<open>What the service relies on of its database\<close>

text \<open>
  A batch is its operations one after the other, and a read over the keys from \<open>p\<close> to \<open>p @ x\<close> returns
  stored entries whose keys begin with \<open>p\<close>.
\<close>

definition apply_op :: "jstr \<Rightarrow> stored option \<Rightarrow> batch_op \<Rightarrow> stored option" where
  "apply_op k old op = (case op of Put k' v \<Rightarrow> if k' = k then Some v else old | Del k' \<Rightarrow> if k' = k then None else old)"

definition level_laws :: "'db level \<Rightarrow> bool" where
  "level_laws lv \<longleftrightarrow>
     (\<forall>db ops k. lv_get lv (lv_batch lv db ops) k = foldl (apply_op k) (lv_get lv db k) ops)
     \<and> (\<forall>db p x k v. (k, v) \<in> set (lv_range lv db p (p @ x)) \<longrightarrow> prefix p k \<and> lv_get lv db k = Some v)"

lemma laws_batch: "level_laws lv \<Longrightarrow> lv_get lv (lv_batch lv db ops) k = foldl (apply_op k) (lv_get lv db k) ops"
  by (simp add: level_laws_def)

lemma laws_range: "level_laws lv \<Longrightarrow> (k, v) \<in> set (lv_range lv db p (p @ x)) \<Longrightarrow> prefix p k \<and> lv_get lv db k = Some v"
  unfolding level_laws_def by blast

lemma apply_op_other: "op_key op \<noteq> k \<Longrightarrow> apply_op k old op = old"
  by (cases op) (simp_all add: apply_op_def)

lemma apply_ops_other: "k \<notin> op_key ` set ops \<Longrightarrow> foldl (apply_op k) old ops = old"
  by (induction ops arbitrary: old) (auto simp: apply_op_other)

text \<open>What a key can hold after some operations: what it held, or what one of them wrote.\<close>

lemma apply_op_Some: "apply_op k old op = Some v \<Longrightarrow> old = Some v \<or> op = Put k v"
  by (simp add: apply_op_def split: batch_op.splits if_splits)

lemma apply_ops_cases: "foldl (apply_op k) old ops = Some v \<Longrightarrow> old = Some v \<or> Put k v \<in> set ops"
proof (induction ops arbitrary: old)
  case Nil
  then show ?case by simp
next
  case (Cons op ops)
  from Cons.IH [of "apply_op k old op"] Cons.prems apply_op_Some [of k old op v] show ?case by auto
qed

lemma apply_put_stays:
  assumes "Put k v \<in> set ops" "\<And>op. op \<in> set ops \<Longrightarrow> op_key op = k \<Longrightarrow> \<exists>w. op = Put k w"
  shows "foldl (apply_op k) old ops \<noteq> None"
  using assms
proof (induction ops arbitrary: old rule: rev_induct)
  case Nil
  then show ?case by simp
next
  case (snoc op ops)
  show ?case
  proof (cases "op_key op = k")
    case True
    then obtain w where "op = Put k w" using snoc.prems(2) [of op] by auto
    then show ?thesis by (simp add: apply_op_def)
  next
    case False
    then have "Put k v \<in> set ops" using snoc.prems(1) by auto
    then have "foldl (apply_op k) old ops \<noteq> None" using snoc.IH [of old] snoc.prems(2) by auto
    then show ?thesis using False by (simp add: apply_op_other)
  qed
qed

subsection \<open>Which keys a call writes\<close>

definition kind_prefix :: "string \<Rightarrow> jstr" where
  "kind_prefix kind = js ''device-health:'' @ js kind @ js '':''"

definition health_prefix :: jstr where
  "health_prefix = js ''device-health:''"

definition view_prefix :: jstr where
  "view_prefix = js ''firmware-diagnostics:''"

lemma healthKey_prefix: "healthKey kind scope d suff = Inr k \<Longrightarrow> prefix (kind_prefix kind) k"
  by (auto simp: healthKey_def kind_prefix_def and_then_Inr_iff)

lemma kind_health: "prefix (kind_prefix kind) k \<Longrightarrow> prefix health_prefix k"
  by (auto simp: kind_prefix_def health_prefix_def prefix_def)

lemma healthKey_health: "healthKey kind scope d suff = Inr k \<Longrightarrow> prefix health_prefix k"
  by (rule kind_health [OF healthKey_prefix])

lemma diagnosticsKey_prefix: "diagnosticsKey scope d = Inr k \<Longrightarrow> prefix view_prefix k"
  by (auto simp: diagnosticsKey_def view_prefix_def and_then_Inr_iff split: if_splits)

lemma view_not_health: "prefix view_prefix k \<Longrightarrow> \<not> prefix health_prefix k"
  by (auto simp: view_prefix_def health_prefix_def prefix_def js_def)

lemma kinds_differ:
  assumes "prefix (kind_prefix a) k" "prefix (kind_prefix b) k" "58 \<notin> set (js a)" "58 \<notin> set (js b)"
  shows "a = b"
proof -
  obtain r r' where "k = js ''device-health:'' @ js a @ js '':'' @ r" "k = js ''device-health:'' @ js b @ js '':'' @ r'"
    using assms(1,2) unfolding kind_prefix_def prefix_def by (metis append.assoc)
  then have "js a @ 58 # r = js b @ 58 # r'" by (simp add: js_def)
  from colon_split [OF assms(3,4) this] show ?thesis by simp
qed

definition health_ops :: "batch_op list \<Rightarrow> bool" where
  "health_ops ops \<longleftrightarrow> (\<forall>op\<in>set ops. prefix health_prefix (op_key op))"

lemma health_ops_simps [simp]:
  "health_ops []" "health_ops (op # ops) \<longleftrightarrow> prefix health_prefix (op_key op) \<and> health_ops ops"
  "health_ops (a @ b) \<longleftrightarrow> health_ops a \<and> health_ops b"
  by (auto simp: health_ops_def)

definition is_put :: "batch_op \<Rightarrow> bool" where
  "is_put op \<longleftrightarrow> (\<exists>v. op = Put (op_key op) v)"

lemma is_put_Put [simp]: "is_put (Put k v)"
  by (simp add: is_put_def)

text \<open>What holds of every bucket key staged so far; the operations staged with them put markers.\<close>

definition staged_in :: "(jstr \<Rightarrow> bool) \<Rightarrow> staged \<Rightarrow> bool" where
  "staged_in P st \<longleftrightarrow> (\<forall>k\<in>fst ` set (sg_pending st). P k)
     \<and> (\<forall>op\<in>set (sg_operations st). prefix (kind_prefix ''marker'') (op_key op) \<and> is_put op)"

lemma keys_map_set: "fst ` set (map_set m k v) = insert k (fst ` set m)"
proof -
  have "fst ` set (replace_entry k v m) = fst ` set m"
    by (metis keys_replace_entry set_map)
  then show ?thesis by (auto simp: map_set_def)
qed

lemma fold_result_invariant:
  assumes "fold_result f xs s = Inr s'" "I s" "\<And>x s s'. x \<in> set xs \<Longrightarrow> f s x = Inr s' \<Longrightarrow> I s \<Longrightarrow> I s'"
  shows "I s'"
  using assms
proof (induction xs arbitrary: s)
  case Nil
  then show ?case by simp
next
  case (Cons x xs)
  then obtain s1 where s1: "f s x = Inr s1" "fold_result f xs s1 = Inr s'" by (auto simp: and_then_Inr_iff)
  have "I s1" using Cons.prems(3) [OF _ s1(1)] Cons.prems(2) by simp
  then show ?case
    by (rule Cons.IH [OF s1(2)]) (metis Cons.prems(3) list.set_intros(2))
qed

lemma apply_once_staged:
  assumes "apply_once se lv db marker bucketKey g ob st = Inr st'" "staged_in P st" "P bucketKey"
    and "prefix (kind_prefix ''marker'') marker"
  shows "staged_in P st'"
proof (cases "marker \<in> op_key ` set (sg_operations st) \<or> present lv db marker")
  case True
  then show ?thesis using assms(1,2) by (simp add: apply_once_def)
next
  case False
  then obtain b where b: "st' = st\<lparr>sg_pending := map_set (sg_pending st) bucketKey b,
      sg_operations := sg_operations st @ [Put marker (Stored_marker
        \<lparr>rm_sampleId = ho_sampleId ob, rm_bucketKey = bucketKey, rm_observedAt = ho_observedAt ob\<rparr>)]\<rparr>"
    using assms(1) by (auto simp: apply_once_def and_then_Inr_iff)
  show ?thesis using assms(2-4) unfolding b staged_in_def by (simp add: keys_map_set)
qed

lemma staged_days [simp]: "staged_in P (st\<lparr>sg_affectedDays := x\<rparr>) \<longleftrightarrow> staged_in P st"
  by (simp add: staged_in_def)

lemma stageObservation_staged:
  assumes "stageObservation se lv db scope d physicalId sn st = Inr st'" "staged_in P st"
    and "\<And>k. prefix (kind_prefix ''hourly'') k \<Longrightarrow> P k"
  shows "staged_in P st'"
proof -
  obtain marker hour bucketKey st1 day where h:
      "hourly_marker scope d (observationFor (se_digest se) scope d physicalId sn) = Inr marker"
      "healthKey ''hourly'' scope d hour = Inr bucketKey"
      "apply_once se lv db marker bucketKey Hourly (observationFor (se_digest se) scope d physicalId sn) st = Inr st1"
      "st' = st1\<lparr>sg_affectedDays := set_add (sg_affectedDays st1) day\<rparr>"
    using assms(1) by (auto simp: stageObservation_def Let_def and_then_Inr_iff)
  have "staged_in P st1"
    using apply_once_staged [OF h(3) assms(2) assms(3) [OF healthKey_prefix [OF h(2)]]
        healthKey_prefix [OF h(1) [unfolded hourly_marker_def]]] .
  then show ?thesis using h(4) by simp
qed

lemma stageLateDaily_staged:
  assumes "stageLateDaily se lv db scope d physicalId sn st = Inr st'" "staged_in P st"
    and "\<And>k. prefix (kind_prefix ''daily'') k \<Longrightarrow> P k"
  shows "staged_in P st'"
proof -
  let ?ob = "observationFor (se_digest se) scope d physicalId sn"
  obtain marker where m: "healthKey ''marker'' scope d (js ''late-daily:'' @ ho_observedAt ?ob @ js '':'' @ ho_sampleId ?ob)
      = Inr marker"
    using assms(1) by (auto simp: stageLateDaily_def Let_def and_then_Inr_iff)
  show ?thesis
  proof (cases "marker \<in> op_key ` set (sg_operations st) \<or> present lv db marker")
    case True
    then show ?thesis using assms(1,2) m by (simp add: stageLateDaily_def Let_def)
  next
    case False
    then obtain day bucketKey where h: "healthKey ''daily'' scope d day = Inr bucketKey"
        "apply_once se lv db marker bucketKey Daily ?ob st = Inr st'"
      using assms(1) m by (auto simp: stageLateDaily_def Let_def and_then_Inr_iff simp del: not_None_eq split: if_splits)
    show ?thesis
      using apply_once_staged [OF h(2) assms(2) assms(3) [OF healthKey_prefix [OF h(1)]] healthKey_prefix [OF m]] .
  qed
qed

lemma stage_snapshot_staged:
  assumes "stage_snapshot se lv db scope d physicalId cutoff st sn = Inr st'" "staged_in P st"
    and "\<And>k. prefix (kind_prefix ''daily'') k \<Longrightarrow> P k" "\<And>k. prefix (kind_prefix ''hourly'') k \<Longrightarrow> P k"
  shows "staged_in P st'"
proof (cases "jless (tm (se_parse se) (sn_collectedAt sn)) cutoff")
  case True
  then obtain day where day: "stageLateDaily se lv db scope d physicalId sn
      (st\<lparr>sg_affectedDays := set_add (sg_affectedDays st) day\<rparr>) = Inr st'"
    using assms(1) by (auto simp: stage_snapshot_def and_then_Inr_iff)
  show ?thesis by (rule stageLateDaily_staged [OF day _ assms(3)]) (simp_all add: assms(2))
next
  case False
  then show ?thesis using assms(1) stageObservation_staged [OF _ assms(2,4)] by (simp add: stage_snapshot_def)
qed

lemma rebuild_day_keys:
  assumes "rebuild_day se lv db scope d cutoff pending day = Inr pending'"
    and "\<And>k. k \<in> fst ` set pending \<Longrightarrow> P k" "\<And>k. prefix (kind_prefix ''daily'') k \<Longrightarrow> P k"
    and "k \<in> fst ` set pending'"
  shows "P k"
proof -
  obtain hourly where "readUtcDayHours se lv db scope d day pending = Inr hourly"
    using assms(1) by (auto simp: rebuild_day_def and_then_Inr_iff)
  then have "pending' = pending \<or> (\<exists>b k'. healthKey ''daily'' scope d day = Inr k' \<and> pending' = map_set pending k' b)"
    using assms(1) by (auto simp: rebuild_day_def and_then_Inr_iff split: if_splits option.splits)
  then show ?thesis
  proof
    assume "pending' = pending"
    then show ?thesis using assms(2,4) by simp
  next
    assume "\<exists>b k'. healthKey ''daily'' scope d day = Inr k' \<and> pending' = map_set pending k' b"
    then obtain b k' where k': "healthKey ''daily'' scope d day = Inr k'" "fst ` set pending' = insert k' (fst ` set pending)"
      using keys_map_set by metis
    with assms(4) have "k = k' \<or> k \<in> fst ` set pending" by simp
    then show ?thesis using assms(2) assms(3) [OF healthKey_prefix [OF k'(1)]] by (elim disjE) simp_all
  qed
qed

lemma nothing_staged_in [simp]: "staged_in P nothing_staged"
  by (simp add: nothing_staged_def staged_in_def)

lemma rollup_parts:
  assumes "rollup_ops se lv db scope d physicalId prev sn now = Inr ops"
  obtains st pending where
    "fold_result (stage_snapshot se lv db scope d physicalId (days_before se now (rt_hourlySummaryDays (se_retention se))))
       (legacy_of prev @ [sn]) nothing_staged = Inr st"
    "fold_result (rebuild_day se lv db scope d (days_before se now (rt_hourlySummaryDays (se_retention se))))
       (sg_affectedDays st) (sg_pending st) = Inr pending"
    "ops = sg_operations st @ map (\<lambda>(k, b). Put k (Stored_bucket b)) pending"
  using assms by (auto simp: rollup_ops_def Let_def and_then_Inr_iff)

lemma rebuilt_keys:
  assumes "fold_result (rebuild_day se lv db scope d cutoff) days pending = Inr pending'"
    and "\<And>k. k \<in> fst ` set pending \<Longrightarrow> P k" "\<And>k. prefix (kind_prefix ''daily'') k \<Longrightarrow> P k"
    and "k \<in> fst ` set pending'"
  shows "P k"
proof -
  have "\<forall>k\<in>fst ` set pending'. P k"
  proof (rule fold_result_invariant [OF assms(1)])
    show "\<forall>k\<in>fst ` set pending. P k" using assms(2) by simp
  next
    fix day m m'
    assume r: "rebuild_day se lv db scope d cutoff m day = Inr m'" and m: "\<forall>k\<in>fst ` set m. P k"
    show "\<forall>k\<in>fst ` set m'. P k"
      by (rule ballI, rule rebuild_day_keys [OF r bspec [OF m] assms(3)])
  qed
  then show ?thesis using assms(4) by (rule bspec)
qed

lemma rollup_keys:
  assumes "rollup_ops se lv db scope d physicalId prev sn now = Inr ops" "op \<in> set ops"
  shows "is_put op" and "prefix health_prefix (op_key op)"
proof -
  let ?P = "prefix health_prefix"
  from rollup_parts [OF assms(1)] obtain st pending where r:
    "fold_result (stage_snapshot se lv db scope d physicalId (days_before se now (rt_hourlySummaryDays (se_retention se))))
       (legacy_of prev @ [sn]) nothing_staged = Inr st"
    "fold_result (rebuild_day se lv db scope d (days_before se now (rt_hourlySummaryDays (se_retention se))))
       (sg_affectedDays st) (sg_pending st) = Inr pending"
    "ops = sg_operations st @ map (\<lambda>(k, b). Put k (Stored_bucket b)) pending" .
  have st: "staged_in ?P st"
  proof (rule fold_result_invariant [OF r(1)])
    fix sn' s s'
    assume "stage_snapshot se lv db scope d physicalId (days_before se now (rt_hourlySummaryDays (se_retention se))) s sn' = Inr s'"
      and "staged_in ?P s"
    then show "staged_in ?P s'" by (rule stage_snapshot_staged) (erule kind_health)+
  qed simp
  have "?P k" if "k \<in> fst ` set pending" for k
  proof (rule rebuilt_keys [OF r(2) _ _ that])
    show "?P k" if "k \<in> fst ` set (sg_pending st)" for k using st that unfolding staged_in_def by blast
  qed (rule kind_health)
  then have "\<forall>e\<in>set pending. ?P (fst e)" by simp
  then show "prefix health_prefix (op_key op)" "is_put op"
    using st assms(2) kind_health by (auto simp: r(3) staged_in_def)
qed

lemma rollup_health: "rollup_ops se lv db scope d physicalId prev sn now = Inr ops \<Longrightarrow> health_ops ops"
  by (simp add: health_ops_def rollup_keys(2))

lemma index_health: "index_op scope d physicalId = Inr op \<Longrightarrow> prefix (kind_prefix ''index'') (op_key op) \<and> is_put op"
  by (auto simp: index_op_def siteDeviceIndexPrefix_def kind_prefix_def and_then_Inr_iff js_def)

lemma evidence_health:
  assumes "evidence_ops lv db scope d physicalId events failures now = Inr ops" "op \<in> set ops"
  shows "is_put op \<and> (\<exists>kind\<in>{''meta'', ''event'', ''failure''}. prefix (kind_prefix kind) (op_key op))"
proof -
  obtain ek fk eops fops where k: "healthKey ''meta'' scope d (js ''events-v1-migrated'') = Inr ek"
      "healthKey ''meta'' scope d (js ''failures-v1-migrated'') = Inr fk"
      "map_result (event_op scope d physicalId) (events (\<not> present lv db ek)) = Inr eops"
      "map_result (failure_op scope d physicalId) (failures (\<not> present lv db fk)) = Inr fops"
      "ops = eops @ fops @ (if \<not> present lv db ek then [Put ek (Stored_migration now)] else [])
              @ (if \<not> present lv db fk then [Put fk (Stored_migration now)] else [])"
    using assms(1) unfolding evidence_ops_def Let_def and_then_Inr_iff sum.inject by metis
  have e: "is_put op \<and> prefix (kind_prefix ''event'') (op_key op)" if "event_op scope d physicalId e = Inr op" for e
    using that healthKey_prefix by (auto simp: event_op_def and_then_Inr_iff)
  have f: "is_put op \<and> prefix (kind_prefix ''failure'') (op_key op)" if "failure_op scope d physicalId x = Inr op" for x
    using that healthKey_prefix by (auto simp: failure_op_def and_then_Inr_iff)
  consider "op \<in> set eops" | "op \<in> set fops" | "op = Put ek (Stored_migration now)" | "op = Put fk (Stored_migration now)"
    using assms(2) k(5) by (auto split: if_splits)
  then show ?thesis
  proof cases
    case 1
    then show ?thesis using map_result_member [OF k(3)] e by blast
  next
    case 2
    then show ?thesis using map_result_member [OF k(4)] f by blast
  qed (use healthKey_prefix [OF k(1)] healthKey_prefix [OF k(2)] in simp_all)
qed

text \<open>The deletions of a sweep: stored rows of the device.\<close>

lemma expired_rows_del:
  assumes "level_laws lv" "expired_rows se lv db scope d now p = Inr ops" "op \<in> set ops"
  shows "\<exists>k. op = Del k \<and> prefix health_prefix k \<and> lv_get lv db k \<noteq> None"
proof -
  obtain pre where pre: "healthKey (row_kind_name (fst p)) scope d [] = Inr pre"
      "ops = map (\<lambda>e. Del (fst e))
         (List.filter (\<lambda>e. expired_row se now (snd p) (fst p) (snd e)) (lv_range lv db pre (pre @ [255])))"
    using assms(2) by (auto simp: expired_rows_def and_then_Inr_iff)
  then obtain k v where "op = Del k" "(k, v) \<in> set (lv_range lv db pre (pre @ [255]))" using assms(3) by auto
  then show ?thesis using laws_range [OF assms(1)] healthKey_health [OF pre(1)] by (metis option.distinct(1) prefix_order.trans)
qed

lemma expired_markers_del:
  assumes "level_laws lv" "expired_markers se lv db scope d now p = Inr ops" "op \<in> set ops"
  shows "\<exists>k. op = Del k \<and> prefix health_prefix k \<and> lv_get lv db k \<noteq> None"
proof -
  obtain pre cutoff where pre: "healthKey ''marker'' scope d (js (fst p) @ js '':'') = Inr pre"
      "ops = map (\<lambda>e. Del (fst e)) (lv_range lv db pre (pre @ (cutoff @ [255])))"
    using assms(2) by (auto simp: expired_markers_def and_then_Inr_iff)
  then obtain k v where "op = Del k" "(k, v) \<in> set (lv_range lv db pre (pre @ (cutoff @ [255])))" using assms(3) by auto
  then show ?thesis using laws_range [OF assms(1)] healthKey_health [OF pre(1)] by (metis option.distinct(1) prefix_order.trans)
qed

lemma retention_del:
  assumes "level_laws lv" "retentionDeletes se lv db scope d now = Inr ops" "op \<in> set ops"
  shows "\<exists>k. op = Del k \<and> prefix health_prefix k \<and> lv_get lv db k \<noteq> None"
proof -
  obtain rows markers where r: "map_result (expired_rows se lv db scope d now) (row_policies (se_retention se)) = Inr rows"
      "map_result (expired_markers se lv db scope d now) (marker_policies (se_retention se)) = Inr markers"
      "ops = concat rows @ concat markers"
    using assms(2) by (auto simp: retentionDeletes_def and_then_Inr_iff)
  then consider os where "os \<in> set rows" "op \<in> set os" | os where "os \<in> set markers" "op \<in> set os"
    using assms(3) by auto
  then show ?thesis
  proof cases
    case 1
    then show ?thesis using map_result_member [OF r(1)] expired_rows_del [OF assms(1)] by blast
  next
    case 2
    then show ?thesis using map_result_member [OF r(2)] expired_markers_del [OF assms(1)] by blast
  qed
qed

lemma sweep_parts:
  assumes "level_laws lv" "sweep se lv db scope d now view = Inr (ops, view')"
  shows "\<exists>x. view' = view\<lparr>fv_lastRetentionSweepAt := x\<rparr>"
    and "op \<in> set ops \<Longrightarrow> \<exists>k. op = Del k \<and> prefix health_prefix k \<and> lv_get lv db k \<noteq> None"
    and "shouldSweep se (fv_lastRetentionSweepAt view) now \<Longrightarrow> fv_lastRetentionSweepAt view' = Some now"
    and "\<not> shouldSweep se (fv_lastRetentionSweepAt view) now \<Longrightarrow> ops = [] \<and> view' = view"
proof -
  show "\<not> shouldSweep se (fv_lastRetentionSweepAt view) now \<Longrightarrow> ops = [] \<and> view' = view"
    using assms(2) by (simp add: sweep_def)
  show "shouldSweep se (fv_lastRetentionSweepAt view) now \<Longrightarrow> fv_lastRetentionSweepAt view' = Some now"
    using assms(2) by (auto simp: sweep_def and_then_Inr_iff)
  have same: "\<exists>x. view = view\<lparr>fv_lastRetentionSweepAt := x\<rparr>"
    by (rule exI [of _ "fv_lastRetentionSweepAt view"]) simp
  show "\<exists>x. view' = view\<lparr>fv_lastRetentionSweepAt := x\<rparr>"
  proof (cases "shouldSweep se (fv_lastRetentionSweepAt view) now")
    case True
    then show ?thesis using assms(2) by (auto simp: sweep_def and_then_Inr_iff)
  next
    case False
    then show ?thesis using assms(2) same by (simp add: sweep_def)
  qed
  show "\<exists>k. op = Del k \<and> prefix health_prefix k \<and> lv_get lv db k \<noteq> None" if "op \<in> set ops"
    using assms(2) that retention_del [OF assms(1)] by (auto simp: sweep_def and_then_Inr_iff split: if_splits)
qed

lemma sweep_health: "level_laws lv \<Longrightarrow> sweep se lv db scope d now view = Inr (ops, view') \<Longrightarrow> health_ops ops"
  using sweep_parts(2) by (fastforce simp: health_ops_def)

subsection \<open>What a call leaves\<close>

lemma record_writes_parts:
  assumes "record_writes se lv db scope d physicalId prev s now = Inr (ops, v)"
  obtains new rollups index evidence deletes where
    "rollup_ops se lv db scope d physicalId prev (new_snapshot s now) now = Inr rollups"
    "index_op scope d physicalId = Inr index"
    "evidence_ops lv db scope d physicalId
       (\<lambda>migrate. if migrate then all_events se prev new else map withEventProvenance new)
       (\<lambda>migrate. if migrate then failures_of prev else []) now = Inr evidence"
    "sweep se lv db scope d now (recorded_view se scope d prev s now new) = Inr (deletes, v)"
    "ops = rollups @ [index] @ evidence @ deletes"
  using assms by (auto simp: record_writes_def Let_def and_then_Inr_iff split: prod.splits)

lemma failure_writes_parts:
  assumes "failure_writes se lv db scope d physicalId prev f = Inr (ops, v)"
  obtains index evidence deletes where
    "index_op scope d physicalId = Inr index"
    "evidence_ops lv db scope d physicalId (\<lambda>migrate. if migrate then fv_events (failed_view scope d prev f) else [])
       (\<lambda>migrate. (if migrate then failures_of prev else []) @ [f]) (cf_attemptedAt f) = Inr evidence"
    "sweep se lv db scope d (cf_attemptedAt f) (failed_view scope d prev f) = Inr (deletes, v)"
    "ops = [index] @ evidence @ deletes"
  using assms by (auto simp: failure_writes_def Let_def and_then_Inr_iff split: prod.splits)

lemma evidence_health_ops: "evidence_ops lv db scope d physicalId events failures now = Inr ops \<Longrightarrow> health_ops ops"
  unfolding health_ops_def by (metis evidence_health kind_health)

lemma index_health_op: "index_op scope d physicalId = Inr op \<Longrightarrow> prefix health_prefix (op_key op)"
  using index_health kind_health by blast

lemma record_writes_health:
  assumes "level_laws lv" "record_writes se lv db scope d physicalId prev s now = Inr (ops, v)"
  shows "health_ops ops" and "\<exists>new x. v = recorded_view se scope d prev s now new\<lparr>fv_lastRetentionSweepAt := x\<rparr>"
proof -
  from record_writes_parts [OF assms(2)] obtain new rollups index evidence deletes where w:
    "rollup_ops se lv db scope d physicalId prev (new_snapshot s now) now = Inr rollups"
    "index_op scope d physicalId = Inr index"
    "evidence_ops lv db scope d physicalId
       (\<lambda>migrate. if migrate then all_events se prev new else map withEventProvenance new)
       (\<lambda>migrate. if migrate then failures_of prev else []) now = Inr evidence"
    "sweep se lv db scope d now (recorded_view se scope d prev s now new) = Inr (deletes, v)"
    "ops = rollups @ [index] @ evidence @ deletes" .
  show "health_ops ops"
    using rollup_health [OF w(1)] index_health_op [OF w(2)] evidence_health_ops [OF w(3)] sweep_health [OF assms(1) w(4)]
    by (simp add: w(5))
  show "\<exists>new x. v = recorded_view se scope d prev s now new\<lparr>fv_lastRetentionSweepAt := x\<rparr>"
    using sweep_parts(1) [OF assms(1) w(4)] by blast
qed

lemma failure_writes_health:
  assumes "level_laws lv" "failure_writes se lv db scope d physicalId prev f = Inr (ops, v)"
  shows "health_ops ops" and "\<exists>x. v = failed_view scope d prev f\<lparr>fv_lastRetentionSweepAt := x\<rparr>"
proof -
  from failure_writes_parts [OF assms(2)] obtain index evidence deletes where w:
    "index_op scope d physicalId = Inr index"
    "evidence_ops lv db scope d physicalId (\<lambda>migrate. if migrate then fv_events (failed_view scope d prev f) else [])
       (\<lambda>migrate. (if migrate then failures_of prev else []) @ [f]) (cf_attemptedAt f) = Inr evidence"
    "sweep se lv db scope d (cf_attemptedAt f) (failed_view scope d prev f) = Inr (deletes, v)"
    "ops = [index] @ evidence @ deletes" .
  show "health_ops ops"
    using index_health_op [OF w(1)] evidence_health_ops [OF w(2)] sweep_health [OF assms(1) w(3)] by (simp add: w(4))
  show "\<exists>x. v = failed_view scope d prev f\<lparr>fv_lastRetentionSweepAt := x\<rparr>"
    using sweep_parts(1) [OF assms(1) w(3)] by blast
qed

text \<open>A call of the service, as far as its view goes: one batch of health rows and the view of the device.\<close>

definition writes_view ::
    "'db level \<Rightarrow> 'db \<Rightarrow> firmware_scope \<Rightarrow> jstr \<Rightarrow> 'db \<Rightarrow> firmware_view \<Rightarrow> bool" where
  "writes_view lv db scope d db' v \<longleftrightarrow> (\<exists>key ops. diagnosticsKey scope d = Inr key \<and> health_ops ops
     \<and> db' = lv_batch lv db (ops @ [put_view key v]))"

lemma record_sample_writes:
  assumes "level_laws lv" "record_sample se lv db scope d physicalId s now = Inr (db', v)"
  shows "writes_view lv db scope d db' v" and "is_finite (tm (se_parse se) now)"
    and "\<exists>key new x. diagnosticsKey scope d = Inr key
      \<and> v = recorded_view se scope d (previous_view lv db key scope) s now new\<lparr>fv_lastRetentionSweepAt := x\<rparr>"
proof -
  show "is_finite (tm (se_parse se) now)" using assms(2) by (auto simp: record_sample_def split: if_splits)
  obtain key ops where k: "diagnosticsKey scope d = Inr key"
      "record_writes se lv db scope d physicalId (previous_view lv db key scope) s now = Inr (ops, v)"
      "db' = lv_batch lv db (ops @ [put_view key v])"
    using assms(2) by (auto simp: record_sample_def and_then_Inr_iff split: if_splits prod.splits)
  show "writes_view lv db scope d db' v"
    using k(1,3) record_writes_health(1) [OF assms(1) k(2)] unfolding writes_view_def by blast
  show "\<exists>key new x. diagnosticsKey scope d = Inr key
      \<and> v = recorded_view se scope d (previous_view lv db key scope) s now new\<lparr>fv_lastRetentionSweepAt := x\<rparr>"
    using k(1) record_writes_health(2) [OF assms(1) k(2)] by blast
qed

lemma record_failure_writes:
  assumes "level_laws lv" "record_failure se lv db scope d physicalId r now context = Inr (db', v)"
  shows "writes_view lv db scope d db' v" and "is_finite (tm (se_parse se) now)"
    and "\<exists>key f x. diagnosticsKey scope d = Inr key \<and> cf_attemptedAt f = now
      \<and> v = failed_view scope d (own_view d (previous_view lv db key scope)) f\<lparr>fv_lastRetentionSweepAt := x\<rparr>"
proof -
  show "is_finite (tm (se_parse se) now)" using assms(2) by (auto simp: record_failure_def split: if_splits)
  let ?f = "\<lparr>cf_id = failureId (se_digest se) d now r, cf_attemptedAt = now, cf_reason = r, cf_context = context\<rparr>"
  obtain key ops where k: "diagnosticsKey scope d = Inr key"
      "failure_writes se lv db scope d physicalId (own_view d (previous_view lv db key scope)) ?f = Inr (ops, v)"
      "db' = lv_batch lv db (ops @ [put_view key v])"
    using assms(2) by (auto simp: record_failure_def and_then_Inr_iff split: if_splits prod.splits)
  show "writes_view lv db scope d db' v"
    using k(1,3) failure_writes_health(1) [OF assms(1) k(2)] unfolding writes_view_def by blast
  have "cf_attemptedAt ?f = now" by simp
  then show "\<exists>key f x. diagnosticsKey scope d = Inr key \<and> cf_attemptedAt f = now
      \<and> v = failed_view scope d (own_view d (previous_view lv db key scope)) f\<lparr>fv_lastRetentionSweepAt := x\<rparr>"
    using k(1) failure_writes_health(2) [OF assms(1) k(2)] by blast
qed

text \<open>Reading after such a call.\<close>

lemma read_written:
  assumes "level_laws lv" "writes_view lv db scope d db' v" "diagnosticsKey scope d = Inr key"
  shows "getValue lv db' key = Some (restored_view (stored_form v))"
  using assms by (auto simp: writes_view_def laws_batch getValue_def put_view_def apply_op_def)

lemma read_elsewhere:
  assumes "level_laws lv" "writes_view lv db scope d db' v" "diagnosticsKey scope d = Inr key"
    and "diagnosticsKey scope' d' = Inr key'" "key' \<noteq> key"
  shows "getValue lv db' key' = getValue lv db key'"
proof -
  obtain ops where ops: "health_ops ops" "db' = lv_batch lv db (ops @ [put_view key v])"
    using assms(2,3) by (auto simp: writes_view_def)
  have "key' \<notin> op_key ` set (ops @ [put_view key v])"
    using ops(1) assms(5) view_not_health [OF diagnosticsKey_prefix [OF assms(4)]]
    by (auto simp: health_ops_def put_view_def)
  then have "foldl (apply_op key') old (ops @ [put_view key v]) = old" for old by (rule apply_ops_other)
  then show ?thesis unfolding ops(2) getValue_def laws_batch [OF assms(1)] by (simp only:)
qed

subsection \<open>A recorded view is read back\<close>

lemma withEventProvenance_again: "withEventProvenance (withEventProvenance e) = withEventProvenance e"
  by (simp add: withEventProvenance_def kind_name_def js_def split: option.split list.split firmware_event_kind.split)

definition provenanced :: "firmware_event list \<Rightarrow> bool" where
  "provenanced es \<longleftrightarrow> (\<forall>e\<in>set es. withEventProvenance e = e)"

lemma provenanced_map [simp]: "provenanced (map withEventProvenance es)"
  by (simp add: provenanced_def withEventProvenance_again)

lemma provenanced_id: "provenanced es \<Longrightarrow> map withEventProvenance es = es"
  by (simp add: provenanced_def map_idI)

lemma set_slice_from: "set (slice_from n xs) \<subseteq> set xs"
  by (simp add: slice_from_def set_drop_subset)

lemma set_by_time [simp]: "set (by_time host f xs) = set xs"
  unfolding by_time_def by (metis mset_js_sort set_mset_mset)

lemma first_by_parts: "set (first_by f xs) \<subseteq> set xs" "distinct (map f (first_by f xs))"
proof -
  let ?step = "\<lambda>kept x. if f x \<in> f ` set kept then kept else kept @ [x]"
  have "set (foldl ?step kept xs) \<subseteq> set kept \<union> set xs \<and> (distinct (map f kept) \<longrightarrow> distinct (map f (foldl ?step kept xs)))" for kept
  proof (induction xs arbitrary: kept)
    case (Cons x xs)
    show ?case using Cons.IH [of "?step kept x"] by auto
  qed simp
  then show "set (first_by f xs) \<subseteq> set xs" "distinct (map f (first_by f xs))" by (fastforce simp: first_by_def)+
qed

lemma distinct_by_time: "distinct (map g (by_time host f xs)) = distinct (map g xs)"
proof -
  have "mset (map g (by_time host f xs)) = mset (map g xs)" by (simp add: by_time_def)
  then show ?thesis by (rule mset_eq_imp_distinct_iff)
qed

lemma provenanced_subset: "set es \<subseteq> set es' \<Longrightarrow> provenanced es' \<Longrightarrow> provenanced es"
  unfolding provenanced_def by blast

lemma recorded_events: "provenanced (fv_events (recorded_view se scope d prev s now new))"
proof -
  have "provenanced (map withEventProvenance (events_of prev) @ map withEventProvenance new)"
    by (auto simp: provenanced_def withEventProvenance_again)
  then have "provenanced (all_events se prev new)"
    unfolding all_events_def by (rule provenanced_subset [rotated]) (simp only: set_by_time first_by_parts(1))
  then show ?thesis using provenanced_subset [OF set_slice_from] by (simp add: recorded_view_def Let_def)
qed

lemma finite_time_text: "is_finite (tm host t) \<Longrightarrow> host [] = None \<Longrightarrow> t \<noteq> []"
  by (auto simp: tm_def date_parse_def parse_iso_def iso_shape_def iso_template_def parse_expanded_def expanded_shape_def time_num_def Let_def)

text \<open>A view whose texts are filled in is restored as it was stored.\<close>

definition filled_view :: "firmware_view \<Rightarrow> bool" where
  "filled_view v \<longleftrightarrow> fv_lastAttemptAt v \<noteq> [] \<and> fv_lastSuccessfulContactAt v \<noteq> Some []
     \<and> (fv_lastSuccessfulContactAt v = None \<longrightarrow> fv_sampledAt v = [])"

lemma filled_view_restored:
  assumes "filled_view v"
  shows "restored_view (stored_form v) = v"
proof -
  have attempt: "or_text (Some (fv_lastAttemptAt v)) t = fv_lastAttemptAt v" for t
    using assms by (simp add: filled_view_def or_text_def split: list.split)
  have contact: "(case filled_text (fv_lastSuccessfulContactAt v) of Some t \<Rightarrow> Some t | None \<Rightarrow> filled_text (Some (fv_sampledAt v)))
      = fv_lastSuccessfulContactAt v"
    using assms by (auto simp: filled_view_def filled_text_def split: option.split list.split)
  show ?thesis by (simp add: restored_view_def stored_form_def attempt contact cong: option.case_cong)
qed

lemma filled_view_recorded: "now \<noteq> [] \<Longrightarrow> filled_view (recorded_view se scope d prev s now new\<lparr>fv_lastRetentionSweepAt := x\<rparr>)"
  by (simp add: filled_view_def recorded_view_def Let_def)

lemma contact_restored:
  assumes "getValue lv db key = Some v" "filled_text (fv_lastSuccessfulContactAt v) = None"
  shows "fv_sampledAt v = []"
proof -
  obtain sv where sv: "v = restored_view sv"
    using assms(1) by (auto simp: getValue_def split: option.splits stored.splits)
  have "fv_lastSuccessfulContactAt v = (case filled_text (sv_lastSuccessfulContactAt sv) of Some t \<Rightarrow> Some t
      | None \<Rightarrow> filled_text (Some (fv_sampledAt v)))"
    unfolding sv restored_view_def by (simp cong: option.case_cong)
  then show ?thesis using assms(2) by (auto simp: filled_text_def split: option.splits list.splits)
qed

lemma filled_text_Some: "filled_text x \<noteq> Some []"
  by (simp add: filled_text_def split: option.split list.split)

lemma filled_view_failed:
  assumes "cf_attemptedAt f \<noteq> []"
  shows "filled_view (failed_view scope d (own_view d (previous_view lv db key scope)) f\<lparr>fv_lastRetentionSweepAt := x\<rparr>)"
proof -
  have "fv_sampledAt v = []" if "own_view d (previous_view lv db key scope) = Some v" "filled_text (fv_lastSuccessfulContactAt v) = None" for v
    using that contact_restored [of lv db key v] by (auto simp: own_view_def previous_view_def split: option.splits if_splits)
  then show ?thesis
    using assms filled_text_Some
    by (auto simp: filled_view_def failed_view_def split: option.split)
qed

lemma call_view:
  assumes "level_laws lv" "se_parse se [] = None"
    and "record_sample se lv db scope d physicalId s now = Inr (db', v)
      \<or> record_failure se lv db scope d physicalId r now context = Inr (db', v)"
  shows "writes_view lv db scope d db' v" and "filled_view v" and "provenanced (fv_events v)"
    and "fv_tenantId v = fs_tenantId scope \<and> fv_siteId v = fs_siteId scope \<and> fv_deviceId v = d"
proof -
  have "writes_view lv db scope d db' v \<and> filled_view v \<and> provenanced (fv_events v)
      \<and> fv_tenantId v = fs_tenantId scope \<and> fv_siteId v = fs_siteId scope \<and> fv_deviceId v = d"
    using assms(3)
  proof
    assume r: "record_sample se lv db scope d physicalId s now = Inr (db', v)"
    note p = record_sample_writes [OF assms(1) r]
    obtain key new x where v: "v = recorded_view se scope d (previous_view lv db key scope) s now new\<lparr>fv_lastRetentionSweepAt := x\<rparr>"
      using p(3) by blast
    have "now \<noteq> []" using finite_time_text [OF p(2) assms(2)] .
    from filled_view_recorded [OF this] show ?thesis
      using p(1) recorded_events unfolding v by (simp add: recorded_view_def Let_def)
  next
    assume r: "record_failure se lv db scope d physicalId r now context = Inr (db', v)"
    note p = record_failure_writes [OF assms(1) r]
    obtain key f x where v: "cf_attemptedAt f = now"
        "v = failed_view scope d (own_view d (previous_view lv db key scope)) f\<lparr>fv_lastRetentionSweepAt := x\<rparr>"
      using p(3) by blast
    have "cf_attemptedAt f \<noteq> []" using finite_time_text [OF p(2) assms(2)] v(1) by simp
    from filled_view_failed [OF this] show ?thesis
      using p(1) unfolding v(2) by (simp add: failed_view_def)
  qed
  then show "writes_view lv db scope d db' v" "filled_view v" "provenanced (fv_events v)"
    "fv_tenantId v = fs_tenantId scope \<and> fv_siteId v = fs_siteId scope \<and> fv_deviceId v = d" by auto
qed

lemma call_read_back:
  assumes "level_laws lv" "se_parse se [] = None"
    and "record_sample se lv db scope d physicalId s now = Inr (db', v)
      \<or> record_failure se lv db scope d physicalId r now context = Inr (db', v)"
  shows "get_view lv db' scope d = Inr (Some v)"
proof -
  note c = call_view [OF assms]
  obtain key where key: "diagnosticsKey scope d = Inr key" using c(1) by (auto simp: writes_view_def)
  show ?thesis
    using read_written [OF assms(1) c(1) key] filled_view_restored [OF c(2)] provenanced_id [OF c(3)] c(4)
    by (simp add: get_view_def key same_scope_def)
qed

lemma diagnosticsKey_inj:
  assumes "diagnosticsKey sc dev = Inr key" "diagnosticsKey sc' dev' = Inr key"
    and "list_all utf16 [dev, fs_tenantId sc, fs_siteId sc, dev', fs_tenantId sc', fs_siteId sc']"
  shows "sc' = sc \<and> dev' = dev"
proof -
  obtain t s d where k: "encodeURIComponent (fs_tenantId sc) = Inr t" "encodeURIComponent (fs_siteId sc) = Inr s"
    "encodeURIComponent dev = Inr d" "key = js ''firmware-diagnostics:'' @ t @ 58 # s @ 58 # d"
    using assms(1) by (auto simp: diagnosticsKey_def encoded_scope_def and_then_Inr_iff js_Cons split: if_splits)
  obtain t' s' d' where k': "encodeURIComponent (fs_tenantId sc') = Inr t'" "encodeURIComponent (fs_siteId sc') = Inr s'"
    "encodeURIComponent dev' = Inr d'" "key = js ''firmware-diagnostics:'' @ t' @ 58 # s' @ 58 # d'"
    using assms(2) by (auto simp: diagnosticsKey_def encoded_scope_def and_then_Inr_iff js_Cons split: if_splits)
  have "t @ 58 # s @ 58 # d = t' @ 58 # s' @ 58 # d'" using k(4) k'(4) by simp
  note outer = colon_split [OF encode_no_colon [OF k(1)] encode_no_colon [OF k'(1)] this]
  note inner = colon_split [OF encode_no_colon [OF k(2)] encode_no_colon [OF k'(2)] conjunct2 [OF outer]]
  have "t = t' \<and> s = s' \<and> d = d'" using outer inner by simp
  then have "fs_tenantId sc' = fs_tenantId sc" "fs_siteId sc' = fs_siteId sc" "dev' = dev"
    using encodeURIComponent_inj k(1-3) k'(1-3) assms(3) by simp_all
  then show ?thesis by (cases sc; cases sc') simp
qed

lemma call_elsewhere:
  assumes "level_laws lv" "writes_view lv db scope d db' v" "(scope', d') \<noteq> (scope, d)"
    and "list_all utf16 [d, fs_tenantId scope, fs_siteId scope, d', fs_tenantId scope', fs_siteId scope']"
  shows "get_view lv db' scope' d' = get_view lv db scope' d'"
proof (cases "diagnosticsKey scope' d'")
  case (Inr key')
  obtain key where key: "diagnosticsKey scope d = Inr key" using assms(2) by (auto simp: writes_view_def)
  have "key' \<noteq> key" using diagnosticsKey_inj [OF key _ assms(4)] Inr assms(3) by auto
  then show ?thesis using read_elsewhere [OF assms(1,2) key Inr] by (simp add: get_view_def Inr)
qed (simp add: get_view_def)

subsection \<open>What every stored view satisfies\<close>

text \<open>
  The databases the service can leave, from an empty one: each call that succeeds leaves the next, a call
  that throws writes nothing.  The texts a call is given are UTF-16, as every text of the language is.
\<close>

inductive firmware_reachable :: "service \<Rightarrow> 'db level \<Rightarrow> 'db \<Rightarrow> bool" for se lv where
  created: "(\<And>k. lv_get lv db k = None) \<Longrightarrow> firmware_reachable se lv db"
| sampled: "firmware_reachable se lv db \<Longrightarrow> list_all utf16 [d, fs_tenantId scope, fs_siteId scope]
    \<Longrightarrow> record_sample se lv db scope d physicalId s now = Inr (db', v) \<Longrightarrow> firmware_reachable se lv db'"
| failure_kept: "firmware_reachable se lv db \<Longrightarrow> list_all utf16 [d, fs_tenantId scope, fs_siteId scope]
    \<Longrightarrow> record_failure se lv db scope d physicalId r now context = Inr (db', v) \<Longrightarrow> firmware_reachable se lv db'"

definition orderly :: "firmware_scope \<Rightarrow> jstr \<Rightarrow> firmware_view \<Rightarrow> bool" where
  "orderly scope d v \<longleftrightarrow> fv_tenantId v = fs_tenantId scope \<and> fv_siteId v = fs_siteId scope \<and> fv_deviceId v = d
     \<and> distinct (map fe_id (fv_events v)) \<and> length (fv_events v) \<le> 100
     \<and> length (fv_collectionFailures v) \<le> 1440
     \<and> distinct (map (\<lambda>x. (sn_collectedAt x, sample_json (sn_sample x))) (fv_snapshots v))"

lemma slice_last: "0 < n \<Longrightarrow> length (slice_from (Fin (- of_nat n)) xs) \<le> n"
proof -
  have "\<lceil>- rat_of_nat n\<rceil> = - int n" by (metis ceiling_of_int of_int_minus of_int_of_nat_eq)
  then show "0 < n \<Longrightarrow> ?thesis" by (simp add: slice_from_def slice_index_def truncate_rat_def)
qed

lemma distinct_slice: "distinct (map f xs) \<Longrightarrow> distinct (map f (slice_from n xs))"
  by (simp add: slice_from_def drop_map [symmetric])

lemma fe_id_provenance [simp]: "fe_id (withEventProvenance e) = fe_id e"
  by (simp add: withEventProvenance_def)

lemma orderly_recorded:
  assumes "length (failures_of prev) \<le> 1440"
  shows "orderly scope d (recorded_view se scope d prev s now new\<lparr>fv_lastRetentionSweepAt := x\<rparr>)"
proof -
  have "distinct (map fe_id (all_events se prev new))"
    by (simp only: all_events_def distinct_by_time first_by_parts(2))
  then have events: "distinct (map fe_id (slice_from (Fin (- 100)) (all_events se prev new)))" by (rule distinct_slice)
  have "distinct (map (\<lambda>x. (sn_collectedAt x, sample_json (sn_sample x))) (all_snapshots se prev (new_snapshot s now)))"
    by (simp only: all_snapshots_def distinct_by_time first_by_parts(2))
  then have "distinct (map (\<lambda>x. (sn_collectedAt x, sample_json (sn_sample x)))
      (retained_snapshots se now (all_snapshots se prev (new_snapshot s now))))"
    unfolding retained_snapshots_def by (intro distinct_slice distinct_map_filter)
  then show ?thesis
    using events slice_last [of 100 "all_events se prev new"] assms by (simp add: orderly_def recorded_view_def Let_def)
qed

lemma orderly_failed:
  assumes "case prev of Some v \<Rightarrow> orderly scope d v | None \<Rightarrow> True"
  shows "orderly scope d (failed_view scope d prev f\<lparr>fv_lastRetentionSweepAt := x\<rparr>)"
  using assms slice_last [of 1440 "failures_of prev @ [f]"]
  by (cases prev) (simp_all add: orderly_def failed_view_def events_of_def snapshots_of_def failures_of_def comp_def)

lemma previous_orderly:
  assumes "\<And>v. getValue lv db key = Some v \<Longrightarrow> orderly scope d v"
  shows "length (failures_of (previous_view lv db key scope)) \<le> 1440"
    and "case own_view d (previous_view lv db key scope) of Some v \<Rightarrow> orderly scope d v | None \<Rightarrow> True"
  using assms by (auto simp: previous_view_def own_view_def failures_of_def orderly_def split: option.split)

lemma call_orderly:
  assumes "level_laws lv"
    and "\<And>key v. diagnosticsKey scope d = Inr key \<Longrightarrow> getValue lv db key = Some v \<Longrightarrow> orderly scope d v"
    and "record_sample se lv db scope d physicalId s now = Inr (db', v)
      \<or> record_failure se lv db scope d physicalId r now context = Inr (db', v)"
  shows "orderly scope d v"
  using assms(3)
proof
  assume r: "record_sample se lv db scope d physicalId s now = Inr (db', v)"
  obtain key new x where v: "diagnosticsKey scope d = Inr key"
      "v = recorded_view se scope d (previous_view lv db key scope) s now new\<lparr>fv_lastRetentionSweepAt := x\<rparr>"
    using record_sample_writes(3) [OF assms(1) r] by blast
  show ?thesis unfolding v(2) by (rule orderly_recorded [OF previous_orderly(1) [OF assms(2) [OF v(1)]]])
next
  assume r: "record_failure se lv db scope d physicalId r now context = Inr (db', v)"
  obtain key f x where v: "diagnosticsKey scope d = Inr key"
      "v = failed_view scope d (own_view d (previous_view lv db key scope)) f\<lparr>fv_lastRetentionSweepAt := x\<rparr>"
    using record_failure_writes(3) [OF assms(1) r] by blast
  show ?thesis unfolding v(2) by (rule orderly_failed [OF previous_orderly(2) [OF assms(2) [OF v(1)]]])
qed

lemma orderly_step:
  assumes "level_laws lv" "se_parse se [] = None" "list_all utf16 [d, fs_tenantId scope, fs_siteId scope]"
    and old: "\<And>scope' d' key v. list_all utf16 [d', fs_tenantId scope', fs_siteId scope']
      \<Longrightarrow> diagnosticsKey scope' d' = Inr key \<Longrightarrow> getValue lv db key = Some v \<Longrightarrow> orderly scope' d' v"
    and call: "record_sample se lv db scope d physicalId s now = Inr (db', v)
      \<or> record_failure se lv db scope d physicalId r now context = Inr (db', v)"
    and new: "list_all utf16 [d', fs_tenantId scope', fs_siteId scope']" "diagnosticsKey scope' d' = Inr key'"
      "getValue lv db' key' = Some v'"
  shows "orderly scope' d' v'"
proof (cases "(scope', d') = (scope, d)")
  case True
  have "getValue lv db' key' = Some v"
    using read_written [OF assms(1) call_view(1) [OF assms(1,2) call]] filled_view_restored [OF call_view(2) [OF assms(1,2) call]]
      new(2) True by simp
  then show ?thesis using call_orderly [OF assms(1) old [OF assms(3)] call] new(3) True by simp
next
  case False
  note w = call_view(1) [OF assms(1,2) call]
  then obtain key where key: "diagnosticsKey scope d = Inr key" by (auto simp: writes_view_def)
  have "key' \<noteq> key" using diagnosticsKey_inj [OF key] new(1,2) assms(3) False by fastforce
  then have "getValue lv db key' = Some v'" using read_elsewhere [OF assms(1) w key new(2)] new(3) by simp
  then show ?thesis using old [OF new(1,2)] by simp
qed

lemma reachable_orderly:
  assumes "firmware_reachable se lv db" "level_laws lv" "se_parse se [] = None"
    and "list_all utf16 [d, fs_tenantId scope, fs_siteId scope]"
    and "diagnosticsKey scope d = Inr key" "getValue lv db key = Some v"
  shows "orderly scope d v"
  using assms
proof (induction arbitrary: scope d key v rule: firmware_reachable.induct)
  case (created db)
  then show ?case by (simp add: getValue_def)
next
  case (sampled db d0 scope0 physicalId s now db' v0)
  from orderly_step [OF sampled.prems(1,2) sampled.hyps(2) sampled.IH [OF sampled.prems(1,2)] disjI1 [OF sampled.hyps(3)]
      sampled.prems(3) sampled.prems(4) sampled.prems(5)] show ?case .
next
  case (failure_kept db d0 scope0 physicalId r now ctx db' v0)
  from orderly_step [OF failure_kept.prems(1,2) failure_kept.hyps(2) failure_kept.IH [OF failure_kept.prems(1,2)] disjI2 [OF failure_kept.hyps(3)]
      failure_kept.prems(3) failure_kept.prems(4) failure_kept.prems(5)] show ?case .
qed

subsection \<open>A redelivered sample\<close>

text \<open>The hour keys are none of the keys of the other kinds.\<close>

lemma not_hourly:
  assumes "prefix (kind_prefix ''hourly'') k"
    and "kind \<in> {''daily'', ''marker'', ''index'', ''meta'', ''event'', ''failure''}"
  shows "\<not> prefix (kind_prefix kind) k"
proof
  assume "prefix (kind_prefix kind) k"
  from kinds_differ [OF assms(1) this] assms(2) show False by (auto simp: js_def)
qed

text \<open>Staging a snapshot leaves its marker staged or stored, and a stored marker stages nothing.\<close>

lemma apply_once_marks:
  assumes "apply_once se lv db marker bucketKey g ob st = Inr st'"
  shows "marker \<in> op_key ` set (sg_operations st') \<or> present lv db marker"
  using assms by (auto simp: apply_once_def and_then_Inr_iff split: if_splits)

lemma stageObservation_marks:
  assumes "stageObservation se lv db scope d physicalId sn st = Inr st'"
    and "hourly_marker scope d (observationFor (se_digest se) scope d physicalId sn) = Inr marker"
  shows "marker \<in> op_key ` set (sg_operations st') \<or> present lv db marker"
proof -
  obtain hour bucketKey st1 day where
      "apply_once se lv db marker bucketKey Hourly (observationFor (se_digest se) scope d physicalId sn) st = Inr st1"
      "st' = st1\<lparr>sg_affectedDays := set_add (sg_affectedDays st1) day\<rparr>"
    using assms by (auto simp: stageObservation_def Let_def and_then_Inr_iff)
  then show ?thesis using apply_once_marks by simp
qed

lemma stageObservation_marked:
  assumes "stageObservation se lv db scope d physicalId sn st = Inr st'" "present lv db marker"
    and "hourly_marker scope d (observationFor (se_digest se) scope d physicalId sn) = Inr marker"
  shows "sg_pending st' = sg_pending st \<and> sg_operations st' = sg_operations st"
  using assms by (auto simp: stageObservation_def apply_once_def Let_def and_then_Inr_iff)

lemma fold_result_snoc: "fold_result f (xs @ [x]) s = and_then (fold_result f xs s) (\<lambda>s'. f s' x)"
proof (induction xs arbitrary: s)
  case Nil
  then show ?case by (cases "f s x") simp_all
next
  case (Cons y ys)
  then show ?case by (cases "f s y") simp_all
qed

lemma rollup_marks:
  assumes "rollup_ops se lv db scope d physicalId prev sn now = Inr ops"
    and "\<not> jless (tm (se_parse se) (sn_collectedAt sn)) (days_before se now (rt_hourlySummaryDays (se_retention se)))"
    and "hourly_marker scope d (observationFor (se_digest se) scope d physicalId sn) = Inr marker"
    and "\<not> present lv db marker"
  shows "\<exists>w. Put marker w \<in> set ops"
proof -
  from rollup_parts [OF assms(1)] obtain st pending where r:
    "fold_result (stage_snapshot se lv db scope d physicalId (days_before se now (rt_hourlySummaryDays (se_retention se))))
       (legacy_of prev @ [sn]) nothing_staged = Inr st"
    "ops = sg_operations st @ map (\<lambda>(k, b). Put k (Stored_bucket b)) pending" .
  obtain st0 where "stageObservation se lv db scope d physicalId sn st0 = Inr st"
    using r(1) assms(2) by (auto simp: fold_result_snoc and_then_Inr_iff stage_snapshot_def)
  from stageObservation_marks [OF this assms(3)] assms(4)
  obtain op where op: "op \<in> set (sg_operations st)" "op_key op = marker" by auto
  then have "op \<in> set ops" by (simp add: r(2))
  then show ?thesis using rollup_keys(1) [OF assms(1)] op(2) by (metis is_put_def)
qed

text \<open>With the marker stored and no older snapshots to add, the rollups write no hour.\<close>

lemma marked_rollup_keys:
  assumes "rollup_ops se lv db scope d physicalId prev sn now = Inr ops" "legacy_of prev = []"
    and "jless (tm (se_parse se) (sn_collectedAt sn)) (days_before se now (rt_hourlySummaryDays (se_retention se)))
      \<or> present lv db marker"
    and "hourly_marker scope d (observationFor (se_digest se) scope d physicalId sn) = Inr marker" "op \<in> set ops"
  shows "prefix (kind_prefix ''daily'') (op_key op) \<or> prefix (kind_prefix ''marker'') (op_key op)"
proof -
  let ?P = "prefix (kind_prefix ''daily'')"
  let ?late = "jless (tm (se_parse se) (sn_collectedAt sn)) (days_before se now (rt_hourlySummaryDays (se_retention se)))"
  from rollup_parts [OF assms(1)] obtain st pending where r:
    "fold_result (stage_snapshot se lv db scope d physicalId (days_before se now (rt_hourlySummaryDays (se_retention se))))
       (legacy_of prev @ [sn]) nothing_staged = Inr st"
    "fold_result (rebuild_day se lv db scope d (days_before se now (rt_hourlySummaryDays (se_retention se))))
       (sg_affectedDays st) (sg_pending st) = Inr pending"
    "ops = sg_operations st @ map (\<lambda>(k, b). Put k (Stored_bucket b)) pending" .
  have st: "staged_in ?P st"
  proof (cases ?late)
    case True
    then obtain day where "stageLateDaily se lv db scope d physicalId sn
        (nothing_staged\<lparr>sg_affectedDays := set_add (sg_affectedDays nothing_staged) day\<rparr>) = Inr st"
      using r(1) assms(2) by (auto simp: stage_snapshot_def and_then_Inr_iff)
    from stageLateDaily_staged [OF this] show ?thesis by simp
  next
    case False
    then have "stageObservation se lv db scope d physicalId sn nothing_staged = Inr st"
      using r(1) assms(2) by (simp add: stage_snapshot_def and_then_Inr_iff)
    from stageObservation_marked [OF this _ assms(4)] False assms(3) show ?thesis
      by (simp add: staged_in_def nothing_staged_def)
  qed
  have "?P k" if "k \<in> fst ` set pending" for k
  proof (rule rebuilt_keys [OF r(2) _ _ that])
    show "?P k" if "k \<in> fst ` set (sg_pending st)" for k using st that unfolding staged_in_def by blast
  qed
  then have "\<forall>e\<in>set pending. ?P (fst e)" by simp
  then show ?thesis using st assms(5) by (auto simp: r(3) staged_in_def)
qed

text \<open>The marker a first delivery writes is in the database it leaves, whatever its sweep deletes.\<close>

lemma delivered_marker:
  assumes "level_laws lv" "record_writes se lv db scope d physicalId prev s now = Inr (ops, v)"
    and "hourly_marker scope d (observationFor (se_digest se) scope d physicalId (new_snapshot s now)) = Inr marker"
    and "\<not> present lv db marker"
    and "\<not> jless (tm (se_parse se) now) (days_before se now (rt_hourlySummaryDays (se_retention se)))"
  shows "present lv (lv_batch lv db (ops @ [put_view key v])) marker"
proof -
  from record_writes_parts [OF assms(2)] obtain new rollups index evidence deletes where w:
    "rollup_ops se lv db scope d physicalId prev (new_snapshot s now) now = Inr rollups"
    "index_op scope d physicalId = Inr index"
    "evidence_ops lv db scope d physicalId
       (\<lambda>migrate. if migrate then all_events se prev new else map withEventProvenance new)
       (\<lambda>migrate. if migrate then failures_of prev else []) now = Inr evidence"
    "sweep se lv db scope d now (recorded_view se scope d prev s now new) = Inr (deletes, v)"
    "ops = rollups @ [index] @ evidence @ deletes" .
  obtain x where x: "Put marker x \<in> set rollups"
    using rollup_marks [OF w(1) _ assms(3,4)] assms(5) by (auto simp: new_snapshot_def)
  have "\<exists>y. op = Put marker y" if "op \<in> set (ops @ [put_view key v])" "op_key op = marker" for op
  proof -
    have "op \<in> set rollups \<or> op = index \<or> op \<in> set evidence \<or> op \<in> set deletes \<or> op = put_view key v"
      using that(1) by (simp add: w(5)) blast
    then consider "op \<in> set rollups" | "op = index" | "op \<in> set evidence" | "op \<in> set deletes" | "op = put_view key v"
      by blast
    then have "is_put op"
    proof cases
      case 4
      then obtain k where "op = Del k" "lv_get lv db k \<noteq> None" using sweep_parts(2) [OF assms(1) w(4)] by blast
      then show ?thesis using that(2) assms(4) by (simp add: present_def)
    qed (use rollup_keys(1) [OF w(1)] index_health [OF w(2)] evidence_health [OF w(3)] in \<open>simp_all add: put_view_def\<close>)
    then show ?thesis using that(2) by (auto simp: is_put_def)
  qed
  then have "foldl (apply_op marker) (lv_get lv db marker) (ops @ [put_view key v]) \<noteq> None"
    using apply_put_stays [of marker x "ops @ [put_view key v]"] x by (simp add: w(5))
  then show ?thesis by (simp only: present_def laws_batch [OF assms(1)] not_False_eq_True)
qed

lemma no_second_sweep:
  assumes "level_laws lv" "record_writes se lv db scope d physicalId prev s now = Inr (ops, v)"
    and "jless (Fin 0) (rt_retentionSweepIntervalMs (se_retention se))" "is_finite (tm (se_parse se) now)" "now \<noteq> []"
  shows "\<not> shouldSweep se (fv_lastRetentionSweepAt v) now"
proof -
  from record_writes_parts [OF assms(2)] obtain new deletes where w:
    "sweep se lv db scope d now (recorded_view se scope d prev s now new) = Inr (deletes, v)" by metis
  show ?thesis
  proof (cases "shouldSweep se (fv_lastRetentionSweepAt (recorded_view se scope d prev s now new)) now")
    case True
    have zero: "jsub (tm (se_parse se) now) (tm (se_parse se) now) = Fin 0"
      using assms(4) by (cases "tm (se_parse se) now") (simp_all add: jsub_def fl_numerals)
    have "\<not> jle (rt_retentionSweepIntervalMs (se_retention se)) (Fin 0)"
      using assms(3) by (cases "rt_retentionSweepIntervalMs (se_retention se)") (simp_all add: jle_def jeq_def)
    moreover have "filled_text (Some now) = Some now"
      using assms(5) by (simp add: filled_text_def split: list.split)
    ultimately show ?thesis using sweep_parts(3) [OF assms(1) w True] by (simp add: shouldSweep_def zero)
  next
    case False
    then show ?thesis using sweep_parts(4) [OF assms(1) w] by simp
  qed
qed

lemma second_delivery:
  assumes "level_laws lv" "se_parse se [] = None" "jless (Fin 0) (rt_retentionSweepIntervalMs (se_retention se))"
    and first: "record_sample se lv db scope d physicalId s now = Inr (db1, v1)"
    and "filled_text (fv_historyBackfilledThroughAt v1) \<noteq> None"
    and "hourly_marker scope d (observationFor (se_digest se) scope d physicalId (new_snapshot s now)) = Inr marker"
    and "lv_get lv db marker = None"
    and again: "record_sample se lv db1 scope d physicalId s now = Inr (db2, v2)"
    and "prefix (kind_prefix ''hourly'') k"
  shows "lv_get lv db2 k = lv_get lv db1 k"
proof -
  note c = call_view [OF assms(1,2) disjI1 [OF first]]
  obtain key ops1 where k1: "diagnosticsKey scope d = Inr key"
      "record_writes se lv db scope d physicalId (previous_view lv db key scope) s now = Inr (ops1, v1)"
      "db1 = lv_batch lv db (ops1 @ [put_view key v1])"
    using first by (auto simp: record_sample_def and_then_Inr_iff split: if_splits prod.splits)
  obtain ops2 where k2: "record_writes se lv db1 scope d physicalId (previous_view lv db1 key scope) s now = Inr (ops2, v2)"
      "db2 = lv_batch lv db1 (ops2 @ [put_view key v2])"
    using again by (auto simp: record_sample_def and_then_Inr_iff k1(1) split: if_splits prod.splits)
  have prev: "previous_view lv db1 key scope = Some v1"
    using read_written [OF assms(1) c(1) k1(1)] filled_view_restored [OF c(2)] c(4) by (simp add: previous_view_def same_scope_def)
  have fin: "is_finite (tm (se_parse se) now)" using record_sample_writes(2) [OF assms(1) first] .
  have quiet: "\<not> shouldSweep se (fv_lastRetentionSweepAt v1) now"
    using no_second_sweep [OF assms(1) k1(2) assms(3) fin finite_time_text [OF fin assms(2)]] .
  from record_writes_parts [OF k2(1)] obtain new rollups index evidence deletes where w:
    "rollup_ops se lv db1 scope d physicalId (previous_view lv db1 key scope) (new_snapshot s now) now = Inr rollups"
    "index_op scope d physicalId = Inr index"
    "evidence_ops lv db1 scope d physicalId
       (\<lambda>migrate. if migrate then all_events se (previous_view lv db1 key scope) new else map withEventProvenance new)
       (\<lambda>migrate. if migrate then failures_of (previous_view lv db1 key scope) else []) now = Inr evidence"
    "sweep se lv db1 scope d now (recorded_view se scope d (previous_view lv db1 key scope) s now new) = Inr (deletes, v2)"
    "ops2 = rollups @ [index] @ evidence @ deletes" .
  have "fv_lastRetentionSweepAt (recorded_view se scope d (previous_view lv db1 key scope) s now new) = fv_lastRetentionSweepAt v1"
    by (simp add: prev recorded_view_def Let_def)
  then have none: "deletes = []" using sweep_parts(4) [OF assms(1) w(4)] quiet by simp
  have legacy: "legacy_of (previous_view lv db1 key scope) = []" using assms(5) by (auto simp: prev legacy_of_def)
  have marked: "jless (tm (se_parse se) (sn_collectedAt (new_snapshot s now)))
        (days_before se now (rt_hourlySummaryDays (se_retention se))) \<or> present lv db1 marker"
    using delivered_marker [OF assms(1) k1(2) assms(6)] assms(7) k1(3) by (auto simp: present_def new_snapshot_def)
  have "op_key op \<noteq> k" if "op \<in> set (ops2 @ [put_view key v2])" for op
  proof -
    have "op \<in> set rollups \<or> op = index \<or> op \<in> set evidence \<or> op = put_view key v2"
      using that by (simp add: w(5) none) blast
    moreover have "op_key op \<noteq> k" if "op \<in> set rollups"
      using marked_rollup_keys [OF w(1) legacy marked assms(6) that] not_hourly [OF assms(9)] by auto
    moreover have "op_key op \<noteq> k" if "op = index"
      using index_health [OF w(2)] that not_hourly [OF assms(9)] by auto
    moreover have "op_key op \<noteq> k" if "op \<in> set evidence"
      using evidence_health [OF w(3) that] not_hourly [OF assms(9)] by auto
    moreover have "op_key op \<noteq> k" if "op = put_view key v2"
      using view_not_health [OF diagnosticsKey_prefix [OF k1(1)]] kind_health [OF assms(9)] that by (auto simp: put_view_def)
    ultimately show ?thesis by blast
  qed
  then have "k \<notin> op_key ` set (ops2 @ [put_view key v2])" by blast
  then show ?thesis unfolding k2(2) laws_batch [OF assms(1)] by (rule apply_ops_other)
qed

lemma call_contents:
  assumes "level_laws lv" and "record_sample se lv db scope d physicalId s now = Inr (db', v)
      \<or> record_failure se lv db scope d physicalId r now ctx = Inr (db', v)"
  shows "fv_lastAttemptAt v = now \<and> (record_sample se lv db scope d physicalId s now = Inr (db', v) \<longrightarrow> fv_current v = Some s)"
proof -
  have "fv_lastAttemptAt v = now \<and> fv_current v = Some s" if "record_sample se lv db scope d physicalId s now = Inr (db', v)"
    using record_sample_writes(3) [OF assms(1) that] by (auto simp: recorded_view_def Let_def)
  moreover have "fv_lastAttemptAt v = now" if "record_failure se lv db scope d physicalId r now ctx = Inr (db', v)"
    using record_failure_writes(3) [OF assms(1) that] by (auto simp: failed_view_def)
  ultimately show ?thesis using assms(2) by blast
qed

subsection \<open>What the service promises\<close>

text \<open>
  C38. A call that succeeds is read back: the view it returns is what a query for the device then finds, with
  the time of the attempt and, for a sample, the sample; what is found for every other device, site and tenant
  is what was found before.
\<close>

theorem recorded_view_is_read_back:
  assumes "level_laws lv" "se_parse se [] = None"
    and "record_sample se lv db scope d physicalId s now = Inr (db', v)
      \<or> record_failure se lv db scope d physicalId r now ctx = Inr (db', v)"
  shows "get_view lv db' scope d = Inr (Some v) \<and> fv_lastAttemptAt v = now
    \<and> (record_sample se lv db scope d physicalId s now = Inr (db', v) \<longrightarrow> fv_current v = Some s)
    \<and> (\<forall>scope' d'. (scope', d') \<noteq> (scope, d)
        \<and> list_all utf16 [d, fs_tenantId scope, fs_siteId scope, d', fs_tenantId scope', fs_siteId scope']
        \<longrightarrow> get_view lv db' scope' d' = get_view lv db scope' d')"
  using call_read_back [OF assms] call_contents [OF assms(1,3)] call_elsewhere [OF assms(1) call_view(1) [OF assms]]
  by blast

text \<open>
  C39. In every database the service can leave, a view stored under the key of a device is found by a query for
  that device and carries its tenant, site and id; it has at most 100 events, with distinct ids, at most 1440
  collection failures, and keeps no snapshot twice.
\<close>

theorem reachable_views_are_orderly:
  assumes "firmware_reachable se lv db" "level_laws lv" "se_parse se [] = None"
    and "list_all utf16 [d, fs_tenantId scope, fs_siteId scope]"
    and "diagnosticsKey scope d = Inr key" "lv_get lv db key = Some (Stored_view sv)"
  shows "\<exists>v. get_view lv db scope d = Inr (Some v) \<and> fv_tenantId v = fs_tenantId scope
    \<and> fv_siteId v = fs_siteId scope \<and> fv_deviceId v = d
    \<and> distinct (map fe_id (fv_events v)) \<and> length (fv_events v) \<le> 100
    \<and> length (fv_collectionFailures v) \<le> 1440
    \<and> distinct (map (\<lambda>x. (sn_collectedAt x, sample_json (sn_sample x))) (fv_snapshots v))"
proof -
  have v: "getValue lv db key = Some (restored_view sv)" using assms(6) by (simp add: getValue_def)
  have "orderly scope d (restored_view sv)" by (rule reachable_orderly [OF assms(1-5) v])
  then show ?thesis by (simp add: get_view_def assms(5) v same_scope_def orderly_def comp_def)
qed

text \<open>
  C40. A sample delivered again changes no hourly bucket.  The first delivery is one whose marker was not
  stored and that leaves the instant up to which the history is complete; the second one, whether it succeeds
  or throws, leaves every hourly key as it was, however the first one swept (the sweep interval is positive).
\<close>

theorem redelivery_keeps_hourly_buckets:
  assumes "level_laws lv" "se_parse se [] = None" "jless (Fin 0) (rt_retentionSweepIntervalMs (se_retention se))"
    and "record_sample se lv db scope d physicalId s now = Inr (db1, v1)"
    and "filled_text (fv_historyBackfilledThroughAt v1) \<noteq> None"
    and "hourly_marker scope d (observationFor (se_digest se) scope d physicalId (new_snapshot s now)) = Inr marker"
    and "lv_get lv db marker = None" "prefix (kind_prefix ''hourly'') k"
  shows "lv_get lv (case record_sample se lv db1 scope d physicalId s now of Inr (db2, v2) \<Rightarrow> db2 | Inl e \<Rightarrow> db1) k
    = lv_get lv db1 k"
  using second_delivery [OF assms(1-7) _ assms(8)]
  by (cases "record_sample se lv db1 scope d physicalId s now") (auto split: prod.splits)

subsection \<open>A database in memory, and a first sample in it\<close>

fun key_le :: "jstr \<Rightarrow> jstr \<Rightarrow> bool" where
  "key_le [] _ = True"
| "key_le (a # x) [] = False"
| "key_le (a # x) (b # y) = (a < b \<or> (a = b \<and> key_le x y))"

definition apply_to_list :: "(jstr \<times> stored) list \<Rightarrow> batch_op \<Rightarrow> (jstr \<times> stored) list" where
  "apply_to_list m op = (case op of Put k v \<Rightarrow> map_set m k v | Del k \<Rightarrow> map_remove m k)"

definition list_level :: "(jstr \<times> stored) list level" where
  "list_level = \<lparr>lv_get = map_get, lv_batch = foldl apply_to_list,
     lv_range = (\<lambda>m lo hi. List.filter (\<lambda>e. key_le lo (fst e) \<and> key_le (fst e) hi \<and> map_get m (fst e) = Some (snd e)) m)\<rparr>"

lemma key_between: "key_le p k \<Longrightarrow> key_le k (p @ x) \<Longrightarrow> prefix p k"
proof (induction p arbitrary: k)
  case Nil
  then show ?case by simp
next
  case (Cons a p)
  then show ?case by (cases k) auto
qed

lemma list_level_laws: "level_laws list_level"
proof -
  have "map_get (foldl apply_to_list m ops) k = foldl (apply_op k) (map_get m k) ops" for m ops k
  proof (induction ops arbitrary: m)
    case (Cons op ops)
    have "map_get (apply_to_list m op) k = apply_op k (map_get m k) op"
      by (cases op) (simp_all add: apply_to_list_def apply_op_def store_simps)
    then show ?case using Cons.IH [of "apply_to_list m op"] by simp
  qed simp
  then show ?thesis using key_between by (auto simp: level_laws_def list_level_def)
qed

definition fw_service :: service where
  "fw_service = \<lparr>se_parse = (\<lambda>_. None), se_digest = (\<lambda>_. js ''0123456789abcdef''),
     se_retention = configuredRetention (\<lambda>_. NaN)\<rparr>"

definition fw_site :: firmware_scope where
  "fw_site = \<lparr>fs_tenantId = js ''t'', fs_siteId = js ''s''\<rparr>"

definition fw_board :: jstr where
  "fw_board = js ''esp8266:0a1b2c''"

definition fw_sample :: firmware_sample where
  "fw_sample = \<lparr>fd_deviceId = fw_board, fd_firmwareVersion = js ''1.0'', fd_bootSessionId = js ''esp8266-0a1b2c-00000001'',
     fd_uptimeMs = Fin 1000, fd_reason = js ''Power On'', fd_reasonCode = Fin 4, fd_exception = None,
     fd_freeHeapBytes = None, fd_heapFragmentationPct = None, fd_largestFreeBlockBytes = None,
     fd_connected = False, fd_rssiDbm = None, fd_disconnectCount = Fin 0, fd_reconnectCount = Fin 0,
     fd_sampleCount = Fin 5, fd_readFailureCount = Fin 0\<rparr>"

definition fw_now :: jstr where
  "fw_now = js ''2025-06-01T10:00:00.000Z''"

abbreviation fw_observed where "fw_observed \<equiv> observationFor (se_digest fw_service) fw_site (js ''d'') fw_board (new_snapshot fw_sample fw_now)"

lemma fw_encoded: "encodeURIComponent (js ''t'') = Inr (js ''t'')" "encodeURIComponent (js ''s'') = Inr (js ''s'')"
  "encodeURIComponent (js ''d'') = Inr (js ''d'')"
  by code_simp+

lemma fw_keys:
  "diagnosticsKey fw_site (js ''d'') = Inr (js ''firmware-diagnostics:t:s:d'')"
  "healthKey kind fw_site (js ''d'') t = Inr (js ''device-health:'' @ js kind @ js '':t:s:d:'' @ t)"
  "siteDeviceIndexPrefix fw_site = Inr (js ''device-health:index:t:s:'')"
proof -
  show "diagnosticsKey fw_site (js ''d'') = Inr (js ''firmware-diagnostics:t:s:d'')" by code_simp
  show "siteDeviceIndexPrefix fw_site = Inr (js ''device-health:index:t:s:'')" by code_simp
  show "healthKey kind fw_site (js ''d'') t = Inr (js ''device-health:'' @ js kind @ js '':t:s:d:'' @ t)"
    by (simp add: healthKey_def encoded_scope_def fw_site_def fw_encoded) (simp add: js_def)
qed

lemma time_clip_int:
  assumes "time_in_range t"
  shows "time_clip (Fin (of_int t)) = Some t"
proof -
  have "\<bar>rat_of_int t\<bar> \<le> 8640000000000000"
    using assms unfolding time_in_range_def by (metis of_int_abs of_int_le_iff of_int_numeral)
  then show ?thesis by (simp add: time_clip_def truncate_rat_def)
qed

lemma fw_hour_time:
  assumes "i < 24"
  shows "to_iso (time_clip (jadd (Fin 1748736000000) (Fin (of_nat (i * 3600000))))) = Inr (iso_string (1748736000000 + int i * 3600000))"
proof -
  have "jadd (Fin (of_int 1748736000000)) (Fin (of_int (int i * 3600000))) = Fin (of_int (1748736000000 + int i * 3600000))"
    using assms by (intro jadd_int) (simp add: safe_int_def)
  moreover have "time_in_range (1748736000000 + int i * 3600000)" using assms by (simp add: time_in_range_def)
  moreover have "(of_nat (i * 3600000) :: rat) = of_int (int i * 3600000)" by simp
  ultimately show ?thesis by (simp only: of_int_numeral time_clip_int to_iso_def option.case if_True)
qed

lemma fw_ten: "iso_string (1748736000000 + int i * 3600000) = js ''2025-06-01T10:00:00.000Z'' \<longleftrightarrow> i = 10" if "i < 24"
proof
  have ten: "iso_string 1748772000000 = js ''2025-06-01T10:00:00.000Z''" using demo_isos(1) by (simp add: to_iso_def time_in_range_def)
  assume "iso_string (1748736000000 + int i * 3600000) = js ''2025-06-01T10:00:00.000Z''"
  then have "date_parse no_host (iso_string (1748736000000 + int i * 3600000)) = Some 1748772000000" by (simp add: demo_times)
  then show "i = 10" using that by (simp add: time_in_range_def)
next
  have ten: "iso_string 1748772000000 = js ''2025-06-01T10:00:00.000Z''" using demo_isos(1) by (simp add: to_iso_def time_in_range_def)
  assume "i = 10"
  then show "iso_string (1748736000000 + int i * 3600000) = js ''2025-06-01T10:00:00.000Z''" using ten by simp
qed

lemma fw_day_hours: "readUtcDayHours fw_service list_level [] fw_site (js ''d'') (js ''2025-06-01T00:00:00.000Z'')
   [(js ''device-health:hourly:t:s:d:2025-06-01T10:00:00.000Z'', b)] = Inr [b]"
proof -
  have k: "js ''device-health:hourly:t:s:d:2025-06-01T10:00:00.000Z'' = js ''device-health:'' @ js ''hourly'' @ js '':t:s:d:'' @ js ''2025-06-01T10:00:00.000Z''"
    by (simp add: js_def)
  have "hour_of_day list_level [] fw_site (js ''d'') [(js ''device-health:hourly:t:s:d:2025-06-01T10:00:00.000Z'', b)] (Fin 1748736000000) i
     = Inr (if i = 10 then Some b else None)" if "i < 24" for i
    unfolding hour_of_day_def fw_hour_time [OF that] and_then_simps fw_keys k
    by (auto simp: pending_or_stored_def map_get_def read_bucket_def list_level_def fw_ten [OF that])
  then have "map_result (hour_of_day list_level [] fw_site (js ''d'') [(js ''device-health:hourly:t:s:d:2025-06-01T10:00:00.000Z'', b)] (Fin 1748736000000)) [0..<24]
     = Inr (map (\<lambda>i. if i = 10 then Some b else None) [0..<24])"
    by (simp add: map_result_Inr_iff list_all2_conv_all_nth)
  then show ?thesis
    by (simp add: readUtcDayHours_def tm_def time_num_def fw_service_def demo_times map_filter_def upt_rec)
qed

definition fw_observation :: health_observation where
  "fw_observation = \<lparr>ho_tenantId = js ''t'', ho_siteId = js ''s'', ho_deviceId = js ''d'', ho_physicalDeviceId = fw_board,
     ho_sampleId = js ''0123456789abcdef'', ho_observedAt = js ''2025-06-01T10:00:00.000Z'', ho_bootSessionId = js ''esp8266-0a1b2c-00000001'',
     ho_resetEvidence = Some \<lparr>re_reason = js ''Power On'', re_code = Fin 4, re_details = None, re_source = diagnostics_path\<rparr>,
     ho_metrics = sample_metrics fw_sample\<rparr>"

lemma fw_observed: "fw_observed = fw_observation"
  by (simp add: observationFor_def fw_service_def fw_site_def new_snapshot_def fw_now_def fw_sample_def fw_observation_def
     Let_def) (simp add: js_def)

lemma fw_names:
  "list_all (\<lambda>n. array_index n = None \<and> n \<notin> set object_prototype_names)
     [js ''uptime'', js ''wifi.disconnect_count'', js ''wifi.reconnect_count'', js ''sensor.sample_count'', js ''sensor.read_failure_count'']"
  by code_simp

lemma first_counter:
  assumes "obj_get cs (mo_name m) = None" "mo_name m \<notin> set object_prototype_names" "array_index (mo_name m) = None"
  shows "apply_counter host boot t m v cs = Inr (cs @ [(mo_name m, [new_counter boot t m v])])"
proof -
  have "mo_name m \<notin> fst ` set cs" using assms(1) by (simp add: obj_get_def map_of_eq_None_iff)
  then show ?thesis
    using assms by (simp add: apply_counter_def obj_member_def obj_put_def sort_series_def js_sort_def)
qed

definition fw_counter :: "int \<Rightarrow> string \<Rightarrow> counter_summary" where
  "fw_counter v unit = \<lparr>cs_bootSessionId = js ''esp8266-0a1b2c-00000001'', cs_firstValue = Fin (of_int v), cs_firstObservedAt = js ''2025-06-01T10:00:00.000Z'', cs_lastValue = Fin (of_int v),
      cs_lastObservedAt = js ''2025-06-01T10:00:00.000Z'', cs_delta = Some (Fin 0), cs_resetObserved = False, cs_orderingComplete = True,
      cs_unit = js unit, cs_source = diagnostics_path\<rparr>"

definition fw_series :: "counter_summary list jobj" where
  "fw_series = [(js ''uptime'', [fw_counter 1000 ''ms'']), (js ''wifi.disconnect_count'', [fw_counter 0 ''count'']),
        (js ''wifi.reconnect_count'', [fw_counter 0 ''count'']), (js ''sensor.sample_count'', [fw_counter 5 ''count'']),
        (js ''sensor.read_failure_count'', [fw_counter 0 ''count''])]"

lemma fw_metrics_applied:
  "apply_metrics no_host fw_observation e (sample_metrics fw_sample) ([], []) = Inr ([], fw_series)"
  using fw_names
  by (simp add: sample_metrics_def sample_metric_def fw_sample_def fw_observation_def fw_counter_def fw_series_def apply_metric_def
     sampled_def first_counter is_finite_def obj_get_def new_counter_def)

definition fw_hour :: bucket_summary where
  "fw_hour = \<lparr>bs_tenantId = js ''t'', bs_siteId = js ''s'', bs_deviceId = js ''d'', bs_physicalDeviceId = fw_board,
     bs_granularity = Hourly, bs_bucketStartAt = js ''2025-06-01T10:00:00.000Z'', bs_bucketEndAt = js ''2025-06-01T11:00:00.000Z'',
     bs_firstObservedAt = js ''2025-06-01T10:00:00.000Z'', bs_lastObservedAt = js ''2025-06-01T10:00:00.000Z'',
     bs_sampleCount = Fin 1, bs_expectedIntervalMs = Fin 60000, bs_expectedSampleCount = Fin 1, bs_missingSampleCount = Fin 0,
     bs_coverageRatio = Fin 1, bs_partialBucket = True, bs_metrics = [], bs_counters = fw_series\<rparr>"

lemma fw_observed_simps:
  "ho_tenantId fw_observation = js ''t''" "ho_siteId fw_observation = js ''s''" "ho_deviceId fw_observation = js ''d''"
  "ho_physicalDeviceId fw_observation = fw_board" "ho_observedAt fw_observation = js ''2025-06-01T10:00:00.000Z''"
  "ho_metrics fw_observation = sample_metrics fw_sample" "ho_sampleId fw_observation = js ''0123456789abcdef''"
  by (simp_all add: fw_observation_def)

lemma fw_hour_applied: "applyDeviceHealthObservation no_host None fw_observation Hourly (Fin 60000) = Inr fw_hour"
  by (simp add: applyDeviceHealthObservation_def fw_metrics_applied fw_hour_def fw_observed_simps utcBucketStart_def tm_def time_num_def demo_times demo_isos bucket_floor_def width_ms_def
  expected_samples_def jsub_def fl_numerals jmax_def jmin_def jfloor_def time_clip_def truncate_rat_def Let_def)

lemma fw_day_counters: "fold_result (\<lambda>cs e. day_series no_host e cs) fw_series [] = Inr fw_series"
  using fw_names by (simp add: fw_series_def day_series_def obj_member_def obj_get_def obj_put_def day_counter_def)

lemma fw_day_summarized: "\<exists>r. summarizeDailyFromHourly no_host [fw_hour] (js ''2025-06-01T00:00:00.000Z'') (Fin 60000) = Inr (Some r)"
  by (simp add: summarizeDailyFromHourly_def day_hours_def js_sort_def tm_def time_num_def demo_times day_bucket_def fw_day_counters fw_hour_def fl_numerals
    Let_def time_clip_def truncate_rat_def demo_isos)

lemma fw_time: "tm no_host fw_now = Fin 1748772000000"
  by (simp add: fw_now_def tm_def time_num_def demo_times)

lemma fw_hours_ago: "days_before fw_service fw_now (rt_hourlySummaryDays (se_retention fw_service)) = Fin 1740996000000"
proof -
  have "fl (90 * 86400000) = Fin (90 * 86400000)" using fl_int [of "90 * 86400000"] by (simp add: safe_int_def)
  moreover have "fl (1748772000000 - 7776000000) = Fin (1748772000000 - 7776000000)"
    using fl_int [of "1748772000000 - 7776000000"] by simp
  ultimately show ?thesis
    by (simp add: days_before_def fw_service_def fw_time configuredRetention_def from_env_def jsub_def)
qed

lemma fw_marker: "hourly_marker fw_site (js ''d'') fw_observation = Inr (js ''device-health:marker:t:s:d:hourly:2025-06-01T10:00:00.000Z:0123456789abcdef'')"
  by (simp add: hourly_marker_def fw_keys fw_observed_simps) (simp add: js_def)

definition fw_hour_key :: jstr where
  "fw_hour_key = js ''device-health:hourly:t:s:d:2025-06-01T10:00:00.000Z''"

lemma fw_starts: "utcBucketStart no_host (js ''2025-06-01T10:00:00.000Z'') Hourly = Inr (js ''2025-06-01T10:00:00.000Z'')"
  "utcBucketStart no_host (js ''2025-06-01T10:00:00.000Z'') Daily = Inr (js ''2025-06-01T00:00:00.000Z'')"
  by (simp_all add: utcBucketStart_def demo_times demo_isos bucket_floor_def width_ms_def)

lemma fw_parse [simp]: "se_parse fw_service = no_host" "rt_expectedIntervalMs (se_retention fw_service) = Fin 60000"
  by (simp_all add: fw_service_def configuredRetention_def from_env_def)

lemma fw_staged: "stage_snapshot fw_service list_level [] fw_site (js ''d'') fw_board (Fin 1740996000000) nothing_staged (new_snapshot fw_sample fw_now)
   = Inr \<lparr>sg_pending = [(fw_hour_key, fw_hour)], sg_operations = [Put (js ''device-health:marker:t:s:d:hourly:2025-06-01T10:00:00.000Z:0123456789abcdef'')
       (Stored_marker \<lparr>rm_sampleId = js ''0123456789abcdef'', rm_bucketKey = fw_hour_key, rm_observedAt = js ''2025-06-01T10:00:00.000Z''\<rparr>)],
     sg_affectedDays = [js ''2025-06-01T00:00:00.000Z'']\<rparr>"
proof -
  have k: "js ''device-health:'' @ js ''hourly'' @ js '':t:s:d:'' @ js ''2025-06-01T10:00:00.000Z'' = fw_hour_key"
    by (simp add: fw_hour_key_def js_def)
  have "stageObservation fw_service list_level [] fw_site (js ''d'') fw_board (new_snapshot fw_sample fw_now) nothing_staged
    = Inr \<lparr>sg_pending = [(fw_hour_key, fw_hour)], sg_operations = [Put (js ''device-health:marker:t:s:d:hourly:2025-06-01T10:00:00.000Z:0123456789abcdef'')
       (Stored_marker \<lparr>rm_sampleId = js ''0123456789abcdef'', rm_bucketKey = fw_hour_key, rm_observedAt = js ''2025-06-01T10:00:00.000Z''\<rparr>)],
     sg_affectedDays = [js ''2025-06-01T00:00:00.000Z'']\<rparr>"
    unfolding stageObservation_def fw_observed Let_def fw_marker and_then_simps fw_observed_simps fw_parse fw_starts fw_keys k
    by (simp add: apply_once_def nothing_staged_def present_def list_level_def store_simps pending_or_stored_def read_bucket_def fw_hour_applied
      fw_observed_simps map_set_def set_add_def)
  moreover have "\<not> jless (tm no_host (sn_collectedAt (new_snapshot fw_sample fw_now))) (Fin 1740996000000)"
    by (simp add: new_snapshot_def fw_time)
  ultimately show ?thesis by (simp add: stage_snapshot_def)
qed

lemma fw_rollups: "\<exists>ops. rollup_ops fw_service list_level [] fw_site (js ''d'') fw_board None (new_snapshot fw_sample fw_now) fw_now = Inr ops"
proof -
  obtain r where r: "summarizeDailyFromHourly no_host [fw_hour] (js ''2025-06-01T00:00:00.000Z'') (Fin 60000) = Inr (Some r)"
    using fw_day_summarized by blast
  have "rebuild_day fw_service list_level [] fw_site (js ''d'') (Fin 1740996000000) [(fw_hour_key, fw_hour)] (js ''2025-06-01T00:00:00.000Z'')
     = Inr (map_set [(fw_hour_key, fw_hour)] (js ''device-health:'' @ js ''daily'' @ js '':t:s:d:'' @ js ''2025-06-01T00:00:00.000Z'') r)"
    unfolding rebuild_day_def fw_hour_key_def fw_day_hours
    by (simp add: tm_def time_num_def demo_times r fw_keys)
  then show ?thesis by (simp add: rollup_ops_def Let_def legacy_of_def fw_hours_ago fw_staged)
qed

lemma fw_no_events: "deriveFirmwareHealthEvents no_host digest None fw_sample t [] = Inr []"
  by (simp add: deriveFirmwareHealthEvents_def reboot_texts_def session_changed_def uptime_reset_def reset_texts_def memory_texts_def
    low_memory_def below_def wifi_texts_def repeated_texts_def restart_times_def make_events_def fw_sample_def)

lemma fw_deletes: "retentionDeletes fw_service list_level [] fw_site (js ''d'') fw_now = Inr []" by code_simp

lemma fw_recorded: "\<exists>db v. record_sample fw_service list_level [] fw_site (js ''d'') fw_board fw_sample fw_now = Inr (db, v)"
proof -
  obtain rollups where r: "rollup_ops fw_service list_level [] fw_site (js ''d'') fw_board None (new_snapshot fw_sample fw_now) fw_now = Inr rollups"
    using fw_rollups by blast
  have prev: "previous_view list_level [] key fw_site = None" for key
    by (simp add: previous_view_def getValue_def list_level_def store_simps)
  have none: "all_events fw_service None [] = []" by (simp add: all_events_def events_of_def first_by_def by_time_def js_sort_def)
  have sweep: "sweep fw_service list_level [] fw_site (js ''d'') fw_now (recorded_view fw_service fw_site (js ''d'') None fw_sample fw_now [])
     = Inr ([], recorded_view fw_service fw_site (js ''d'') None fw_sample fw_now []\<lparr>fv_lastRetentionSweepAt := Some fw_now\<rparr>)"
    by (simp add: sweep_def fw_deletes shouldSweep_def recorded_view_def Let_def filled_text_def)
  have "\<exists>w. record_writes fw_service list_level [] fw_site (js ''d'') fw_board None fw_sample fw_now = Inr w"
    by (simp add: record_writes_def fw_no_events events_of_def r index_op_def fw_keys fw_encoded evidence_ops_def none failures_of_def
       sweep Let_def)
  moreover have "physical_id_form fw_board" by code_simp
  moreover have "\<not> blank_scope fw_site" by code_simp
  moreover have "fd_deviceId fw_sample = fw_board" by (simp add: fw_sample_def)
  ultimately show ?thesis by (auto simp: record_sample_def fw_time prev fw_keys)
qed
lemma fw_first_view:
  assumes "record_sample fw_service list_level [] fw_site (js ''d'') fw_board fw_sample fw_now = Inr (db, v)"
  shows "filled_text (fv_historyBackfilledThroughAt v) \<noteq> None"
proof -
  have prev: "previous_view list_level [] key fw_site = None" for key
    by (simp add: previous_view_def getValue_def list_level_def store_simps)
  obtain new x where v: "v = recorded_view fw_service fw_site (js ''d'') None fw_sample fw_now new\<lparr>fv_lastRetentionSweepAt := x\<rparr>"
    using record_sample_writes(3) [OF list_level_laws assms] prev by auto
  have "all_snapshots fw_service None (new_snapshot fw_sample fw_now) = [new_snapshot fw_sample fw_now]"
    by (simp add: all_snapshots_def snapshots_of_def first_by_def by_time_def js_sort_def)
  then show ?thesis
    by (simp add: v recorded_view_def Let_def new_snapshot_def or_text_def head_opt_def filled_text_def fw_now_def js_def)
qed

theorem recorded_view_is_read_back_witness:
  "\<exists>db v. record_sample fw_service list_level [] fw_site (js ''d'') fw_board fw_sample fw_now = Inr (db, v)
     \<and> get_view list_level db fw_site (js ''d'') = Inr (Some v) \<and> fv_current v = Some fw_sample"
proof -
  obtain db v where r: "record_sample fw_service list_level [] fw_site (js ''d'') fw_board fw_sample fw_now = Inr (db, v)"
    using fw_recorded by blast
  have p: "se_parse fw_service [] = None" by simp
  show ?thesis using recorded_view_is_read_back [OF list_level_laws p disjI1 [OF r]] r by blast
qed

theorem reachable_views_are_orderly_witness:
  "\<exists>db v. firmware_reachable fw_service list_level db \<and> get_view list_level db fw_site (js ''d'') = Inr (Some v)
     \<and> distinct (map fe_id (fv_events v)) \<and> fv_deviceId v = js ''d''"
proof -
  obtain db v where r: "record_sample fw_service list_level [] fw_site (js ''d'') fw_board fw_sample fw_now = Inr (db, v)"
    using fw_recorded by blast
  have u: "list_all utf16 [js ''d'', fs_tenantId fw_site, fs_siteId fw_site]"
    by (simp add: fw_site_def utf16_def js_def)
  have "firmware_reachable fw_service list_level []"
    by (rule firmware_reachable.created) (simp add: list_level_def store_simps)
  from firmware_reachable.sampled [OF this u r] have reach: "firmware_reachable fw_service list_level db" .
  obtain ops where "db = lv_batch list_level [] (ops @ [put_view (js ''firmware-diagnostics:t:s:d'') v])"
    using record_sample_writes(1) [OF list_level_laws r] by (auto simp: writes_view_def fw_keys)
  then have "lv_get list_level db (js ''firmware-diagnostics:t:s:d'') = Some (Stored_view (stored_form v))"
    by (simp add: laws_batch [OF list_level_laws] put_view_def apply_op_def)
  from reachable_views_are_orderly [OF reach list_level_laws _ u fw_keys(1) this] reach show ?thesis by auto
qed

theorem redelivery_keeps_hourly_buckets_witness:
  "\<exists>db v. record_sample fw_service list_level [] fw_site (js ''d'') fw_board fw_sample fw_now = Inr (db, v)
     \<and> lv_get list_level (case record_sample fw_service list_level db fw_site (js ''d'') fw_board fw_sample fw_now of
          Inr (db2, v2) \<Rightarrow> db2 | Inl e \<Rightarrow> db) fw_hour_key = lv_get list_level db fw_hour_key"
proof -
  obtain db v where r: "record_sample fw_service list_level [] fw_site (js ''d'') fw_board fw_sample fw_now = Inr (db, v)"
    using fw_recorded by blast
  have p: "se_parse fw_service [] = None" by simp
  have i: "jless (Fin 0) (rt_retentionSweepIntervalMs (se_retention fw_service))"
    by (simp add: fw_service_def configuredRetention_def)
  have m: "hourly_marker fw_site (js ''d'') (observationFor (se_digest fw_service) fw_site (js ''d'') fw_board (new_snapshot fw_sample fw_now))
      = Inr (js ''device-health:marker:t:s:d:hourly:2025-06-01T10:00:00.000Z:0123456789abcdef'')"
    by (simp only: fw_observed fw_marker)
  have n: "lv_get list_level [] (js ''device-health:marker:t:s:d:hourly:2025-06-01T10:00:00.000Z:0123456789abcdef'') = None"
    by (simp add: list_level_def store_simps)
  have h: "prefix (kind_prefix ''hourly'') fw_hour_key" by (simp add: kind_prefix_def fw_hour_key_def js_def)
  show ?thesis using redelivery_keeps_hourly_buckets [OF list_level_laws p i r fw_first_view [OF r] m n h] r by blast
qed

end
