(* ===== verification/Spec2Isabelle.thy ===== *)
theory Spec2Isabelle
  imports Automation Enrollment Observation CommandTracker PanelAnalysis DeviceControl GenericMeasurement
    Diagnostics PowerHistory HealthQuery FirmwareStore
begin

text \<open>
  A verification development of the deterministic core of energrid, a TypeScript monorepo for home
  energy and device management: NestJS services under \<open>src/apps/api\<close>, domain libraries under \<open>src/libs\<close>,
  a Vue portal, an Android application.

  \<^bold>\<open>The parts and how they interact.\<close>  Devices are enrolled (\<open>device-enrollment.ts\<close>) and bound to a
  protocol (\<open>device-control.ts\<close>).  Their telemetry passes the observation pipeline
  (\<open>device-observation-profile.ts\<close>, \<open>-pipeline.ts\<close>, \<open>-engine.ts\<close>), which keeps the newest authorised
  value of each field.  A user intent passes the policy of the automation core (\<open>automation-core.ts\<close>),
  becomes a plan and commands, and the command tracker (\<open>in-memory-device-command-tracker.ts\<close>) follows each
  command until telemetry acknowledges it, it expires or fails; it asks the investigator
  (\<open>device-execution-investigator.ts\<close>) for a diagnosis of every completed execution.  Readings
  (\<open>electrical-reading.ts\<close>, \<open>generic-measurement.ts\<close>) are validated and summarised; power series are
  analysed per hour (\<open>power-history.ts\<close>); device health samples are folded into hour and day buckets
  (\<open>device-health-history.ts\<close>), which queries read back by device, range and page
  (\<open>device-health-query.ts\<close>); the diagnostics service (\<open>device-firmware-diagnostics.ts\<close>) accepts what a
  device's firmware reports, derives events, keeps a view of the device and fills the buckets; a report
  checks a device's connection
  (\<open>device-diagnostics.ts\<close>, which reads the bindings of \<open>device-control.ts\<close>).  Electrical panels are
  compiled to a derived topology (\<open>compile-panel-project.ts\<close>), which \<open>analyze-panel.ts\<close> checks.

  \<^bold>\<open>The theories.\<close>  The language: \<open>JsPrelude\<close> (strings as UTF-16 code units, objects in property order,
  maps, sets, thrown errors as the left summand of a sum, stable sort, the \<open>keyed_store\<close> interface),
  \<open>JsNumber\<close> (doubles: rationals rounded to nearest even, with infinities and NaN; decimal printing),
  \<open>JsDate\<close> (calendar, ISO printing and parsing), \<open>JsValue\<close> (values tested at run time, JSON text),
  \<open>JsUri\<close> (\<open>encodeURIComponent\<close> and its injectivity), \<open>JsSort\<close> (sorting as a permutation).

  \<^item> \<open>Automation\<close>: \<open>libs/automation-core/src/lib/automation-core.ts\<close>; policy evaluation, plans,
    predictions, reconciliation.  The policy denies exactly the forbidden actions, an allowed plan is
    safe, a prediction is the last write.
  \<^item> \<open>Enrollment\<close>: \<open>libs/domain-devices/src/lib/device-enrollment.ts\<close>; the enrolment state machine, its
    invariant over every sequence of operations and the transitions that are errors.
  \<^item> \<open>Observation\<close>: \<open>device-observation-engine.ts\<close>, \<open>-profile.ts\<close>, \<open>-pipeline.ts\<close>; merging by time refines
    the newest candidate, whatever the arrival order; the pipeline changes only what a binding maps and
    accounts for each declared field.
  \<^item> \<open>Investigator\<close>, \<open>CommandTracker\<close>: \<open>apps/api/src/app/modules/devices/investigation\<close> and \<open>commands\<close>;
    the tracker's maps, every public operation as a step of a relation \<open>reachable\<close>, invariants by rule
    induction, and a reachable state that contradicts itself (an acknowledged command whose execution
    timed out).
  \<^item> \<open>Panel\<close>, \<open>PanelAnalysis\<close>: \<open>libs/domain-panel/src/lib\<close>; the compiler's rows, bounds, wires, fed
    devices (the propagation loop computes a least closed set, and ends by a measure on the devices not
    yet reached) and the outcome of every input, with the idempotence of compiling.
  \<^item> \<open>DeviceControl\<close>, \<open>Diagnostics\<close>: \<open>device-control.ts\<close>, \<open>device-diagnostics.ts\<close>; parsing of bindings,
    readiness, the connection report as a conjunction of evidence.
  \<^item> \<open>ElectricalReading\<close>, \<open>GenericMeasurement\<close>: \<open>libs/domain-telemetry/src/lib\<close>; validation is idempotent,
    hour summaries are exact and do not depend on the arrival order, registries stay well formed.
  \<^item> \<open>HealthHistory\<close>: \<open>device-health-history.ts\<close>; a bucket describes exactly the samples applied to it,
    and a day rebuilt from its hours agrees with the day filled directly.
  \<^item> \<open>HealthEvidence\<close>, \<open>HealthQuery\<close>: \<open>libs/domain-devices/src/lib/device-health-query.ts\<close>; the records, and the
    selection, statistics, transitions and pages of a query.  A query reads only its tenant and site, the
    statistics of a gauge describe its samples, and the pages reach every row when the collation agrees with
    the order of code units (\<open>pages\<close>, an inductive relation) and can lose one when it does not.
  \<^item> \<open>FirmwareDiagnostics\<close>, \<open>FirmwareStore\<close>: \<open>apps/api/src/app/modules/devices/device-firmware-diagnostics.ts\<close>;
    samples, events and keys, and the service as a function of its database.  A view is read back as it was
    recorded and other devices keep theirs, reachable views are bounded and belong to their key
    (\<open>firmware_reachable\<close>), a redelivered sample changes no hourly bucket.
  \<^item> \<open>PowerHistory\<close>: \<open>power-history.ts\<close>; integration, coverage and the hourly rows.

  Each state, record and union of the program is a record or datatype of the same name and fields (with a
  two-letter prefix where names would clash); each function is a definition of the same name, its steps in
  helpers named after what they do.  \<open>throw\<close> is \<open>Inl\<close>, an absent optional is \<open>None\<close>, a promise chain
  that only orders operations is their sequence.

  \<^bold>\<open>Interfaces.\<close>  \<open>keyed_store\<close> (reads after writes) is interpreted on objects and maps; \<open>metric_fold\<close>
  (a property of bucket summaries that each applied metric keeps) on gauges, counters and keys.

  \<^bold>\<open>Loops and bounds.\<close>  No definition uses fuel in place of termination.  The fed-device loop of the panel and
  the minute walk of the power analysis have measures; the gap integration, whose step depends on time
  formatters outside the repository, is a \<open>partial_function (option)\<close> and proved to return for all
  inputs.  Sums and differences of instants and counts are rounded as the code rounds them, which is exact
  up to \<open>2^53\<close>; the theorems that count samples state that bound.

  \<^bold>\<open>Outside the repository.\<close>  What the standard leaves to the host is a parameter: \<open>Date.parse\<close> on strings
  that are not ISO instants, \<open>new URL\<close>, \<open>Intl.DateTimeFormat\<close>, \<open>localeCompare\<close>, SHA-256, the key-value
  database of the diagnostics service (\<open>level\<close>), identifiers and clocks.  Where a theorem relies on documented
  behaviour of one of them it is a named hypothesis (\<open>zones_ok\<close>, \<open>parses_in_range\<close>, \<open>level_laws\<close>).

  \<^bold>\<open>Simplifications.\<close>  Negative zero is zero.  Objects that a caller of the program builds with getters or a
  changed prototype are not represented.  \<open>applyDeviceHealthObservation\<close> also updates counter objects it
  shares with the previous bucket, which no caller reads again; the model returns the new bucket only.
  Fields that are the same constant in every value of a type (\<open>schemaVersion\<close>) are left out.  Assigning to the
  property \<open>__proto__\<close> of a plan's prediction makes no entry; what later reads find on that prototype is left
  out.  A field given as an explicit \<open>undefined\<close> counts as not given.  A value the diagnostics service stored
  is read as it was written.

  \<^bold>\<open>Not modelled.\<close>  Of the diagnostics service, \<open>queryHistory\<close>, which reads rows for the modelled query and
  changes nothing.  The registry service and its stores, LAN discovery, MQTT ingest and the adapters are
  orchestration of sockets, brokers and databases around the modelled core; the vendor table is data;
  storage repositories, authentication, expenses, language-model, voice and portal services are services
  of their own, most of them input and output.  The manifest lists each with its reason.
\<close>

end
